(* ===== verification/Bhatti_Prelude.thy ===== *)
theory Bhatti_Prelude
  imports Main "HOL-Library.Word"
begin

text \<open>
  Shared vocabulary of the development: the types every component uses, the part of Go's
  standard library the sources call on strings and byte slices, and the generic lemmas on
  lists, options and words.

  A Go \<open>string\<close> is a byte sequence, as HOL's \<open>string\<close> (a list of 8-bit characters) is.
  \<open>strings.ToLower\<close>, \<open>strings.EqualFold\<close> and \<open>strings.TrimSpace\<close> are modelled on
  ASCII: a byte of 128 and above is left as it is, where Go would fold a Unicode letter.
\<close>

named_theorems go_string \<open>unfolding rules for the string functions of Go's library\<close>
named_theorems invariants \<open>preservation lemmas of the component invariants\<close>

type_synonym byte = "8 word"
type_synonym bytes = "byte list"
type_synonym u16 = "16 word"
type_synonym u32 = "32 word"

text \<open>Instants and durations are nanoseconds; one second of them.\<close>

definition second :: int where
  "second = 1000000000"

section \<open>Error results\<close>

text \<open>A Go function returning \<open>(value, error)\<close> returns \<open>Inl\<close> of the error or \<open>Inr\<close> of the value.\<close>

fun is_ok :: "'e + 'a \<Rightarrow> bool" where
  "is_ok (Inl _) = False"
| "is_ok (Inr _) = True"

fun res_bind :: "'e + 'a \<Rightarrow> ('a \<Rightarrow> 'e + 'b) \<Rightarrow> 'e + 'b" where
  "res_bind (Inl e) f = Inl e"
| "res_bind (Inr a) f = f a"

lemma res_bind_Inr_iff: "res_bind m f = Inr b \<longleftrightarrow> (\<exists>a. m = Inr a \<and> f a = Inr b)"
  by (cases m) auto

text \<open>The loop \<open>for _, x := range xs { y, err := f(x); if err != nil { return err }; out = append(out, y) }\<close>.\<close>

fun map_res :: "('a \<Rightarrow> 'e + 'b) \<Rightarrow> 'a list \<Rightarrow> 'e + 'b list" where
  "map_res f [] = Inr []"
| "map_res f (x # xs) = res_bind (f x) (\<lambda>y. res_bind (map_res f xs) (\<lambda>ys. Inr (y # ys)))"

lemma map_res_Inr_iff: "map_res f xs = Inr ys \<longleftrightarrow> list_all2 (\<lambda>x y. f x = Inr y) xs ys"
  by (induction xs arbitrary: ys) (auto simp: res_bind_Inr_iff list_all2_Cons1)

lemma map_res_length: "map_res f xs = Inr ys \<Longrightarrow> length ys = length xs"
  by (auto simp: map_res_Inr_iff dest: list_all2_lengthD)

lemma map_res_member:
  assumes "map_res f xs = Inr ys" and "y \<in> set ys"
  shows "\<exists>x \<in> set xs. f x = Inr y"
  using assms by (induction xs arbitrary: ys) (auto simp: res_bind_Inr_iff)

section \<open>Strings\<close>

definition has_prefix :: "'a list \<Rightarrow> 'a list \<Rightarrow> bool" where
  "has_prefix s p \<longleftrightarrow> length p \<le> length s \<and> take (length p) s = p"

definition has_suffix :: "'a list \<Rightarrow> 'a list \<Rightarrow> bool" where
  "has_suffix s p \<longleftrightarrow> length p \<le> length s \<and> drop (length s - length p) s = p"

lemma has_prefix_iff: "has_prefix s p \<longleftrightarrow> (\<exists>t. s = p @ t)"
  by (auto simp: has_prefix_def) (metis append_take_drop_id)

lemma has_suffix_iff: "has_suffix s p \<longleftrightarrow> (\<exists>t. s = t @ p)"
  by (auto simp: has_suffix_def) (metis append_take_drop_id)

lemma has_suffix_trans: "has_suffix a b \<Longrightarrow> has_suffix b c \<Longrightarrow> has_suffix a c"
  by (auto simp: has_suffix_iff)

lemma has_suffix_map: "has_suffix a b \<Longrightarrow> has_suffix (map f a) (map f b)"
  by (auto simp: has_suffix_iff)

definition trim_suffix :: "'a list \<Rightarrow> 'a list \<Rightarrow> 'a list" where
  "trim_suffix s p = (if has_suffix s p then take (length s - length p) s else s)"

definition trim_prefix :: "'a list \<Rightarrow> 'a list \<Rightarrow> 'a list" where
  "trim_prefix s p = (if has_prefix s p then drop (length p) s else s)"

definition cut_prefix :: "'a list \<Rightarrow> 'a list \<Rightarrow> 'a list option" where
  "cut_prefix s p = (if has_prefix s p then Some (drop (length p) s) else None)"

lemma trim_suffix_append [simp]: "trim_suffix (s @ p) p = s"
  by (simp add: trim_suffix_def has_suffix_iff)

text \<open>\<open>index sub s\<close> is \<open>bytes.Index(s, sub)\<close>: the first offset where \<open>sub\<close> occurs, \<open>None\<close> for -1.\<close>

fun index_of :: "'a list \<Rightarrow> 'a list \<Rightarrow> nat option" where
  "index_of sub [] = (if sub = [] then Some 0 else None)"
| "index_of sub (x # xs) =
     (if has_prefix (x # xs) sub then Some 0 else map_option Suc (index_of sub xs))"

definition contains :: "'a list \<Rightarrow> 'a list \<Rightarrow> bool" where
  "contains s sub \<longleftrightarrow> index_of sub s \<noteq> None"

lemma index_of_Some:
  "index_of sub s = Some i \<Longrightarrow> i + length sub \<le> length s \<and> take (length sub) (drop i s) = sub"
proof (induction sub s arbitrary: i rule: index_of.induct)
  case (1 sub)
  then show ?case by (auto split: if_splits)
next
  case (2 sub x xs)
  then show ?case by (fastforce simp: has_prefix_def split: if_splits)
qed

lemma index_of_first:
  "index_of sub s = Some i \<Longrightarrow> j < i \<Longrightarrow> take (length sub) (drop j s) \<noteq> sub"
proof (induction sub s arbitrary: i j rule: index_of.induct)
  case (1 sub)
  then show ?case by (auto split: if_splits)
next
  case (2 sub x xs)
  show ?case
  proof (cases j)
    case 0
    with "2.prems" index_of_Some [of sub "x # xs" i] show ?thesis
      by (auto simp: has_prefix_def split: if_splits)
  next
    case (Suc k)
    with 2 show ?thesis by (auto split: if_splits)
  qed
qed

lemma index_of_None:
  "index_of sub s = None \<Longrightarrow> j + length sub \<le> length s \<Longrightarrow> take (length sub) (drop j s) \<noteq> sub"
proof (induction sub s arbitrary: j rule: index_of.induct)
  case (1 sub)
  then show ?case by (auto split: if_splits)
next
  case (2 sub x xs)
  then show ?case by (cases j) (auto simp: has_prefix_def split: if_splits)
qed

lemma contains_iff: "contains s sub \<longleftrightarrow> (\<exists>a b. s = a @ sub @ b)"
proof
  assume "contains s sub"
  then obtain i where "index_of sub s = Some i" by (auto simp: contains_def)
  from index_of_Some [OF this] show "\<exists>a b. s = a @ sub @ b"
    by (metis append_take_drop_id)
next
  assume "\<exists>a b. s = a @ sub @ b"
  then obtain a b where s: "s = a @ sub @ b" by blast
  then have "length a + length sub \<le> length s" "take (length sub) (drop (length a) s) = sub"
    by simp_all
  with index_of_None [of sub s "length a"] show "contains s sub"
    by (auto simp: contains_def)
qed

subsection \<open>ASCII case and white space\<close>

definition lower_char :: "char \<Rightarrow> char" where
  "lower_char c = (let n = of_char c :: nat in if 65 \<le> n \<and> n \<le> 90 then char_of (n + 32) else c)"

definition to_lower :: "string \<Rightarrow> string" where
  "to_lower s = map lower_char s"

lemma lower_char_idem [simp]: "lower_char (lower_char c) = lower_char c"
  by (auto simp: lower_char_def Let_def)

lemma to_lower_idem [simp]: "to_lower (to_lower s) = to_lower s"
  by (simp add: to_lower_def)

lemma length_to_lower [simp]: "length (to_lower s) = length s"
  by (simp add: to_lower_def)

lemma to_lower_append [simp]: "to_lower (s @ t) = to_lower s @ to_lower t"
  by (simp add: to_lower_def)

definition equal_fold :: "string \<Rightarrow> string \<Rightarrow> bool" where
  "equal_fold s t \<longleftrightarrow> to_lower s = to_lower t"

definition is_space :: "char \<Rightarrow> bool" where
  "is_space c \<longleftrightarrow> (of_char c :: nat) \<in> {9, 10, 11, 12, 13, 32}"

definition trim_space :: "string \<Rightarrow> string" where
  "trim_space s = rev (dropWhile is_space (rev (dropWhile is_space s)))"

text \<open>A text with no white space at either end.\<close>

definition tidy :: "string \<Rightarrow> bool" where
  "tidy s \<longleftrightarrow> s \<noteq> [] \<and> \<not> is_space (hd s) \<and> \<not> is_space (last s)"

lemma trim_space_end: "trim_space s \<noteq> [] \<Longrightarrow> \<not> is_space (last (trim_space s))"
  using hd_dropWhile [of is_space "rev (dropWhile is_space s)"] by (auto simp: trim_space_def last_rev)

lemma trim_space_start: "trim_space s \<noteq> [] \<Longrightarrow> \<not> is_space (hd (trim_space s))"
proof -
  assume ne: "trim_space s \<noteq> []"
  let ?t = "dropWhile is_space s"
  obtain a where a: "?t = trim_space s @ a"
    unfolding trim_space_def by (metis rev_append rev_rev_ident takeWhile_dropWhile_id)
  with ne have "?t \<noteq> []" "hd ?t = hd (trim_space s)" by auto
  then show ?thesis using hd_dropWhile [of is_space s] by simp
qed

lemma trim_space_id: "tidy s \<Longrightarrow> trim_space s = s"
proof -
  assume "tidy s"
  then have "dropWhile is_space s = s" "dropWhile is_space (rev s) = rev s"
    by (auto simp: tidy_def dropWhile_eq_self_iff hd_rev)
  then show ?thesis by (simp add: trim_space_def)
qed

lemma is_space_lower [simp]: "is_space (lower_char c) \<longleftrightarrow> is_space c"
  by (auto simp: is_space_def lower_char_def Let_def)

lemma tidy_lower [simp]: "tidy (to_lower s) \<longleftrightarrow> tidy s"
  by (auto simp: tidy_def to_lower_def hd_map last_map)

lemma contains1: "contains s [c] \<longleftrightarrow> c \<in> set s"
  by (auto simp: contains_iff in_set_conv_decomp)

text \<open>\<open>strings.Split(s, sep)\<close> for a one-byte separator.\<close>

fun split_on :: "'a \<Rightarrow> 'a list \<Rightarrow> 'a list list" where
  "split_on c [] = [[]]"
| "split_on c (x # xs) =
     (if x = c then [] # split_on c xs
      else case split_on c xs of [] \<Rightarrow> [[x]] | w # ws \<Rightarrow> (x # w) # ws)"

lemma split_on_not_Nil [simp]: "split_on c s \<noteq> []"
  by (induction s) (auto split: list.splits)

lemma split_on_append: "c \<notin> set a \<Longrightarrow> split_on c (a @ c # rest) = a # split_on c rest"
  by (induction a) auto

lemma split_on_none: "c \<notin> set a \<Longrightarrow> split_on c a = [a]"
  by (induction a) auto

definition is_digit :: "char \<Rightarrow> bool" where
  "is_digit c \<longleftrightarrow> (let n = of_char c :: nat in 48 \<le> n \<and> n \<le> 57)"

definition digit_val :: "char \<Rightarrow> int" where
  "digit_val c = of_char c - 48"

fun digits_val :: "int \<Rightarrow> string \<Rightarrow> int" where
  "digits_val n [] = n"
| "digits_val n (c # cs) = digits_val (10 * n + digit_val c) cs"

text \<open>\<^verbatim>\<open>strconv.Atoi\<close>: an optional sign and decimal digits, within 64 bits.\<close>

definition Atoi :: "string \<Rightarrow> int option" where
  "Atoi s =
     (let neg = (s \<noteq> [] \<and> hd s = CHR ''-'');
          digits = (if s \<noteq> [] \<and> (hd s = CHR ''-'' \<or> hd s = CHR ''+'') then tl s else s) in
      if digits = [] \<or> \<not> list_all is_digit digits then None
      else let n = (if neg then - digits_val 0 digits else digits_val 0 digits) in
        if n < - (2 ^ 63) \<or> n \<ge> 2 ^ 63 then None else Some n)"

end
