(* ===== verification/Frame.thy ===== *)
theory Frame
  imports Bhatti_Prelude
begin

text \<open>
  The two framed byte-stream protocols: host/guest-agent frames
  (\<^verbatim>\<open>pkg/agent/proto/frame.go\<close>) and the ethernet frames netd exchanges with the VMM
  (\<^verbatim>\<open>pkg/gateway/link.go\<close>). A stream that ends (or is closed) is the list of the bytes still to
  be read; a read that blocks for more bytes is outside the model. Writing returns the one buffer handed
  to \<^verbatim>\<open>w.Write\<close>.

  The locale \<open>frame_codec\<close> states what a reader of such a stream relies on; it is interpreted on
  both protocols, and the read loop's correctness is proved once inside it.
\<close>

unbundle bit_operations_syntax

section \<open>Big-endian integers\<close>

definition put_u16 :: "u16 \<Rightarrow> bytes" where
  "put_u16 v = [ucast (drop_bit 8 v), ucast v]"

definition get_u16 :: "byte \<Rightarrow> byte \<Rightarrow> u16" where
  "get_u16 a b = push_bit 8 (ucast a) OR ucast b"

definition put_u32 :: "u32 \<Rightarrow> bytes" where
  "put_u32 v = [ucast (drop_bit 24 v), ucast (drop_bit 16 v), ucast (drop_bit 8 v), ucast v]"

definition get_u32 :: "byte \<Rightarrow> byte \<Rightarrow> byte \<Rightarrow> byte \<Rightarrow> u32" where
  "get_u32 a b c d =
     push_bit 24 (ucast a) OR push_bit 16 (ucast b) OR push_bit 8 (ucast c) OR ucast d"

text \<open>\<^verbatim>\<open>binary.BigEndian.Uint32\<close> on a slice: it panics below four bytes.\<close>

fun be_uint32 :: "bytes \<Rightarrow> u32 option" where
  "be_uint32 (a # b # c # d # _) = Some (get_u32 a b c d)"
| "be_uint32 _ = None"

fun be_uint16 :: "bytes \<Rightarrow> u16 option" where
  "be_uint16 (a # b # _) = Some (get_u16 a b)"
| "be_uint16 _ = None"

lemma length_put [simp]: "length (put_u16 h) = 2" "length (put_u32 v) = 4"
  by (simp_all add: put_u16_def put_u32_def)

lemma get_put_u16 [simp]: "be_uint16 (put_u16 v @ r) = Some v"
proof -
  have "get_u16 (ucast (drop_bit 8 v)) (ucast v) = v"
    unfolding get_u16_def
    by (rule bit_word_eqI) (auto simp: bit_simps)
  then show ?thesis by (simp add: put_u16_def)
qed

lemma get_put_u32 [simp]: "be_uint32 (put_u32 v @ r) = Some v"
proof -
  have "get_u32 (ucast (drop_bit 24 v)) (ucast (drop_bit 16 v)) (ucast (drop_bit 8 v)) (ucast v) = v"
    (is "?x = v")
  proof (rule bit_word_eqI)
    fix n :: nat
    show "bit ?x n = bit v n"
      by (cases "16 \<le> n"; cases "24 \<le> n"; cases "8 \<le> n")
        (simp_all add: get_u32_def bit_simps, auto dest: bit_imp_le_length)
  qed
  then show ?thesis by (simp add: put_u32_def)
qed

lemma be_uint32_Some: "4 \<le> length b \<Longrightarrow> \<exists>v. be_uint32 b = Some v"
  by (cases b rule: be_uint32.cases) auto

lemma be_uint32_take: "4 \<le> length b \<Longrightarrow> be_uint32 (take 4 b) = be_uint32 b"
  by (cases b rule: be_uint32.cases) auto

lemma not_bit_byte [simp]: "8 \<le> n \<Longrightarrow> \<not> bit (b :: byte) n"
  by (auto dest: bit_imp_le_length)

lemma put_get_u32: "put_u32 (get_u32 a b c d) = [a, b, c, d]"
  by (auto simp: put_u32_def get_u32_def bit_simps intro!: bit_word_eqI)

lemma be_uint32_put: "be_uint32 b = Some v \<Longrightarrow> b = put_u32 v @ drop 4 b"
  by (cases b rule: be_uint32.cases) (auto simp: put_get_u32)

section \<open>Reading from a stream\<close>

datatype io_error = EOF | UnexpectedEOF

text \<open>\<^verbatim>\<open>io.ReadFull(r, buf)\<close> with \<open>n = len(buf)\<close>: \<open>EOF\<close> only when nothing was read.\<close>

definition read_full :: "nat \<Rightarrow> bytes \<Rightarrow> (io_error + bytes) \<times> bytes" where
  "read_full n s =
     (if n = 0 then (Inr [], s)
      else if s = [] then (Inl EOF, [])
      else if length s < n then (Inl UnexpectedEOF, [])
      else (Inr (take n s), drop n s))"

lemma read_full_append [simp]: "0 < length b \<Longrightarrow> n = length b \<Longrightarrow> read_full n (b @ r) = (Inr b, r)"
  by (auto simp: read_full_def)

lemma read_full_Inr:
  "read_full n s = (Inr b, r) \<longleftrightarrow> length b = n \<and> s = b @ r"
  by (auto simp: read_full_def split: if_splits)

section \<open>Agent frames\<close>

datatype frame_error = FrameIO io_error | FrameZeroLength | FrameTooLarge nat

definition MaxFrameSize :: nat where
  "MaxFrameSize = 2 ^ 20"

text \<open>\<open>WriteFrame\<close> assembles the frame in one buffer; the result is what is passed to the writer.\<close>

definition WriteFrame :: "byte \<Rightarrow> bytes \<Rightarrow> frame_error + bytes" where
  "WriteFrame msgType payload =
     (let frameLen = 1 + length payload in
      if frameLen > MaxFrameSize then Inl (FrameTooLarge frameLen)
      else Inr (put_u32 (word_of_nat frameLen) @ [msgType] @ payload))"

definition ReadFrame :: "bytes \<Rightarrow> (frame_error + byte \<times> bytes) \<times> bytes" where
  "ReadFrame r =
     (case read_full 4 r of
        (Inl e, r1) \<Rightarrow> (Inl (FrameIO e), r1)
      | (Inr lenBuf, r1) \<Rightarrow>
          (case be_uint32 lenBuf of
             None \<Rightarrow> (Inl (FrameIO UnexpectedEOF), r1)
           | Some w \<Rightarrow>
               (let frameLen = unat w in
                if frameLen = 0 then (Inl FrameZeroLength, r1)
                else if frameLen > MaxFrameSize then (Inl (FrameTooLarge frameLen), r1)
                else case read_full frameLen r1 of
                    (Inl e, r2) \<Rightarrow> (Inl (FrameIO UnexpectedEOF), r2)
                  | (Inr data, r2) \<Rightarrow> (Inr (hd data, tl data), r2))))"

text \<open>\<open>TryParse\<close> returns the type, the payload offset and the frame's total length.\<close>

definition TryParse :: "bytes \<Rightarrow> (byte \<times> nat \<times> nat) option" where
  "TryParse buf =
     (if length buf < 5 then None
      else case be_uint32 buf of
          None \<Rightarrow> None
        | Some w \<Rightarrow>
            (let frameLen = unat w in
             if frameLen = 0 \<or> frameLen > MaxFrameSize then None
             else let total = 4 + frameLen in
               if length buf < total then None else Some (buf ! 4, 5, total)))"

definition ResizePayload :: "u16 \<Rightarrow> u16 \<Rightarrow> bytes" where
  "ResizePayload rows cols = put_u16 rows @ put_u16 cols"

definition ParseResize :: "bytes \<Rightarrow> (u16 \<times> u16) option" where
  "ParseResize payload =
     (if length payload < 4 then None
      else case (be_uint16 payload, be_uint16 (drop 2 payload)) of
          (Some r, Some c) \<Rightarrow> Some (r, c)
        | _ \<Rightarrow> None)"

text \<open>The exit code is an \<open>int32\<close>: the word with the same 32 bits, read by \<open>sint\<close>.\<close>

definition ExitPayload :: "int \<Rightarrow> bytes" where
  "ExitPayload code = put_u32 (word_of_int code)"

definition ParseExitCode :: "bytes \<Rightarrow> int option" where
  "ParseExitCode payload =
     (if length payload < 4 then None
      else case be_uint32 payload of None \<Rightarrow> None | Some w \<Rightarrow> Some (sint w))"

section \<open>Ethernet frames on the VMM link\<close>

datatype link_error = LinkIO io_error | LinkZero | LinkTooLong nat | LinkShort nat io_error | LinkEmpty

definition frameHeaderLen :: nat where "frameHeaderLen = 4"

definition maxFrameLen :: nat where "maxFrameLen = 128 * 1024"

definition link_ReadFrame :: "bytes \<Rightarrow> (link_error + bytes) \<times> bytes" where
  "link_ReadFrame r =
     (case read_full frameHeaderLen r of
        (Inl e, r1) \<Rightarrow> (Inl (LinkIO e), r1)
      | (Inr hdr, r1) \<Rightarrow>
          (case be_uint32 hdr of
             None \<Rightarrow> (Inl (LinkIO UnexpectedEOF), r1)
           | Some w \<Rightarrow>
               (let n = unat w in
                if n = 0 then (Inl LinkZero, r1)
                else if n > maxFrameLen then (Inl (LinkTooLong n), r1)
                else case read_full n r1 of
                    (Inl e, r2) \<Rightarrow> (Inl (LinkShort n e), r2)
                  | (Inr buf, r2) \<Rightarrow> (Inr buf, r2))))"

definition link_WriteFrame :: "bytes \<Rightarrow> link_error + bytes" where
  "link_WriteFrame frame =
     (if length frame = 0 then Inl LinkEmpty
      else if length frame > maxFrameLen then Inl (LinkTooLong (length frame))
      else Inr (put_u32 (word_of_nat (length frame)) @ frame))"

section \<open>What a reader of a framed stream relies on\<close>

text \<open>
  A loop that reads frames until the first error, as every receiver of the two protocols does.
  One unit of fuel is spent per frame.
\<close>

fun read_loop :: "(bytes \<Rightarrow> ('e + 'm) \<times> bytes) \<Rightarrow> nat \<Rightarrow> bytes \<Rightarrow> 'm list \<times> 'e option" where
  "read_loop dec 0 s = ([], None)"
| "read_loop dec (Suc n) s =
     (case dec s of
        (Inl e, _) \<Rightarrow> ([], Some e)
      | (Inr m, r) \<Rightarrow> (case read_loop dec n r of (ms, e) \<Rightarrow> (m # ms, e)))"

locale frame_codec =
  fixes enc :: "'m \<Rightarrow> 'e + bytes"
    and dec :: "bytes \<Rightarrow> ('e + 'm) \<times> bytes"
    and eof :: 'e
  assumes dec_enc: "enc m = Inr b \<Longrightarrow> dec (b @ r) = (Inr m, r)"
    and enc_dec: "dec s = (Inr m, r) \<Longrightarrow> \<exists>b. enc m = Inr b \<and> s = b @ r"
    and enc_nonempty: "enc m = Inr b \<Longrightarrow> b \<noteq> []"
    and dec_end: "dec [] = (Inl eof, [])"
begin

lemma read_loop_stream:
  assumes "map_res enc ms = Inr bs" and "length ms < fuel"
  shows "read_loop dec fuel (concat bs) = (ms, Some eof)"
  using assms
proof (induction ms arbitrary: bs fuel)
  case Nil
  then show ?case by (cases fuel) (auto simp: dec_end)
next
  case (Cons m ms)
  then obtain b bs' where "enc m = Inr b" "map_res enc ms = Inr bs'" "bs = b # bs'"
    by (auto simp: res_bind_Inr_iff)
  with Cons show ?case by (cases fuel) (auto simp: dec_enc)
qed

lemma read_loop_enough_fuel:
  "length s < fuel \<Longrightarrow> \<exists>ms e. read_loop dec fuel s = (ms, Some e)"
proof (induction fuel arbitrary: s)
  case 0
  then show ?case by simp
next
  case (Suc n)
  show ?case
  proof (cases "dec s")
    case (Pair a r)
    show ?thesis
    proof (cases a)
      case (Inl e)
      with Pair show ?thesis by simp
    next
      case (Inr m)
      with Pair enc_dec enc_nonempty have "length r < length s" by fastforce
      with Suc obtain ms e where "read_loop dec n r = (ms, Some e)" by fastforce
      with Pair Inr show ?thesis by simp
    qed
  qed
qed

lemma stream_unique:
  assumes "map_res enc ms = Inr bs" "map_res enc ms' = Inr bs'" "concat bs = concat bs'"
  shows "ms = ms'"
  using read_loop_stream [OF assms(1), of "Suc (length ms + length ms')"]
    read_loop_stream [OF assms(2), of "Suc (length ms + length ms')"] assms(3)
  by simp

end

lemma unat_frame_len: "n \<le> MaxFrameSize \<Longrightarrow> unat (word_of_nat n :: u32) = n"
  by (simp add: MaxFrameSize_def unat_of_nat)

lemma unat_link_len: "n \<le> maxFrameLen \<Longrightarrow> unat (word_of_nat n :: u32) = n"
  by (simp add: maxFrameLen_def unat_of_nat)

lemma WriteFrame_Inr:
  "WriteFrame t p = Inr b \<longleftrightarrow>
     length p < MaxFrameSize \<and> b = put_u32 (word_of_nat (Suc (length p))) @ t # p"
  by (auto simp: WriteFrame_def Let_def)

lemma ReadFrame_Inr:
  "ReadFrame s = (Inr (t, p), r) \<longleftrightarrow>
     length p < MaxFrameSize \<and> s = put_u32 (word_of_nat (Suc (length p))) @ t # p @ r"
proof
  assume l: "ReadFrame s = (Inr (t, p), r)"
  then obtain h r1 w d where h: "read_full 4 s = (Inr h, r1)" "be_uint32 h = Some w"
    and w: "unat w \<noteq> 0" "unat w \<le> MaxFrameSize"
    and d: "read_full (unat w) r1 = (Inr d, r)" "t = hd d" "p = tl d"
    by (auto simp: ReadFrame_def Let_def split: prod.splits sum.splits option.splits if_splits)
  then have "length d = unat w" "d = t # p" by (cases d; auto simp: read_full_Inr)+
  from this have "unat w = Suc (length p)" by simp
  from arg_cong [OF this, of "word_of_nat :: nat \<Rightarrow> u32"]
  have w': "word_of_nat (Suc (length p)) = w" by simp
  have "h = put_u32 w" using h be_uint32_put [of h w] by (auto simp: read_full_Inr)
  with h(1) d(1) w(2) \<open>unat w = Suc (length p)\<close> \<open>d = t # p\<close>
  show "length p < MaxFrameSize \<and> s = put_u32 (word_of_nat (Suc (length p))) @ t # p @ r"
    unfolding w' by (simp add: read_full_Inr)
next
  assume r: "length p < MaxFrameSize \<and> s = put_u32 (word_of_nat (Suc (length p))) @ t # p @ r"
  then have "read_full (Suc (length p)) ((t # p) @ r) = (Inr (t # p), r)" by (subst read_full_append) auto
  with r unat_frame_len [of "Suc (length p)"] get_put_u32 [where r = "[]"] show "ReadFrame s = (Inr (t, p), r)"
    by (auto simp: ReadFrame_def Let_def)
qed

interpretation agent: frame_codec "\<lambda>(t, p). WriteFrame t p" ReadFrame "FrameIO EOF"
  by unfold_locales
    (auto simp: WriteFrame_Inr ReadFrame_Inr, simp add: ReadFrame_def read_full_def)

lemma link_WriteFrame_Inr:
  "link_WriteFrame f = Inr b \<longleftrightarrow>
     f \<noteq> [] \<and> length f \<le> maxFrameLen \<and> b = put_u32 (word_of_nat (length f)) @ f"
  by (auto simp: link_WriteFrame_def)

lemma link_ReadFrame_Inr:
  "link_ReadFrame s = (Inr f, r) \<longleftrightarrow>
     f \<noteq> [] \<and> length f \<le> maxFrameLen \<and> s = put_u32 (word_of_nat (length f)) @ f @ r"
proof
  assume l: "link_ReadFrame s = (Inr f, r)"
  then obtain h r1 w where h: "read_full 4 s = (Inr h, r1)" "be_uint32 h = Some w"
    and w: "unat w \<noteq> 0" "unat w \<le> maxFrameLen" and d: "read_full (unat w) r1 = (Inr f, r)"
    by (auto simp: link_ReadFrame_def frameHeaderLen_def Let_def
        split: prod.splits sum.splits option.splits if_splits)
  have "h = put_u32 w" using h be_uint32_put [of h w] by (auto simp: read_full_Inr)
  moreover have "word_of_nat (length f) = w" using d by (auto simp: read_full_Inr)
  ultimately show "f \<noteq> [] \<and> length f \<le> maxFrameLen \<and> s = put_u32 (word_of_nat (length f)) @ f @ r"
    using h w d by (auto simp: read_full_Inr)
next
  assume r: "f \<noteq> [] \<and> length f \<le> maxFrameLen \<and> s = put_u32 (word_of_nat (length f)) @ f @ r"
  with unat_link_len [of "length f"] get_put_u32 [where r = "[]"] show "link_ReadFrame s = (Inr f, r)"
    by (auto simp: link_ReadFrame_def frameHeaderLen_def Let_def)
qed

interpretation link: frame_codec link_WriteFrame link_ReadFrame "LinkIO EOF"
  by unfold_locales
    (auto simp: link_WriteFrame_Inr link_ReadFrame_Inr,
     simp add: link_ReadFrame_def read_full_def frameHeaderLen_def)

section \<open>Properties\<close>

text \<open>
  Agent frames written one after the other on a stream are read back by the receive loop as
  the same messages, in the same order and with nothing left over, and the loop then sees the
  clean end of the stream; one read per frame and one for the end are enough.
\<close>

theorem agent_stream_roundtrip:
  assumes "map_res (\<lambda>(t, p). WriteFrame t p) ms = Inr bs"
  shows "read_loop ReadFrame (Suc (length ms)) (concat bs) = (ms, Some (FrameIO EOF))"
  by (rule agent.read_loop_stream [OF assms]) simp

lemma agent_stream_roundtrip_witness:
  "read_loop ReadFrame (Suc (length [(2 :: byte, [104, 105 :: byte]), (5, [0, 0, 0, 0])]))
     (concat [[0, 0, 0, 3, 2, 104, 105], [0, 0, 0, 5, 5, 0, 0, 0, 0]])
   = ([(2, [104, 105]), (5, [0, 0, 0, 0])], Some (FrameIO EOF))"
  by (rule agent_stream_roundtrip) (simp add: WriteFrame_def MaxFrameSize_def put_u32_def)

text \<open>
  A stream that breaks off inside a frame never yields a frame: for every written frame and
  every proper prefix of it, the reader reports the clean end on the empty prefix and an
  unexpected end of stream otherwise.
\<close>

theorem agent_truncated_frame:
  assumes "WriteFrame t p = Inr b" and "n < length b"
  shows "fst (ReadFrame (take n b)) = Inl (FrameIO (if n = 0 then EOF else UnexpectedEOF))"
proof (cases "n < 4")
  case True
  with assms show ?thesis by (auto simp: ReadFrame_def read_full_def)
next
  case False
  from assms have b: "b = put_u32 (word_of_nat (Suc (length p))) @ t # p" "length p < MaxFrameSize"
    by (auto simp: WriteFrame_Inr)
  with False have t: "take n b = put_u32 (word_of_nat (Suc (length p))) @ take (n - 4) (t # p)"
    by (simp add: take_append)
  have "n - 4 < Suc (length p)" using assms(2) b False by simp
  then have "fst (read_full (Suc (length p)) (take (n - 4) (t # p))) \<in> {Inl EOF, Inl UnexpectedEOF}"
    by (auto simp: read_full_def)
  with False t unat_frame_len [of "Suc (length p)"] b(2) get_put_u32 [where r = "[]"]
  show ?thesis
    by (auto simp: ReadFrame_def Let_def split: prod.splits sum.splits)
qed

lemma agent_truncated_frame_witness:
  "fst (ReadFrame (take 6 [0, 0, 0, 3, 2, 104, 105]))
   = Inl (FrameIO (if (6 :: nat) = 0 then EOF else UnexpectedEOF))"
  by (rule agent_truncated_frame [of 2 "[104, 105]"])
    (simp_all add: WriteFrame_def MaxFrameSize_def put_u32_def)

text \<open>
  The buffer parser and the stream reader accept the same frames: \<open>TryParse\<close> finds a frame
  at the front of a buffer exactly when \<open>ReadFrame\<close> reads one from it, with the payload at the
  offset and the rest of the buffer after the total length that \<open>TryParse\<close> reports.
\<close>

theorem TryParse_ReadFrame:
  "TryParse buf = Some (t, off, tot) \<longleftrightarrow>
     off = 5 \<and> 5 \<le> tot \<and> tot \<le> length buf \<and>
     ReadFrame buf = (Inr (t, drop off (take tot buf)), drop tot buf)"
proof
  assume l: "TryParse buf = Some (t, off, tot)"
  then obtain w where w: "be_uint32 buf = Some w" "unat w \<noteq> 0" "unat w \<le> MaxFrameSize"
    "4 + unat w \<le> length buf" and eq: "t = buf ! 4" "off = 5" "tot = 4 + unat w"
    by (auto simp: TryParse_def Let_def split: option.splits if_splits)
  let ?d = "take (unat w) (drop 4 buf)"
  from w have d: "length ?d = unat w" "?d \<noteq> []" by (auto simp flip: length_0_conv)
  with w have "hd ?d = buf ! 4" "tl ?d = drop 5 (take (4 + unat w) buf)"
    by (auto simp: hd_conv_nth tl_take tl_drop drop_take simp flip: drop_Suc)
  moreover have "be_uint32 (take 4 buf) = Some w" using w by (simp add: be_uint32_take)
  ultimately have "ReadFrame buf = (Inr (buf ! 4, drop 5 (take (4 + unat w) buf)), drop (4 + unat w) buf)"
    using w by (auto simp: ReadFrame_def read_full_def Let_def ac_simps)
  with w eq show "off = 5 \<and> 5 \<le> tot \<and> tot \<le> length buf \<and>
     ReadFrame buf = (Inr (t, drop off (take tot buf)), drop tot buf)" by simp
next
  assume r: "off = 5 \<and> 5 \<le> tot \<and> tot \<le> length buf \<and>
     ReadFrame buf = (Inr (t, drop off (take tot buf)), drop tot buf)"
  let ?p = "drop 5 (take tot buf)"
  from r have len: "length ?p = tot - 5" by simp
  from r have "ReadFrame buf = (Inr (t, ?p), drop tot buf)" by simp
  then have p: "length ?p < MaxFrameSize"
    and "buf = put_u32 (word_of_nat (Suc (length ?p))) @ t # ?p @ drop tot buf"
    by (auto simp only: ReadFrame_Inr)
  moreover have "unat (word_of_nat (Suc (length ?p)) :: u32) = tot - 4"
    using unat_frame_len [of "Suc (length ?p)"] p unfolding len using r by linarith
  ultimately obtain w q where w: "buf = put_u32 w @ t # q" "unat w = tot - 4" "tot - 5 < MaxFrameSize"
    using len by metis
  from w(1) have "be_uint32 buf = Some w" "buf ! 4 = t" by (simp_all add: nth_append)
  with r w show "TryParse buf = Some (t, off, tot)" by (auto simp: TryParse_def Let_def)
qed

text \<open>
  The ethernet frames of the VMM link survive the stream too, and two different sequences of
  frames are never written as the same bytes.
\<close>

theorem link_stream_roundtrip:
  assumes "map_res link_WriteFrame fs = Inr bs"
  shows "read_loop link_ReadFrame (Suc (length fs)) (concat bs) = (fs, Some (LinkIO EOF)) \<and>
     (\<forall>gs cs. map_res link_WriteFrame gs = Inr cs \<and> concat cs = concat bs \<longrightarrow> gs = fs)"
  using link.read_loop_stream [OF assms, of "Suc (length fs)"] link.stream_unique [OF assms]
  by auto

lemma link_stream_roundtrip_witness:
  "read_loop link_ReadFrame (Suc (length [[1, 2], [7 :: byte]])) (concat [[0, 0, 0, 2, 1, 2], [0, 0, 0, 1, 7]])
     = ([[1, 2], [7]], Some (LinkIO EOF))"
  by (rule conjunct1 [OF link_stream_roundtrip]) (simp add: link_WriteFrame_def maxFrameLen_def put_u32_def)

text \<open>
  The control payloads decode to what was encoded: every \<open>int32\<close> exit code and every pair of
  16-bit terminal dimensions, whatever bytes follow.
\<close>

theorem control_payload_roundtrip:
  assumes "- (2 ^ 31) \<le> code" and "code < 2 ^ 31"
  shows "ParseExitCode (ExitPayload code @ rest) = Some code \<and>
     ParseResize (ResizePayload rows cols @ rest) = Some (rows, cols)"
proof -
  have "sint (word_of_int code :: u32) = code"
    using assms by (simp add: sint_sbintrunc' signed_take_bit_int_eq_self)
  moreover have "drop 2 (put_u16 rows @ put_u16 cols @ rest) = put_u16 cols @ rest" by simp
  ultimately show ?thesis
    by (simp add: ParseExitCode_def ExitPayload_def ParseResize_def ResizePayload_def)
qed

lemma control_payload_roundtrip_witness:
  "ParseExitCode (ExitPayload (- 9) @ []) = Some (- 9) \<and>
   ParseResize (ResizePayload 24 80 @ []) = Some (24, 80)"
  by (rule control_payload_roundtrip) simp_all

end
