(* ===== verification/Netip.thy ===== *)
theory Netip
  imports Bhatti_Prelude
begin

text \<open>
  The part of Go's \<^verbatim>\<open>net/netip\<close> and \<^verbatim>\<open>net\<close> the gateway uses: addresses, prefixes, their
  textual forms and the address classes. An address is invalid (the zero \<^verbatim>\<open>netip.Addr\<close>), an IPv4
  address of 32 bits, or an IPv6 address of 128 bits with a zone, empty for none.
\<close>

unbundle bit_operations_syntax

datatype addr = AddrZero | Addr4 "32 word" | Addr6 "128 word" string

fun IsValid :: "addr \<Rightarrow> bool" where
  "IsValid AddrZero = False"
| "IsValid _ = True"

fun Is4 :: "addr \<Rightarrow> bool" where
  "Is4 (Addr4 _) = True"
| "Is4 _ = False"

fun Is6 :: "addr \<Rightarrow> bool" where
  "Is6 (Addr6 _ _) = True"
| "Is6 _ = False"

fun BitLen :: "addr \<Rightarrow> nat" where
  "BitLen AddrZero = 0"
| "BitLen (Addr4 _) = 32"
| "BitLen (Addr6 _ _) = 128"

fun hasZone :: "addr \<Rightarrow> bool" where
  "hasZone (Addr6 _ z) = (z \<noteq> [])"
| "hasZone _ = False"

fun Is4In6 :: "addr \<Rightarrow> bool" where
  "Is4In6 (Addr6 a _) = (drop_bit 32 a = 0xffff)"
| "Is4In6 _ = False"

text \<open>\<open>Unmap\<close> drops the zone with the mapping prefix.\<close>

fun Unmap :: "addr \<Rightarrow> addr" where
  "Unmap (Addr6 a z) = (if drop_bit 32 a = 0xffff then Addr4 (ucast a) else Addr6 a z)"
| "Unmap a = a"

lemma Unmap_not_4in6 [simp]: "\<not> Is4In6 (Unmap a)"
  by (cases a) auto

lemma Unmap_idem [simp]: "Unmap (Unmap a) = Unmap a"
  by (cases a) auto

fun IsUnspecified :: "addr \<Rightarrow> bool" where
  "IsUnspecified (Addr4 a) = (a = 0)"
| "IsUnspecified (Addr6 a z) = (a = 0 \<and> z = [])"
| "IsUnspecified AddrZero = False"

text \<open>The class tests below look through an IPv4-mapped address, as the library's do.\<close>

fun loopback_raw :: "addr \<Rightarrow> bool" where
  "loopback_raw (Addr4 a) = (drop_bit 24 a = 127)"
| "loopback_raw (Addr6 a _) = (a = 1)"
| "loopback_raw AddrZero = False"

fun linklocal_unicast_raw :: "addr \<Rightarrow> bool" where
  "linklocal_unicast_raw (Addr4 a) = (drop_bit 16 a = 0xa9fe)"
| "linklocal_unicast_raw (Addr6 a _) = (drop_bit 112 a AND 0xffc0 = 0xfe80)"
| "linklocal_unicast_raw AddrZero = False"

fun linklocal_multicast_raw :: "addr \<Rightarrow> bool" where
  "linklocal_multicast_raw (Addr4 a) = (drop_bit 8 a = 0xe00000)"
| "linklocal_multicast_raw (Addr6 a _) = (drop_bit 112 a AND 0xff0f = 0xff02)"
| "linklocal_multicast_raw AddrZero = False"

fun iflocal_multicast_raw :: "addr \<Rightarrow> bool" where
  "iflocal_multicast_raw (Addr6 a _) = (drop_bit 112 a AND 0xff0f = 0xff01)"
| "iflocal_multicast_raw _ = False"

fun multicast_raw :: "addr \<Rightarrow> bool" where
  "multicast_raw (Addr4 a) = (drop_bit 28 a = 0xe)"
| "multicast_raw (Addr6 a _) = (drop_bit 120 a = 0xff)"
| "multicast_raw AddrZero = False"

fun private_raw :: "addr \<Rightarrow> bool" where
  "private_raw (Addr4 a) =
     (drop_bit 24 a = 10 \<or> drop_bit 20 a = 0xac1 \<or> drop_bit 16 a = 0xc0a8)"
| "private_raw (Addr6 a _) = (drop_bit 120 a AND 0xfe = 0xfc)"
| "private_raw AddrZero = False"

definition IsLoopback :: "addr \<Rightarrow> bool" where "IsLoopback a = loopback_raw (Unmap a)"
definition IsLinkLocalUnicast :: "addr \<Rightarrow> bool" where "IsLinkLocalUnicast a = linklocal_unicast_raw (Unmap a)"
definition IsLinkLocalMulticast :: "addr \<Rightarrow> bool" where "IsLinkLocalMulticast a = linklocal_multicast_raw (Unmap a)"
definition IsInterfaceLocalMulticast :: "addr \<Rightarrow> bool" where
  "IsInterfaceLocalMulticast a = (Is6 a \<and> \<not> Is4In6 a \<and> iflocal_multicast_raw a)"
definition IsMulticast :: "addr \<Rightarrow> bool" where "IsMulticast a = multicast_raw (Unmap a)"
definition IsPrivate :: "addr \<Rightarrow> bool" where "IsPrivate a = private_raw (Unmap a)"

section \<open>Prefixes\<close>

text \<open>
  The zero \<^verbatim>\<open>netip.Prefix\<close> is invalid; a valid one holds an address without zone and a bit count
  of at most the address's length.
\<close>

datatype prefix = PrefixZero | Prefix addr nat

fun prefix_valid :: "prefix \<Rightarrow> bool" where
  "prefix_valid PrefixZero = False"
| "prefix_valid (Prefix a b) = (IsValid a \<and> \<not> hasZone a \<and> b \<le> BitLen a)"

text \<open>\<^verbatim>\<open>netip.PrefixFrom\<close>: it drops the zone, and a bit count out of range gives an invalid prefix.\<close>

fun without_zone :: "addr \<Rightarrow> addr" where
  "without_zone (Addr6 a _) = Addr6 a []"
| "without_zone a = a"

definition PrefixFrom :: "addr \<Rightarrow> nat \<Rightarrow> prefix" where
  "PrefixFrom a b = (if IsValid a \<and> b \<le> BitLen a then Prefix (without_zone a) b else PrefixZero)"

fun prefix_addr :: "prefix \<Rightarrow> addr" where
  "prefix_addr PrefixZero = AddrZero"
| "prefix_addr (Prefix a _) = a"

fun prefix_bits :: "prefix \<Rightarrow> nat" where
  "prefix_bits PrefixZero = 0"
| "prefix_bits (Prefix _ b) = b"

fun Contains :: "prefix \<Rightarrow> addr \<Rightarrow> bool" where
  "Contains (Prefix (Addr4 p) b) (Addr4 a) = (b \<le> 32 \<and> drop_bit (32 - b) a = drop_bit (32 - b) p)"
| "Contains (Prefix (Addr6 p z) b) (Addr6 a z') =
     (b \<le> 128 \<and> z = [] \<and> z' = [] \<and> drop_bit (128 - b) a = drop_bit (128 - b) p)"
| "Contains _ _ = False"

fun IsSingleIP :: "prefix \<Rightarrow> bool" where
  "IsSingleIP PrefixZero = False"
| "IsSingleIP (Prefix a b) = (prefix_valid (Prefix a b) \<and> b = BitLen a)"

fun Masked :: "prefix \<Rightarrow> prefix" where
  "Masked (Prefix (Addr4 a) b) = Prefix (Addr4 (push_bit (32 - b) (drop_bit (32 - b) a))) b"
| "Masked (Prefix (Addr6 a z) b) = Prefix (Addr6 (push_bit (128 - b) (drop_bit (128 - b) a)) z) b"
| "Masked p = p"

lemma Contains_zone [simp]: "hasZone a \<Longrightarrow> \<not> Contains p a"
  by (cases p; cases a) (auto elim: Contains.elims)

lemma Contains_single: "IsSingleIP p \<Longrightarrow> Contains p a \<longleftrightarrow> a = prefix_addr p"
  by (cases p; cases a; cases "prefix_addr p") auto

section \<open>Textual addresses\<close>

text \<open>A decimal number with no sign and no leading zero.\<close>

definition parse_dec :: "string \<Rightarrow> int option" where
  "parse_dec s =
     (if s = [] \<or> \<not> list_all is_digit s \<or> (length s > 1 \<and> hd s = CHR ''0'') then None
      else Some (digits_val 0 s))"

definition parse_octet :: "string \<Rightarrow> int option" where
  "parse_octet s = (case parse_dec s of None \<Rightarrow> None | Some n \<Rightarrow> if n > 255 then None else Some n)"

definition parseIPv4Fields :: "string \<Rightarrow> 32 word option" where
  "parseIPv4Fields s =
     (case map parse_octet (split_on (CHR ''.'') s) of
        [Some a, Some b, Some c, Some d] \<Rightarrow> Some (word_of_int (((a * 256 + b) * 256 + c) * 256 + d))
      | _ \<Rightarrow> None)"

definition is_hex :: "char \<Rightarrow> bool" where
  "is_hex c \<longleftrightarrow> (let n = of_char c :: nat in 48 \<le> n \<and> n \<le> 57 \<or> 97 \<le> n \<and> n \<le> 102 \<or> 65 \<le> n \<and> n \<le> 70)"

definition hex_val :: "char \<Rightarrow> int" where
  "hex_val c = (let n = of_char c :: int in
     if 48 \<le> n \<and> n \<le> 57 then n - 48 else if 97 \<le> n \<and> n \<le> 102 then n - 87 else n - 55)"

fun hexs_val :: "int \<Rightarrow> string \<Rightarrow> int" where
  "hexs_val n [] = n"
| "hexs_val n (c # cs) = hexs_val (16 * n + hex_val c) cs"

text \<open>
  The loop of \<^verbatim>\<open>parseIPv6\<close>: \<open>gs\<close> are the 16-bit groups read so far, \<open>ell\<close> the position of
  the ellipsis among them.
\<close>

function parse_groups :: "string \<Rightarrow> int list \<Rightarrow> nat option \<Rightarrow> (int list \<times> nat option) option" where
  "parse_groups s gs ell =
     (if length gs \<ge> 8 then (if s = [] then Some (gs, ell) else None)
      else let d = takeWhile is_hex s; rest = dropWhile is_hex s in
        if d = [] \<or> length d > 4 then None
        else if rest \<noteq> [] \<and> hd rest = CHR ''.'' then
          (if ell = None \<and> length gs \<noteq> 6 \<or> length gs + 2 > 8 then None
           else case parseIPv4Fields s of
               None \<Rightarrow> None
             | Some v \<Rightarrow> Some (gs @ [uint (drop_bit 16 v), uint (v AND 0xffff)], ell))
        else let gs' = gs @ [hexs_val 0 d] in
          (case rest of
             [] \<Rightarrow> Some (gs', ell)
           | c # r \<Rightarrow>
               if c \<noteq> CHR '':'' \<or> r = [] then None
               else if hd r = CHR '':'' then
                 (if ell \<noteq> None then None
                  else if tl r = [] then Some (gs', Some (length gs'))
                  else parse_groups (tl r) gs' (Some (length gs')))
               else parse_groups r gs' ell))"
  by pat_completeness auto
termination
proof (relation "measure (\<lambda>(s, _, _). length s)", goal_cases)
  case 1
  show ?case by simp
next
  case (2 s gs ell d rest gs' c r)
  then have "length (c # r) \<le> length s" using length_dropWhile_le [of is_hex s] by simp
  then show ?case by (cases r) auto
next
  case (3 s gs ell d rest gs' c r)
  then have "length (c # r) \<le> length s" using length_dropWhile_le [of is_hex s] by simp
  then show ?case by simp
qed

declare parse_groups.simps [simp del]

fun groups_word :: "int list \<Rightarrow> 128 word" where
  "groups_word gs = word_of_int (foldl (\<lambda>n g. n * 65536 + g) 0 gs)"

definition parseIPv6 :: "string \<Rightarrow> addr option" where
  "parseIPv6 inp =
     (let s = takeWhile (\<lambda>c. c \<noteq> CHR ''%'') inp; z = drop (length s) inp; zone = tl z in
      if z \<noteq> [] \<and> zone = [] then None
      else let lead = has_prefix s ''::''; s1 = (if lead then drop 2 s else s) in
        if lead \<and> s1 = [] then Some (Addr6 0 zone)
        else case parse_groups s1 [] (if lead then Some 0 else None) of
            None \<Rightarrow> None
          | Some (gs, ell) \<Rightarrow>
              if length gs < 8 then
                (case ell of
                   None \<Rightarrow> None
                 | Some e \<Rightarrow> Some (Addr6 (groups_word (take e gs @ replicate (8 - length gs) 0 @ drop e gs)) zone))
              else if ell \<noteq> None then None
              else Some (Addr6 (groups_word gs) zone))"

definition ParseAddr :: "string \<Rightarrow> addr option" where
  "ParseAddr s =
     (case dropWhile (\<lambda>c. c \<noteq> CHR ''.'' \<and> c \<noteq> CHR '':'' \<and> c \<noteq> CHR ''%'') s of
        [] \<Rightarrow> None
      | c # _ \<Rightarrow>
          if c = CHR ''.'' then map_option Addr4 (parseIPv4Fields s)
          else if c = CHR '':'' then parseIPv6 s
          else None)"

text \<open>\<^verbatim>\<open>strings.LastIndexByte\<close>.\<close>

fun last_index :: "char \<Rightarrow> string \<Rightarrow> nat option" where
  "last_index c [] = None"
| "last_index c (x # xs) =
     (case last_index c xs of Some i \<Rightarrow> Some (Suc i) | None \<Rightarrow> if x = c then Some 0 else None)"

definition ParsePrefix :: "string \<Rightarrow> prefix option" where
  "ParsePrefix s =
     (case last_index (CHR ''/'') s of
        None \<Rightarrow> None
      | Some i \<Rightarrow>
          (case ParseAddr (take i s) of
             None \<Rightarrow> None
           | Some ip \<Rightarrow>
               if hasZone ip then None
               else case parse_dec (drop (Suc i) s) of
                   None \<Rightarrow> None
                 | Some bits \<Rightarrow> if bits > int (BitLen ip) then None else Some (PrefixFrom ip (nat bits))))"

lemma parseIPv6_valid: "parseIPv6 s = Some a \<Longrightarrow> Is6 a"
  by (auto simp: parseIPv6_def Let_def split: if_splits option.splits)

lemma ParseAddr_valid: "ParseAddr s = Some a \<Longrightarrow> IsValid a"
  by (auto simp: ParseAddr_def split: list.splits if_splits dest!: parseIPv6_valid elim: Is6.elims)

lemma ParsePrefix_valid: "ParsePrefix s = Some p \<Longrightarrow> prefix_valid p"
proof -
  have *: "IsValid (without_zone a) \<longleftrightarrow> IsValid a" "\<not> hasZone (without_zone a)"
    "BitLen (without_zone a) = BitLen a" for a by (cases a; simp)+
  show "ParsePrefix s = Some p \<Longrightarrow> prefix_valid p"
    by (auto simp: ParsePrefix_def PrefixFrom_def * split: option.splits if_splits dest: ParseAddr_valid)
qed

text \<open>\<^verbatim>\<open>net.SplitHostPort\<close>.\<close>

definition SplitHostPort :: "string \<Rightarrow> (string \<times> string) option" where
  "SplitHostPort hp =
     (case last_index (CHR '':'') hp of
        None \<Rightarrow> None
      | Some i \<Rightarrow>
          (let ok = (\<lambda>host j k.
             if CHR ''['' \<in> set (drop j hp) \<or> CHR '']'' \<in> set (drop k hp) then None
             else Some (host, drop (Suc i) hp)) in
           if hd hp = CHR ''['' then
             (let e = length (takeWhile (\<lambda>c. c \<noteq> CHR '']'') hp) in
              if e + 1 \<noteq> i then None else ok (drop 1 (take e hp)) 1 (e + 1))
           else if CHR '':'' \<in> set (take i hp) then None
           else ok (take i hp) 0 0))"

end
