(* ===== verification/Guard.thy ===== *)
theory Guard
  imports Netip
begin

text \<open>
  The egress guard (\<^verbatim>\<open>pkg/gateway/guard.go\<close>): address classes, host patterns, a sandbox's egress
  policy and the dialer that vets every resolved address before it connects.
\<close>

section \<open>Address classes\<close>

datatype dest_class = classPublic | classSoftDeny | classHardDeny

definition nat64Prefix :: prefix where
  "nat64Prefix = Prefix (Addr6 0x64ff9b000000000000000000000000 []) 96"

definition cgnatPrefix :: prefix where
  "cgnatPrefix = Prefix (Addr4 0x64400000) 10"

definition canonical :: "addr \<Rightarrow> addr" where
  "canonical a0 =
     (let a = Unmap a0 in
      case a of
        Addr6 w z \<Rightarrow> if Contains nat64Prefix a then Addr4 (ucast w) else a
      | _ \<Rightarrow> a)"

definition classify :: "addr \<Rightarrow> prefix list \<Rightarrow> dest_class" where
  "classify a0 extraHardDeny =
     (let a = canonical a0 in
      if \<not> IsValid a \<or> IsUnspecified a \<or> IsLoopback a \<or> IsLinkLocalUnicast a \<or>
         IsLinkLocalMulticast a \<or> IsMulticast a \<or> IsInterfaceLocalMulticast a
      then classHardDeny
      else if list_ex (\<lambda>p. Contains p a) extraHardDeny then classHardDeny
      else if IsPrivate a \<or> Contains cgnatPrefix a then classSoftDeny
      else classPublic)"

section \<open>Host patterns\<close>

datatype posture = PostureDeny | PosturePublic

record host_pattern =
  hp_exact :: string
  hp_suffix :: string

datatype pattern_error = EmptyPattern | BadWildcard string | UnsupportedWildcard string

definition ParseHostPattern :: "string \<Rightarrow> pattern_error + host_pattern" where
  "ParseHostPattern s0 =
     (let s = to_lower (trim_space (trim_suffix s0 ''.'')) in
      if s = [] then Inl EmptyPattern
      else case cut_prefix s ''*.'' of
          Some rest \<Rightarrow>
            if rest = [] \<or> contains rest ''*'' then Inl (BadWildcard s)
            else Inr \<lparr>hp_exact = [], hp_suffix = CHR ''.'' # rest\<rparr>
        | None \<Rightarrow>
            if contains s ''*'' then Inl (UnsupportedWildcard s)
            else Inr \<lparr>hp_exact = s, hp_suffix = []\<rparr>)"

definition Match :: "host_pattern \<Rightarrow> string \<Rightarrow> bool" where
  "Match h host0 =
     (let host = to_lower (trim_suffix host0 ''.'') in
      if hp_exact h \<noteq> [] then host = hp_exact h
      else length host > length (hp_suffix h) \<and> has_suffix host (hp_suffix h))"

definition hp_String :: "host_pattern \<Rightarrow> string" where
  "hp_String h = (if hp_exact h \<noteq> [] then hp_exact h else CHR ''*'' # hp_suffix h)"

definition Covers :: "host_pattern \<Rightarrow> host_pattern \<Rightarrow> bool" where
  "Covers h p =
     (if hp_exact p \<noteq> [] then Match h (hp_exact p)
      else hp_suffix h \<noteq> [] \<and> has_suffix (hp_suffix p) (hp_suffix h))"

section \<open>Egress policy\<close>

type_synonym addr_port = "addr \<times> u16"

record egress_policy =
  Default :: posture
  Siblings :: posture
  SiblingSubnet :: prefix
  AllowCIDRs :: "prefix list"
  AllowHosts :: "host_pattern list"
  ExtraHardDeny :: "prefix list"
  HostServices :: "addr_port list"

text \<open>The zero \<^verbatim>\<open>EgressPolicy\<close>.\<close>

definition zero_policy :: egress_policy where
  "zero_policy = \<lparr>Default = PostureDeny, Siblings = PostureDeny, SiblingSubnet = PrefixZero,
     AllowCIDRs = [], AllowHosts = [], ExtraHardDeny = [], HostServices = []\<rparr>"

definition AllowAllEgress :: egress_policy where
  "AllowAllEgress = zero_policy\<lparr>Default := PosturePublic\<rparr>"

datatype deny_reason = HardDenied | SiblingDenied | RebindingDenied | PrivateDenied | NotAllowListed
datatype allow_reason = AllowSiblings | AllowCIDR | AllowHost | AllowPublic
datatype verdict = Allow allow_reason | Deny deny_reason

fun allows :: "verdict \<Rightarrow> bool" where
  "allows (Allow _) = True"
| "allows (Deny _) = False"

definition hostAllowed :: "egress_policy \<Rightarrow> string \<Rightarrow> bool" where
  "hostAllowed p host = list_ex (\<lambda>hp. Match hp host) (AllowHosts p)"

definition cidrsContain :: "prefix list \<Rightarrow> addr \<Rightarrow> bool" where
  "cidrsContain cidrs a = list_ex (\<lambda>c. Contains c (canonical a)) cidrs"

definition check :: "egress_policy \<Rightarrow> string \<Rightarrow> addr \<Rightarrow> prefix list \<Rightarrow> verdict" where
  "check p host ip extraHardDeny =
     (let c = classify ip extraHardDeny in
      if c = classHardDeny then Deny HardDenied
      else if prefix_valid (SiblingSubnet p) \<and> Contains (SiblingSubnet p) (canonical ip) then
        (if Siblings p = PosturePublic then Allow AllowSiblings else Deny SiblingDenied)
      else if cidrsContain (AllowCIDRs p) ip then Allow AllowCIDR
      else if host \<noteq> [] \<and> hostAllowed p host then
        (if c = classSoftDeny then Deny RebindingDenied else Allow AllowHost)
      else if c = classSoftDeny then Deny PrivateDenied
      else if Default p = PosturePublic then Allow AllowPublic
      else Deny NotAllowListed)"

definition Check :: "egress_policy \<Rightarrow> string \<Rightarrow> addr \<Rightarrow> verdict" where
  "Check p host ip = check p host ip (ExtraHardDeny p)"

definition withoutAddr :: "prefix list \<Rightarrow> addr \<Rightarrow> prefix list" where
  "withoutAddr prefixes a =
     filter (\<lambda>p. \<not> (IsSingleIP p \<and> canonical (prefix_addr p) = a)) prefixes"

definition CheckTCP :: "egress_policy \<Rightarrow> string \<Rightarrow> addr_port \<Rightarrow> verdict" where
  "CheckTCP p host dst =
     (let a = canonical (fst dst) in
      if list_ex (\<lambda>s. snd s = snd dst \<and> canonical (fst s) = a) (HostServices p)
      then check p host a (withoutAddr (ExtraHardDeny p) a)
      else check p host (fst dst) (ExtraHardDeny p))"

definition AllowsName :: "egress_policy \<Rightarrow> string \<Rightarrow> bool" where
  "AllowsName p host \<longleftrightarrow> Default p = PosturePublic \<or> hostAllowed p host"

section \<open>The vetting dialer\<close>

definition vet :: "egress_policy \<Rightarrow> string \<Rightarrow> string \<Rightarrow> addr \<Rightarrow> u16 \<Rightarrow> verdict" where
  "vet p network host ip port =
     (if has_prefix network ''tcp'' then CheckTCP p host (ip, port) else Check p host ip)"

datatype 'e dial_error =
    BadAddress string
  | ResolveFailed string 'e
  | BadPort string
  | Denied string "deny_reason option"  \<comment> \<open>\<^verbatim>\<open>None\<close>: no addresses resolved\<close>
  | DialFailed 'e

definition addrForErr :: "string \<Rightarrow> string \<Rightarrow> string" where
  "addrForErr host a = (if host \<noteq> [] then host else a)"

text \<open>The loop that splits the resolved addresses into the vetted ones and the denials reported to \<^verbatim>\<open>OnDeny\<close>.\<close>

fun vet_all :: "(addr \<Rightarrow> verdict) \<Rightarrow> addr list \<Rightarrow> addr list \<times> (addr \<times> deny_reason) list" where
  "vet_all v [] = ([], [])"
| "vet_all v (ip # ips) =
     (case vet_all v ips of (ok, bad) \<Rightarrow>
        (case v ip of Allow _ \<Rightarrow> (ip # ok, bad) | Deny r \<Rightarrow> (ok, (ip, r) # bad)))"

text \<open>Trying the vetted addresses in order; the second component is the addresses that were dialled.\<close>

fun try_dials :: "(addr \<Rightarrow> 'e + 'conn) \<Rightarrow> addr list \<Rightarrow> 'e option \<Rightarrow> ('e option + 'conn) \<times> addr list" where
  "try_dials dial [] err = (Inl err, [])"
| "try_dials dial (ip # ips) err =
     (case dial ip of
        Inr conn \<Rightarrow> (Inr conn, [ip])
      | Inl e \<Rightarrow> (case try_dials dial ips (Some e) of (r, ds) \<Rightarrow> (r, ip # ds)))"

text \<open>
  \<open>resolve\<close> is the configured resolver, \<open>lookup_port\<close> is \<^verbatim>\<open>net.LookupPort\<close> (which consults the
  host's service database) and \<open>dial\<close> connects to an address. The result is paired with the
  addresses dialled.
\<close>

definition DialContext ::
  "(string \<Rightarrow> 'e + addr list) \<Rightarrow> (string \<Rightarrow> string \<Rightarrow> u16 option) \<Rightarrow> (addr \<Rightarrow> u16 \<Rightarrow> 'e + 'conn) \<Rightarrow>
   egress_policy \<Rightarrow> string \<Rightarrow> string \<Rightarrow> ('e dial_error + 'conn) \<times> addr list" where
  "DialContext resolve lookup_port dial p network addr =
     (case SplitHostPort addr of
        None \<Rightarrow> (Inl (BadAddress addr), [])
      | Some (host0, port) \<Rightarrow>
          (case (case ParseAddr host0 of
                   Some lit \<Rightarrow> Inr ([lit], [])
                 | None \<Rightarrow> (case resolve host0 of
                              Inl e \<Rightarrow> Inl (ResolveFailed host0 e)
                            | Inr ips \<Rightarrow> Inr (ips, host0))) of
             Inl e \<Rightarrow> (Inl e, [])
           | Inr (ips, host) \<Rightarrow>
               (case lookup_port network port of
                  None \<Rightarrow> (Inl (BadPort port), [])
                | Some portNum \<Rightarrow>
                    (case vet_all (\<lambda>ip. vet p network host ip portNum) ips of (vetted, bad) \<Rightarrow>
                       if vetted = [] then
                         (Inl (Denied (addrForErr host addr)
                            (if bad = [] then None else Some (snd (last bad)))), [])
                       else (case try_dials (\<lambda>ip. dial ip portNum) vetted None of
                           (Inr conn, ds) \<Rightarrow> (Inr conn, ds)
                         | (Inl (Some e), ds) \<Rightarrow> (Inl (DialFailed e), ds)
                         | (Inl None, ds) \<Rightarrow> (Inl (Denied addr None), ds) \<comment> \<open>unreachable: \<open>vetted\<close> is not empty\<close>)))))"

definition DialAs ::
  "(addr \<Rightarrow> u16 \<Rightarrow> 'e + 'conn) \<Rightarrow> (addr \<Rightarrow> string) \<Rightarrow> egress_policy \<Rightarrow> string \<Rightarrow> string \<Rightarrow> addr \<Rightarrow> u16 \<Rightarrow>
   ('e dial_error + 'conn) \<times> addr list" where
  "DialAs dial show_addr p network host ip port =
     (case vet p network host ip port of
        Deny r \<Rightarrow> (Inl (Denied (addrForErr host (show_addr ip)) (Some r)), [])
      | Allow _ \<Rightarrow> (case dial ip port of
            Inl e \<Rightarrow> (Inl (DialFailed e), [ip])
          | Inr conn \<Rightarrow> (Inr conn, [ip])))"

section \<open>Lemmas on addresses\<close>

text \<open>The three spellings of an IPv4 address: plain, IPv4-mapped (any zone), NAT64.\<close>

definition mapped4 :: "32 word \<Rightarrow> string \<Rightarrow> addr" where
  "mapped4 v z = Addr6 (0xffff00000000 OR ucast v) z"

definition nat64_4 :: "32 word \<Rightarrow> addr" where
  "nat64_4 v = Addr6 (0x64ff9b000000000000000000000000 OR ucast v) []"

lemma drop_bit_ucast32 [simp]: "32 \<le> n \<Longrightarrow> drop_bit n (ucast (v :: 32 word) :: 128 word) = 0"
  by (rule bit_word_eqI) (auto simp: bit_simps dest: bit_imp_le_length)

lemma ucast_ucast32 [simp]: "(ucast (ucast (v :: 32 word) :: 128 word) :: 32 word) = v"
  by (rule bit_word_eqI) (auto simp: bit_simps)

lemma ucast_high [simp]:
  "(ucast (0xffff00000000 OR ucast v :: 128 word) :: 32 word) = v"
  "(ucast (0x64ff9b000000000000000000000000 OR ucast v :: 128 word) :: 32 word) = v"
proof -
  have z: "(ucast (0xffff00000000 :: 128 word) :: 32 word) = 0"
    "(ucast (0x64ff9b000000000000000000000000 :: 128 word) :: 32 word) = 0" by simp_all
  show "(ucast (0xffff00000000 OR ucast v :: 128 word) :: 32 word) = v"
    "(ucast (0x64ff9b000000000000000000000000 OR ucast v :: 128 word) :: 32 word) = v"
    by (simp_all only: unsigned_or_eq z ucast_ucast32 or.left_neutral)
qed

lemma canonical_spellings [simp]:
  "canonical (Addr4 v) = Addr4 v" "canonical (mapped4 v z) = Addr4 v" "canonical (nat64_4 v) = Addr4 v"
  by (simp_all add: canonical_def mapped4_def nat64_4_def nat64Prefix_def drop_bit_or)

lemma canonical_idem [simp]: "canonical (canonical a) = canonical a"
proof (cases "Unmap a")
  case (Addr6 w z)
  then have "Unmap (Addr6 w z) = Addr6 w z" by (metis Unmap_idem)
  with Addr6 show ?thesis by (auto simp: canonical_def Let_def)
qed (auto simp: canonical_def Let_def)

lemma classify_canonical [simp]: "classify (canonical a) e = classify a e"
  by (simp add: classify_def)

lemma check_canonical [simp]: "check p host (canonical a) e = check p host a e"
  by (simp only: check_def cidrsContain_def classify_canonical canonical_idem)

section \<open>Lemmas on host patterns\<close>

text \<open>What \<^verbatim>\<open>ParseHostPattern\<close> returns: an exact name or a dotted suffix, in lower case.\<close>

definition hp_wf :: "host_pattern \<Rightarrow> bool" where
  "hp_wf h \<longleftrightarrow> to_lower (hp_exact h) = hp_exact h \<and> to_lower (hp_suffix h) = hp_suffix h \<and>
     (hp_exact h = [] \<longleftrightarrow> hp_suffix h \<noteq> []) \<and>
     (hp_suffix h \<noteq> [] \<longrightarrow> hd (hp_suffix h) = CHR ''.'' \<and> 2 \<le> length (hp_suffix h))"

lemma to_lower_dot [simp]: "to_lower (CHR ''.'' # s) = CHR ''.'' # to_lower s"
  by (simp add: to_lower_def lower_char_def)

lemma to_lower_drop: "to_lower (drop n s) = drop n (to_lower s)"
  by (simp add: to_lower_def drop_map)

lemma ParseHostPattern_wf: "ParseHostPattern s = Inr h \<Longrightarrow> hp_wf h"
proof -
  have *: "s' = drop n (to_lower t) \<Longrightarrow> to_lower s' = s'" for n and s' t :: string
    by (simp add: to_lower_drop)
  assume "ParseHostPattern s = Inr h"
  then show "hp_wf h"
    unfolding ParseHostPattern_def Let_def cut_prefix_def
    by (auto simp: hp_wf_def to_lower_def [of "[]"] to_lower_drop Suc_le_eq
        split: if_splits option.splits)
qed

lemma trim_dot_end [simp]: "trim_suffix (s @ ''.'') ''.'' = s"
  by (rule trim_suffix_append)

lemma Match_exact: "hp_exact h \<noteq> [] \<Longrightarrow> Match h host \<longleftrightarrow> to_lower (trim_suffix host ''.'') = hp_exact h"
  by (simp add: Match_def)

lemma Match_cong:
  "to_lower (trim_suffix a ''.'') = to_lower (trim_suffix b ''.'') \<Longrightarrow> Match h a = Match h b"
  by (simp only: Match_def)

lemma Match_wild:
  "hp_exact h = [] \<Longrightarrow> Match h host \<longleftrightarrow>
     (\<exists>l. l \<noteq> [] \<and> to_lower (trim_suffix host ''.'') = l @ hp_suffix h)"
  by (auto simp: Match_def Let_def has_suffix_iff simp del: length_to_lower)

lemma Match_dot [simp]: "Match h (s @ ''.'') \<longleftrightarrow>
   (if hp_exact h \<noteq> [] then to_lower s = hp_exact h
    else length s > length (hp_suffix h) \<and> has_suffix (to_lower s) (hp_suffix h))"
  by (simp add: Match_def)

section \<open>Properties\<close>

text \<open>
  The guard cannot be bypassed by another spelling of an IPv4 destination. The plain address,
  its IPv4-mapped IPv6 form (with any zone) and its NAT64 form get the same verdict from every
  policy, for every host name and every TCP port.
\<close>

theorem verdict_spelling_independent:
  "Check p host (mapped4 v z) = Check p host (Addr4 v) \<and>
   Check p host (nat64_4 v) = Check p host (Addr4 v) \<and>
   CheckTCP p host (mapped4 v z, port) = CheckTCP p host (Addr4 v, port) \<and>
   CheckTCP p host (nat64_4 v, port) = CheckTCP p host (Addr4 v, port)"
proof -
  have c: "check p host (mapped4 v z) e = check p host (Addr4 v) e"
    "check p host (nat64_4 v) e = check p host (Addr4 v) e" for e
    using check_canonical [of p host "mapped4 v z" e] check_canonical [of p host "nat64_4 v" e]
    by (simp_all only: canonical_spellings)
  show ?thesis
    by (simp only: Check_def CheckTCP_def c fst_conv snd_conv canonical_spellings)
qed




text \<open>
  Opening the daemon's own listeners to guests opens nothing else. If a TCP check allows what
  the address check denies, the destination's address and port are those of a host service, and
  every range that hard-denies the address is that single address.
\<close>

theorem host_service_lifts_only_itself:
  assumes "allows (CheckTCP p host (ip, port))" and "\<not> allows (Check p host ip)"
  shows "(\<exists>s \<in> set (HostServices p). snd s = port \<and> canonical (fst s) = canonical ip) \<and>
     (\<forall>r \<in> set (ExtraHardDeny p). Contains r (canonical ip) \<longrightarrow> IsSingleIP r)"
proof -
  have svc: "\<exists>s \<in> set (HostServices p). snd s = port \<and> canonical (fst s) = canonical ip"
    using assms by (auto simp: CheckTCP_def Check_def Let_def list_ex_iff split: if_splits)
  with assms have "allows (check p host ip (withoutAddr (ExtraHardDeny p) (canonical ip)))"
    by (auto simp: CheckTCP_def Check_def Let_def list_ex_iff split: if_splits)
  then have "classify ip (withoutAddr (ExtraHardDeny p) (canonical ip)) \<noteq> classHardDeny"
    by (auto simp: check_def split: if_splits)
  then have "\<not> Contains r (canonical ip)"
    if "r \<in> set (ExtraHardDeny p)" "\<not> (IsSingleIP r \<and> canonical (prefix_addr r) = canonical ip)" for r
    using that by (auto simp: classify_def Let_def list_ex_iff withoutAddr_def split: if_splits)
  with svc show ?thesis by blast
qed

definition published_service :: egress_policy where
  "published_service = AllowAllEgress\<lparr>ExtraHardDeny := [Prefix (Addr4 0xcb007107) 32],
     HostServices := [(Addr4 0xcb007107, 443)]\<rparr>"

lemma host_service_lifts_only_itself_witness:
  "\<exists>s \<in> set (HostServices published_service). snd s = 443 \<and> canonical (fst s) = canonical (Addr4 0xcb007107)"
proof (rule conjunct1 [OF host_service_lifts_only_itself [where host = "[]"]])
  show "allows (CheckTCP published_service [] (Addr4 0xcb007107, 443))" by code_simp
  show "\<not> allows (Check published_service [] (Addr4 0xcb007107))" by code_simp
qed

lemma Covers_match_iff:
  assumes "hp_wf h" and "hp_wf p" and "\<not> has_suffix (hp_exact p) ''.''"
  shows "Covers h p \<longleftrightarrow> (\<forall>host. Match p host \<longrightarrow> Match h host)"
proof -
  note wf = assms(1,2)
  show ?thesis
  proof (cases "hp_exact p = []")
    case False
    have norm: "to_lower (trim_suffix (hp_exact p) ''.'') = hp_exact p"
      using assms(3) wf(2) by (simp add: trim_suffix_def hp_wf_def)
    have "Match h host = Match h (hp_exact p)" if "Match p host" for host
    proof (rule Match_cong)
      from that False have "to_lower (trim_suffix host ''.'') = hp_exact p" by (blast dest: Match_exact)
      then show "to_lower (trim_suffix host ''.'') = to_lower (trim_suffix (hp_exact p) ''.'')"
        using norm by (rule trans [OF _ sym])
    qed
    moreover have "Match p (hp_exact p)" using Match_exact [OF False] norm by blast
    moreover have "Covers h p = Match h (hp_exact p)" using False by (simp add: Covers_def)
    ultimately show ?thesis by blast
  next
    case True
    have ex: "Match p (x # hp_suffix p @ ''.'')" if "lower_char x = x" for x
      using True wf that Match_dot [of p "x # hp_suffix p"]
      by (auto simp: hp_wf_def to_lower_def has_suffix_iff intro: exI [of _ "[x]"])
    show ?thesis
    proof
      assume "Covers h p"
      with True have h: "hp_suffix h \<noteq> []" "hp_exact h = []" "has_suffix (hp_suffix p) (hp_suffix h)"
        using wf by (auto simp: Covers_def hp_wf_def)
      then show "\<forall>host. Match p host \<longrightarrow> Match h host"
        using True by (auto simp: Match_wild has_suffix_iff)
    next
      assume r: "\<forall>host. Match p host \<longrightarrow> Match h host"
      have m: "Match h (CHR ''a'' # hp_suffix p @ ''.'')" "Match h (CHR ''b'' # hp_suffix p @ ''.'')"
        using r ex [of "CHR ''a''"] ex [of "CHR ''b''"] by (simp_all add: lower_char_def)
      have "hp_exact h = []"
        using m Match_dot [of h "CHR ''a'' # hp_suffix p"] Match_dot [of h "CHR ''b'' # hp_suffix p"]
        by (cases "hp_exact h") (auto simp: to_lower_def lower_char_def split: if_splits)
      with m(1) wf True Match_dot [of h "CHR ''a'' # hp_suffix p"]
      show "Covers h p"
        by (auto simp: Covers_def hp_wf_def has_suffix_def to_lower_def lower_char_def Suc_diff_le
            less_Suc_eq_le)
    qed
  qed
qed

lemma ParseHostPattern_Inr:
  assumes "ParseHostPattern s = Inr p"
  shows "tidy (hp_String p)" and "to_lower (hp_String p) = hp_String p"
    and "hp_exact p \<noteq> [] \<Longrightarrow> CHR ''*'' \<notin> set (hp_exact p)"
    and "hp_exact p = [] \<Longrightarrow> \<exists>rest. hp_suffix p = CHR ''.'' # rest \<and> rest \<noteq> [] \<and> CHR ''*'' \<notin> set rest"
proof -
  let ?s = "to_lower (trim_space (trim_suffix s ''.''))"
  from assms have s: "hp_String p = ?s" "?s \<noteq> []"
    by (auto simp: ParseHostPattern_def hp_String_def Let_def cut_prefix_def has_prefix_iff split: if_splits)
  then show "tidy (hp_String p)" "to_lower (hp_String p) = hp_String p"
    using trim_space_end [of "trim_suffix s ''.''"] trim_space_start [of "trim_suffix s ''.''"]
    by (auto simp: tidy_def to_lower_def hd_map last_map)
  show "hp_exact p \<noteq> [] \<Longrightarrow> CHR ''*'' \<notin> set (hp_exact p)"
    "hp_exact p = [] \<Longrightarrow> \<exists>rest. hp_suffix p = CHR ''.'' # rest \<and> rest \<noteq> [] \<and> CHR ''*'' \<notin> set rest"
    using assms
    by (auto simp: ParseHostPattern_def Let_def cut_prefix_def contains1 split: if_splits)
qed

lemma reparse_wild:
  assumes "ParseHostPattern s = Inr p" and "hp_exact p = []" and "\<not> has_suffix (hp_suffix p) ''.''"
  shows "ParseHostPattern (hp_String p) = Inr p"
proof -
  note p = ParseHostPattern_Inr [OF assms(1)]
  from p(4) [OF assms(2)] obtain rest where r: "hp_suffix p = CHR ''.'' # rest" "rest \<noteq> []" "CHR ''*'' \<notin> set rest"
    by blast
  have str: "hp_String p = CHR ''*'' # CHR ''.'' # rest" using assms(2) r by (simp add: hp_String_def)
  then have "trim_suffix (hp_String p) ''.'' = hp_String p"
    using assms(3) r(1,2) by (cases rest rule: rev_cases) (auto simp: trim_suffix_def has_suffix_iff)
  then have "to_lower (trim_space (trim_suffix (hp_String p) ''.'')) = hp_String p"
    using p(1,2) by (simp add: trim_space_id)
  then show ?thesis
    using r assms(2) unfolding ParseHostPattern_def
    by (simp add: str cut_prefix_def has_prefix_def contains1)
qed

lemma reparse_exact:
  assumes "ParseHostPattern s = Inr h" and "ParseHostPattern t = Inr p" and "hp_exact p \<noteq> []"
    and "Match h (hp_exact p)" and "ParseHostPattern (hp_String p) = Inr q" and "Match q host"
  shows "Match h host"
proof -
  note h = ParseHostPattern_Inr [OF assms(1)] and p = ParseHostPattern_Inr [OF assms(2)]
  let ?e = "trim_suffix (hp_exact p) ''.''"
  have str: "hp_String p = hp_exact p" using assms(3) by (simp add: hp_String_def)
  have low: "to_lower ?e = ?e" using p(2) unfolding str by (auto simp: trim_suffix_def to_lower_def take_map [symmetric])
  have nostar: "CHR ''*'' \<notin> set ?e" using p(3) [OF assms(3)] by (auto simp: trim_suffix_def dest: in_set_takeD)
  have "?e \<noteq> []" using assms(5) by (auto simp: str ParseHostPattern_def Let_def trim_space_def to_lower_def)
  moreover have "\<not> is_space (hd ?e)"
    using p(1) calculation unfolding str by (auto simp: trim_suffix_def tidy_def)
  moreover have "\<not> is_space (last ?e)"
  proof (cases "hp_exact h = []")
    case True
    then obtain l where "?e = l @ hp_suffix h" using assms(4) low by (auto simp: Match_wild)
    moreover have "\<not> is_space (last (hp_suffix h))" "hp_suffix h \<noteq> []"
      using h(1) h(4) [OF True] True by (auto simp: tidy_def hp_String_def split: if_splits)
    ultimately show ?thesis by simp
  next
    case False
    then show ?thesis using assms(4) low h(1) by (simp add: Match_def tidy_def hp_String_def)
  qed
  ultimately have "tidy ?e" by (simp add: tidy_def)
  then have "q = \<lparr>hp_exact = ?e, hp_suffix = []\<rparr>"
    using assms(5) low nostar
    by (auto simp: str ParseHostPattern_def Let_def trim_space_id cut_prefix_def has_prefix_iff contains1 split: if_splits)
  then have "to_lower (trim_suffix host ''.'') = to_lower ?e"
    using assms(6) \<open>?e \<noteq> []\<close> low by (simp add: Match_def)
  from Match_cong [OF this] assms(4) show ?thesis by simp
qed

text \<open>What the broker reads back from a grant accepted under an allow rule lies within that rule.\<close>

lemma granted_within_rule:
  assumes "ParseHostPattern s = Inr h" and "ParseHostPattern t = Inr p" and "Covers h p"
    and "\<not> has_suffix (hp_suffix h) ''.''" and "ParseHostPattern (hp_String p) = Inr q" and "Match q host"
  shows "Match h host"
proof (cases "hp_exact p = []")
  case False
  with assms(3) have "Match h (hp_exact p)" by (simp add: Covers_def)
  with assms False show ?thesis by (blast intro: reparse_exact)
next
  case True
  with assms(3) have suf: "hp_suffix h \<noteq> []" "has_suffix (hp_suffix p) (hp_suffix h)" by (simp_all add: Covers_def)
  then obtain a where a: "hp_suffix p = a @ hp_suffix h" by (auto simp: has_suffix_iff)
  have "\<not> has_suffix (hp_suffix p) ''.''"
  proof
    assume "has_suffix (hp_suffix p) ''.''"
    then obtain b where "a @ hp_suffix h = b @ ''.''" using a by (auto simp: has_suffix_iff)
    then have "has_suffix (hp_suffix h) ''.''" using suf(1)
      by (cases "hp_suffix h" rule: rev_cases) (auto simp: has_suffix_iff)
    with assms(4) show False ..
  qed
  then have "q = p" using reparse_wild [OF assms(2) True] assms(5) by simp
  moreover have "hp_exact p = [] \<longrightarrow> \<not> has_suffix (hp_exact p) ''.''" by (simp add: has_suffix_def)
  ultimately show ?thesis
    using Covers_match_iff [of h p] ParseHostPattern_wf [OF assms(1)] ParseHostPattern_wf [OF assms(2)] assms(3,6) True
    by blast
qed

text \<open>
  Pattern containment is exact. For parsed patterns (whose exact name has no trailing dot)
  \<open>Covers h p\<close> holds if and only if every host \<open>p\<close> matches is matched by \<open>h\<close>: a secret
  grant accepted under an allow rule names only hosts that rule admits, and no other is refused.
\<close>

theorem Covers_iff_Match_subset:
  assumes "ParseHostPattern s = Inr h" and "ParseHostPattern t = Inr p"
    and "\<not> has_suffix (hp_exact p) ''.''"
  shows "Covers h p \<longleftrightarrow> (\<forall>host. Match p host \<longrightarrow> Match h host)"
  using assms by (intro Covers_match_iff ParseHostPattern_wf)

lemma Covers_iff_Match_subset_witness:
  "Covers \<lparr>hp_exact = [], hp_suffix = ''.github.com''\<rparr> \<lparr>hp_exact = ''api.github.com'', hp_suffix = []\<rparr> \<longleftrightarrow>
   (\<forall>host. Match \<lparr>hp_exact = ''api.github.com'', hp_suffix = []\<rparr> host \<longrightarrow>
      Match \<lparr>hp_exact = [], hp_suffix = ''.github.com''\<rparr> host)"
proof (rule Covers_iff_Match_subset)
  show "ParseHostPattern ''*.GitHub.com'' = Inr \<lparr>hp_exact = [], hp_suffix = ''.github.com''\<rparr>"
    by code_simp
  show "ParseHostPattern ''api.github.com.'' = Inr \<lparr>hp_exact = ''api.github.com'', hp_suffix = []\<rparr>"
    by code_simp
  show "\<not> has_suffix (hp_exact \<lparr>hp_exact = ''api.github.com'', hp_suffix = []\<rparr>) ''.''"
    by code_simp
qed

lemma vet_all_filter: "fst (vet_all v ips) = filter (\<lambda>ip. allows (v ip)) ips"
  by (induction ips) (auto split: prod.splits verdict.splits)

lemma try_dials_subset: "set (snd (try_dials dial ips err)) \<subseteq> set ips"
  by (induction dial ips err rule: try_dials.induct) (auto split: sum.splits prod.splits)

lemma try_dials_conn:
  "try_dials dial ips err = (Inr conn, ds) \<Longrightarrow> ds \<noteq> [] \<and> dial (last ds) = Inr conn"
  by (induction ips arbitrary: err ds) (auto split: sum.splits prod.splits)

text \<open>
  C8: the dialer closes the resolve-then-connect race. Every address it ever dials is one of the
  addresses the name resolved to (or the literal in the request) and was itself allowed by the
  policy for this name and port; a connection is returned only from such an address, and when no
  address is allowed nothing is dialled and the caller gets a denial.
\<close>

theorem DialContext_only_vetted:
  assumes "SplitHostPort addr = Some (host0, portname)"
    and "(case ParseAddr host0 of Some lit \<Rightarrow> Inr ([lit], [])
          | None \<Rightarrow> map_sum (ResolveFailed host0) (\<lambda>ips. (ips, host0)) (resolve host0)) = Inr (ips, host)"
    and "lookup_port network portname = Some port"
    and "DialContext resolve lookup_port dial p network addr = (res, dialled)"
  shows "(\<forall>ip \<in> set dialled. ip \<in> set ips \<and> allows (vet p network host ip port)) \<and>
    (\<forall>conn. res = Inr conn \<longrightarrow> dialled \<noteq> [] \<and> dial (last dialled) port = Inr conn) \<and>
    ((\<forall>ip \<in> set ips. \<not> allows (vet p network host ip port)) \<longrightarrow>
       dialled = [] \<and> (\<exists>h r. res = Inl (Denied h r)))"
proof -
  let ?v = "\<lambda>ip. vet p network host ip port"
  have rs: "(case ParseAddr host0 of Some lit \<Rightarrow> Inr ([lit], [])
      | None \<Rightarrow> (case resolve host0 of Inl e \<Rightarrow> Inl (ResolveFailed host0 e) | Inr ips \<Rightarrow> Inr (ips, host0)))
    = Inr (ips, host)"
    using assms(2) by (cases "ParseAddr host0"; cases "resolve host0") auto
  obtain vetted bad where va: "vet_all ?v ips = (vetted, bad)" by fastforce
  then have vetted: "vetted = filter (\<lambda>ip. allows (?v ip)) ips" using vet_all_filter [of ?v ips] by simp
  show ?thesis
  proof (cases "vetted = []")
    case True
    with assms va rs show ?thesis by (auto simp: DialContext_def)
  next
    case False
    obtain r ds where td: "try_dials (\<lambda>ip. dial ip port) vetted None = (r, ds)" by fastforce
    have "set ds \<subseteq> set vetted" using try_dials_subset [of "\<lambda>ip. dial ip port" vetted None] td by simp
    moreover have "\<forall>conn. r = Inr conn \<longrightarrow> ds \<noteq> [] \<and> dial (last ds) port = Inr conn"
      using td try_dials_conn [of "\<lambda>ip. dial ip port"] by blast
    moreover have "dialled = ds" "\<forall>conn. res = Inr conn \<longleftrightarrow> r = Inr conn"
      using assms va rs td False
      by (auto simp: DialContext_def split: sum.splits option.splits)
    ultimately show ?thesis using vetted False by (auto simp: filter_empty_conv)
  qed
qed

definition example_dial :: "addr \<Rightarrow> u16 \<Rightarrow> unit + unit" where
  "example_dial ip port = (if ip = Addr4 0x01010101 then Inr () else Inl ())"

lemma DialContext_only_vetted_witness:
  "allows (vet AllowAllEgress ''tcp'' ''public.test'' (Addr4 0x01010101) 443) \<and>
   example_dial (last [Addr4 0x01010101]) 443 = Inr ()"
proof -
  let ?ips = "[Addr4 0x0a000009, Addr4 0x01010101]"
  let ?res = "(\<lambda>_. Inr ?ips) :: string \<Rightarrow> unit + addr list"
  have 1: "SplitHostPort ''public.test:443'' = Some (''public.test'', ''443'')" by code_simp
  have 2: "(case ParseAddr ''public.test'' of Some lit \<Rightarrow> Inr ([lit], [])
      | None \<Rightarrow> map_sum (ResolveFailed ''public.test'') (\<lambda>ips. (ips, ''public.test'')) (?res ''public.test''))
    = Inr (?ips, ''public.test'')" by code_simp
  have 3: "(\<lambda>_ _. Some 443) ''tcp'' ''443'' = Some (443 :: u16)" by simp
  have 4: "DialContext ?res (\<lambda>_ _. Some 443) example_dial AllowAllEgress ''tcp'' ''public.test:443''
      = (Inr (), [Addr4 0x01010101])" by code_simp
  show ?thesis using DialContext_only_vetted [OF 1 2 3 4] by simp
qed

end
