(* ===== verification/Control.thy ===== *)
theory Control
  imports Guard
begin

text \<open>
  The daemon-to-netd control channel (\<^verbatim>\<open>pkg/gateway/control.go\<close>): the wire form of a policy, its
  validation, and the server loop that applies one decoded message to a handler and acknowledges
  it. The handler is the Go interface \<^verbatim>\<open>ControlHandler\<close>; the locale \<open>control_handler\<close> states
  what the loop relies on, and netd's gateway interprets it.
\<close>

record net_policy_wire =
  w_Default :: string
  w_Siblings :: string
  w_AllowHosts :: "string list"
  w_AllowCIDRs :: "string list"

datatype wire_error =
    PostureRequired
  | UnknownPosture string
  | UnknownSiblings string
  | BadAllowHost string pattern_error
  | BadAllowCIDR string
  | SiblingsNeedNetwork
  | RulesNeedNetwork

definition PostureNone :: string where "PostureNone = ''none''"

definition NoNetwork :: "net_policy_wire option \<Rightarrow> bool" where
  "NoNetwork w = (case w of None \<Rightarrow> False | Some p \<Rightarrow> w_Default p = PostureNone)"

definition parse_allow_host :: "string \<Rightarrow> wire_error + host_pattern" where
  "parse_allow_host h = map_sum (BadAllowHost h) id (ParseHostPattern h)"

definition parse_allow_cidr :: "string \<Rightarrow> wire_error + prefix" where
  "parse_allow_cidr c = (case ParsePrefix c of None \<Rightarrow> Inl (BadAllowCIDR c) | Some p \<Rightarrow> Inr p)"

definition wire_posture :: "string \<Rightarrow> wire_error + posture" where
  "wire_posture d =
     (if d = [] then Inl PostureRequired
      else if d = ''public'' then Inr PosturePublic
      else if d = ''deny'' then Inr PostureDeny
      else Inl (UnknownPosture d))"

definition wire_siblings :: "string \<Rightarrow> wire_error + posture" where
  "wire_siblings s =
     (if s = [] \<or> s = ''deny'' then Inr PostureDeny
      else if s = ''allow'' then Inr PosturePublic
      else Inl (UnknownSiblings s))"

definition PolicyFromWire :: "net_policy_wire \<Rightarrow> wire_error + egress_policy" where
  "PolicyFromWire w =
     res_bind (wire_posture (w_Default w)) (\<lambda>d.
     res_bind (wire_siblings (w_Siblings w)) (\<lambda>s.
     res_bind (map_res parse_allow_host (w_AllowHosts w)) (\<lambda>hs.
     res_bind (map_res parse_allow_cidr (w_AllowCIDRs w)) (\<lambda>cs.
       Inr (zero_policy\<lparr>Default := d, Siblings := s, AllowHosts := hs, AllowCIDRs := cs\<rparr>)))))"

definition ValidateWire :: "net_policy_wire \<Rightarrow> wire_error option" where
  "ValidateWire w =
     (if w_Default w = PostureNone then
        (if w_Siblings w \<noteq> [] \<and> w_Siblings w \<noteq> ''deny'' then Some SiblingsNeedNetwork
         else if w_AllowHosts w \<noteq> [] \<or> w_AllowCIDRs w \<noteq> [] then Some RulesNeedNetwork
         else None)
      else case PolicyFromWire w of Inl e \<Rightarrow> Some e | Inr _ \<Rightarrow> None)"

section \<open>Control messages\<close>

definition EnforcementVersion :: nat where "EnforcementVersion = 1"
definition GuestHelloSize :: nat where "GuestHelloSize = 64"

record control_msg =
  m_Op :: string
  m_GuestIP :: string
  m_GuestMAC :: string
  m_GuestToken :: string
  m_Sandbox :: string
  m_Policy :: "net_policy_wire option"

datatype 'e control_error = UnknownOperation | HandlerError 'e

record 'e control_reply =
  r_Version :: nat
  r_Error :: "'e control_error option"

text \<open>The policy a \<^verbatim>\<open>set\<close> message registers: a missing or malformed one is the zero policy, which denies.\<close>

definition message_policy :: "net_policy_wire option \<Rightarrow> egress_policy" where
  "message_policy w =
     (case w of
        None \<Rightarrow> zero_policy
      | Some p \<Rightarrow> (case PolicyFromWire p of Inl _ \<Rightarrow> zero_policy | Inr pol \<Rightarrow> pol))"

text \<open>One iteration of \<^verbatim>\<open>serveControlConn\<close>'s loop, on a decoded message.\<close>

definition serve_control_msg ::
  "(string \<Rightarrow> string \<Rightarrow> egress_policy \<Rightarrow> string \<Rightarrow> string \<Rightarrow> 'h \<Rightarrow> 'e option \<times> 'h) \<Rightarrow>
   (string \<Rightarrow> 'h \<Rightarrow> 'h) \<Rightarrow> control_msg \<Rightarrow> 'h \<Rightarrow> 'e control_reply \<times> 'h" where
  "serve_control_msg SetSandbox DelSandbox m h =
     (let reply = \<lparr>r_Version = EnforcementVersion, r_Error = None\<rparr> in
      if m_Op m = ''hello'' then (reply, h)
      else if m_Op m = ''set'' then
        (case SetSandbox (m_GuestIP m) (m_Sandbox m) (message_policy (m_Policy m)) (m_GuestMAC m) (m_GuestToken m) h of
           (None, h') \<Rightarrow> (reply, h')
         | (Some e, h') \<Rightarrow> (reply\<lparr>r_Error := Some (HandlerError e)\<rparr>, DelSandbox (m_GuestIP m) h'))
      else if m_Op m = ''del'' then (reply, DelSandbox (m_GuestIP m) h)
      else (reply\<lparr>r_Error := Some UnknownOperation\<rparr>, h))"

text \<open>The messages of one connection, in order.\<close>

fun serve_control ::
  "(string \<Rightarrow> string \<Rightarrow> egress_policy \<Rightarrow> string \<Rightarrow> string \<Rightarrow> 'h \<Rightarrow> 'e option \<times> 'h) \<Rightarrow>
   (string \<Rightarrow> 'h \<Rightarrow> 'h) \<Rightarrow> control_msg list \<Rightarrow> 'h \<Rightarrow> 'e control_reply list \<times> 'h" where
  "serve_control S D [] h = ([], h)"
| "serve_control S D (m # ms) h =
     (case serve_control_msg S D m h of (r, h1) \<Rightarrow>
        (case serve_control S D ms h1 of (rs, h2) \<Rightarrow> (r # rs, h2)))"

section \<open>What the loop relies on\<close>

text \<open>
  \<open>policy h ip\<close> is the policy in force for a guest address, \<open>inv\<close> the handler's invariant.
  \<open>seal\<close> is what the handler adds to a policy by itself; it must not change the daemon's rules.
\<close>

locale control_handler =
  fixes SetSandbox :: "string \<Rightarrow> string \<Rightarrow> egress_policy \<Rightarrow> string \<Rightarrow> string \<Rightarrow> 'h \<Rightarrow> 'e option \<times> 'h"
    and DelSandbox :: "string \<Rightarrow> 'h \<Rightarrow> 'h"
    and policy :: "'h \<Rightarrow> string \<Rightarrow> egress_policy option"
    and seal :: "'h \<Rightarrow> egress_policy \<Rightarrow> egress_policy"
    and inv :: "'h \<Rightarrow> bool"
  assumes set_registers: "SetSandbox ip sb pol mac tok h = (None, h') \<Longrightarrow> policy h' ip = Some (seal h pol)"
    and del_revokes: "policy (DelSandbox ip h) ip = None"
    and set_inv: "inv h \<Longrightarrow> inv (snd (SetSandbox ip sb pol mac tok h))"
    and del_inv: "inv h \<Longrightarrow> inv (DelSandbox ip h)"
    and seal_rules: "Default (seal h pol) = Default pol" "AllowHosts (seal h pol) = AllowHosts pol"
      "AllowCIDRs (seal h pol) = AllowCIDRs pol" "Siblings (seal h pol) = Siblings pol"
begin

lemma serve_msg_inv: "inv h \<Longrightarrow> inv (snd (serve_control_msg SetSandbox DelSandbox m h))"
  using set_inv [of h "m_GuestIP m" "m_Sandbox m" "message_policy (m_Policy m)" "m_GuestMAC m" "m_GuestToken m"]
  by (auto simp: serve_control_msg_def Let_def del_inv split: prod.splits option.splits)

lemma serve_control_inv: "inv h \<Longrightarrow> inv (snd (serve_control SetSandbox DelSandbox ms h))"
proof (induction ms arbitrary: h)
  case (Cons m ms)
  then have "inv (snd (serve_control_msg SetSandbox DelSandbox m h))" by (intro serve_msg_inv)
  with Cons.IH show ?case by (auto split: prod.splits) (metis snd_conv)
qed simp

lemma set_msg_fail_closed:
  assumes "m_Op m = ''set''" and "serve_control_msg SetSandbox DelSandbox m h = (r, h')"
  shows "(case r_Error r of
      None \<Rightarrow> policy h' (m_GuestIP m) = Some (seal h (message_policy (m_Policy m)))
    | Some _ \<Rightarrow> policy h' (m_GuestIP m) = None)"
  using assms
  by (auto simp: serve_control_msg_def Let_def del_revokes dest: set_registers
      split: prod.splits option.splits)

end

lemma message_policy_bad:
  "(w = None \<or> (\<exists>p e. w = Some p \<and> PolicyFromWire p = Inl e)) \<Longrightarrow> message_policy w = zero_policy"
  by (auto simp: message_policy_def)

lemma zero_policy_denies: "\<not> allows (Check (zero_policy\<lparr>SiblingSubnet := s, ExtraHardDeny := e, HostServices := v\<rparr>) host ip)"
  by (simp add: Check_def check_def zero_policy_def cidrsContain_def hostAllowed_def Let_def)

section \<open>Properties\<close>

text \<open>
  Validation and the build of the policy agree. The API accepts a policy for a sandbox with
  a network exactly when netd can build it, and then netd enforces the same posture, one pattern
  per allow-host and one prefix per allow-cidr, all of them well-formed; a "none" policy is
  accepted only without allow rules and siblings.
\<close>

theorem ValidateWire_iff_built:
  "ValidateWire w = None \<longleftrightarrow>
     (if w_Default w = PostureNone
      then w_Siblings w \<in> {[], ''deny''} \<and> w_AllowHosts w = [] \<and> w_AllowCIDRs w = []
      else \<exists>p. PolicyFromWire w = Inr p \<and>
        w_Default w = (if Default p = PosturePublic then ''public'' else ''deny'') \<and>
        (w_Siblings w = ''allow'' \<longleftrightarrow> Siblings p = PosturePublic) \<and>
        list_all2 (\<lambda>s h. ParseHostPattern s = Inr h \<and> hp_wf h) (w_AllowHosts w) (AllowHosts p) \<and>
        list_all2 (\<lambda>s c. ParsePrefix s = Some c \<and> prefix_valid c) (w_AllowCIDRs w) (AllowCIDRs p) \<and>
        ExtraHardDeny p = [] \<and> HostServices p = [])"
proof -
  have host: "parse_allow_host s = Inr h \<Longrightarrow> ParseHostPattern s = Inr h \<and> hp_wf h" for s h
    using ParseHostPattern_wf by (auto simp: parse_allow_host_def map_sum_def split: sum.splits)
  have cidr: "parse_allow_cidr s = Inr c \<Longrightarrow> ParsePrefix s = Some c \<and> prefix_valid c" for s c
    using ParsePrefix_valid by (auto simp: parse_allow_cidr_def split: option.splits)
  have "PolicyFromWire w = Inr p \<Longrightarrow>
     w_Default w = (if Default p = PosturePublic then ''public'' else ''deny'') \<and>
     (w_Siblings w = ''allow'' \<longleftrightarrow> Siblings p = PosturePublic) \<and>
     list_all2 (\<lambda>s h. ParseHostPattern s = Inr h \<and> hp_wf h) (w_AllowHosts w) (AllowHosts p) \<and>
     list_all2 (\<lambda>s c. ParsePrefix s = Some c \<and> prefix_valid c) (w_AllowCIDRs w) (AllowCIDRs p) \<and>
     ExtraHardDeny p = [] \<and> HostServices p = []" for p
    by (auto simp: PolicyFromWire_def res_bind_Inr_iff map_res_Inr_iff wire_posture_def
        wire_siblings_def zero_policy_def split: if_splits
        elim!: list_all2_mono dest: host cidr)
  then show ?thesis by (auto simp: ValidateWire_def split: sum.splits)
qed

end
