(* ===== verification/Netd.thy ===== *)
theory Netd
  imports Control Frame "HOL-Library.AList"
begin

text \<open>
  bhatti-netd, one owner's gateway (\<^verbatim>\<open>cmd/bhatti-netd/netstack.go\<close>, \<^verbatim>\<open>forward.go\<close>, \<^verbatim>\<open>dns.go\<close>):
  registration of guests by address, MAC and attachment secret, the ingress filter on each guest
  link, the hard-denied ranges, and the verdict on every flow a guest opens.

  The gVisor stack itself is outside the model: a flow is what its forwarders hand to netd. Two guest states or
  two ports are the same object in Go when their pointers are equal; here each carries the number
  under which it was allocated. Time is an integer count of nanoseconds.
\<close>

type_synonym mac = bytes

record guest_state =
  gs_id :: nat
  gs_sandbox :: string
  gs_ip :: "32 word"
  gs_mac :: mac
  gs_token :: string
  gs_pol :: egress_policy

record guest_port =
  gp_id :: nat
  gp_ip :: "32 word"
  gp_mac :: mac
  gp_token :: string

record name_entry =
  ne_host :: string
  ne_exp :: int

record gateway =
  gw_ip :: "32 word"
  gw_mac :: mac
  gw_subnet :: prefix             \<comment> \<open>\<^verbatim>\<open>siblingSubnet\<close>, the owner's /24\<close>
  gw_hardDeny :: "prefix list"
  gw_hostServices :: "addr_port list"
  gw_ports :: "guest_port list"
  gw_macTable :: "mac \<rightharpoonup> guest_port"
  gw_guests :: "32 word \<rightharpoonup> guest_state"
  gw_tokens :: "string \<rightharpoonup> guest_state"
  gw_names :: "nat \<Rightarrow> (addr \<times> name_entry) list"  \<comment> \<open>the \<^verbatim>\<open>names\<close> cache of each guest state\<close>
  gw_next :: nat
  gw_lastUnregisteredLog :: int

datatype netd_error = GatewayNotOwnerSubnet | InvalidGuestIP | InvalidGuestMAC | InvalidSecret | SecretInUse

section \<open>Textual forms\<close>

definition hex_byte :: "string \<Rightarrow> byte option" where
  "hex_byte s = (if length s = 2 \<and> list_all is_hex s then Some (word_of_int (hexs_val 0 s)) else None)"

text \<open>\<^verbatim>\<open>hex.DecodeString\<close> and \<^verbatim>\<open>hex.EncodeToString\<close>.\<close>

fun hex_decode :: "string \<Rightarrow> bytes option" where
  "hex_decode [] = Some []"
| "hex_decode [_] = None"
| "hex_decode (a # b # s) =
     (case (hex_byte [a, b], hex_decode s) of (Some x, Some xs) \<Rightarrow> Some (x # xs) | _ \<Rightarrow> None)"

definition hex_digit :: "nat \<Rightarrow> char" where
  "hex_digit n = (if n < 10 then char_of (48 + n) else char_of (87 + n))"

definition hex_encode :: "bytes \<Rightarrow> string" where
  "hex_encode bs = concat (map (\<lambda>b. [hex_digit (unat b div 16), hex_digit (unat b mod 16)]) bs)"

text \<open>\<^verbatim>\<open>net.ParseMAC\<close>: groups of two digits between colons or hyphens, or of four between dots.\<close>

definition mac_groups :: "bytes option list \<Rightarrow> mac option" where
  "mac_groups gs =
     (if None \<in> set gs then None
      else let bs = concat (map the gs) in if length bs \<in> {6, 8, 20} then Some bs else None)"

definition ParseMAC :: "string \<Rightarrow> mac option" where
  "ParseMAC s =
     (if length s < 14 then None
      else if s ! 2 = CHR '':'' \<or> s ! 2 = CHR ''-'' then
        mac_groups (map (\<lambda>g. map_option (\<lambda>b. [b]) (hex_byte g)) (split_on (s ! 2) s))
      else if s ! 4 = CHR ''.'' then
        mac_groups (map (\<lambda>g. if length g = 4 then hex_decode g else None) (split_on (CHR ''.'') s))
      else None)"

section \<open>The owner's network\<close>

definition ownerGuestPool :: prefix where
  "ownerGuestPool = Prefix (Addr4 0x64400000) 10"

text \<open>
  The sibling branches of the binary CIDR tree between the pool and the owner's subnet. The bit
  flipped at depth \<open>bits\<close> counts from the top of the address.
\<close>

definition appendOtherOwnerRanges :: "prefix list \<Rightarrow> prefix \<Rightarrow> prefix \<Rightarrow> prefix list" where
  "appendOtherOwnerRanges dst own pool =
     (case prefix_addr own of
        Addr4 a \<Rightarrow> dst @ map (\<lambda>bits. Masked (PrefixFrom (Addr4 (a XOR push_bit (32 - bits) 1)) bits))
            [Suc (prefix_bits pool) ..< Suc (prefix_bits own)]
      | _ \<Rightarrow> dst)"

text \<open>\<^verbatim>\<open>lastAddr\<close>: an IPv4 prefix's broadcast address.\<close>

fun lastAddr :: "prefix \<Rightarrow> addr" where
  "lastAddr (Prefix (Addr4 a) b) =
     Addr4 (push_bit (32 - b) (drop_bit (32 - b) a) OR (push_bit (32 - b) 1 - 1))"
| "lastAddr _ = AddrZero"

definition isBroadcastOrMulticast :: "mac \<Rightarrow> bool" where
  "isBroadcastOrMulticast m = (case m of [] \<Rightarrow> True | b # _ \<Rightarrow> b AND 1 \<noteq> 0)"

text \<open>
  \<^verbatim>\<open>NewGateway\<close>, less the construction of the gVisor stack. \<open>host_addrs\<close> and \<open>services\<close> are the
  host protection computed at startup.
\<close>

definition NewGateway :: "32 word \<Rightarrow> nat \<Rightarrow> mac \<Rightarrow> prefix list \<Rightarrow> addr_port list \<Rightarrow> netd_error + gateway" where
  "NewGateway gwIP prefixLen m host_addrs services =
     (if prefixLen \<noteq> 24 \<or> \<not> Contains ownerGuestPool (Addr4 gwIP) then Inl GatewayNotOwnerSubnet
      else let own = Masked (PrefixFrom (Addr4 gwIP) prefixLen);
               hardDeny = appendOtherOwnerRanges (host_addrs @ [PrefixFrom (Addr4 gwIP) 32]) own ownerGuestPool in
        Inr \<lparr>gw_ip = gwIP, gw_mac = m, gw_subnet = own, gw_hardDeny = hardDeny,
             gw_hostServices = services, gw_ports = [], gw_macTable = Map.empty,
             gw_guests = Map.empty, gw_tokens = Map.empty, gw_names = (\<lambda>_. []),
             gw_next = 1, gw_lastUnregisteredLog = 0\<rparr>)"

text \<open>The policy of a source no guest is registered for.\<close>

definition defPol :: "gateway \<Rightarrow> egress_policy" where
  "defPol g = zero_policy\<lparr>ExtraHardDeny := gw_hardDeny g, HostServices := gw_hostServices g,
     SiblingSubnet := gw_subnet g\<rparr>"

section \<open>Registration\<close>

definition seal_policy :: "gateway \<Rightarrow> egress_policy \<Rightarrow> egress_policy" where
  "seal_policy g pol =
     pol\<lparr>SiblingSubnet := gw_subnet g, HostServices := gw_hostServices g,
         ExtraHardDeny := (if ExtraHardDeny pol \<noteq> [] then ExtraHardDeny pol @ gw_hardDeny g else gw_hardDeny g)\<rparr>"

definition guest_ip_ok :: "gateway \<Rightarrow> 32 word \<Rightarrow> bool" where
  "guest_ip_ok g v \<longleftrightarrow> Contains (gw_subnet g) (Addr4 v) \<and> v \<noteq> gw_ip g \<and>
     Addr4 v \<noteq> prefix_addr (gw_subnet g) \<and> Addr4 v \<noteq> lastAddr (gw_subnet g)"

text \<open>The checks \<^verbatim>\<open>SetSandbox\<close> makes before it takes the lock.\<close>

definition guest_identity :: "gateway \<Rightarrow> string \<Rightarrow> string \<Rightarrow> string \<Rightarrow> netd_error + 32 word \<times> mac" where
  "guest_identity g guestIP macStr token =
     (case ParseAddr guestIP of
        Some (Addr4 v) \<Rightarrow>
          if \<not> guest_ip_ok g v then Inl InvalidGuestIP
          else (case ParseMAC macStr of
              None \<Rightarrow> Inl InvalidGuestMAC
            | Some hw \<Rightarrow>
                if length hw \<noteq> 6 \<or> isBroadcastOrMulticast hw \<or> hw = gw_mac g then Inl InvalidGuestMAC
                else if length token \<noteq> GuestHelloSize then Inl InvalidSecret
                else (case hex_decode token of
                    None \<Rightarrow> Inl InvalidSecret
                  | Some raw \<Rightarrow>
                      if length raw \<noteq> 32 \<or> hex_encode raw \<noteq> token then Inl InvalidSecret
                      else Inr (v, hw)))
      | _ \<Rightarrow> Inl InvalidGuestIP)"

text \<open>Whether the attachment secret is already another guest's, by identity of the registered objects.\<close>

definition secret_in_use :: "string \<Rightarrow> 32 word \<Rightarrow> gateway \<Rightarrow> bool" where
  "secret_in_use token v g =
     (case gw_tokens g token of
        None \<Rightarrow> False
      | Some other \<Rightarrow> (case gw_guests g v of None \<Rightarrow> True | Some cur \<Rightarrow> gs_id other \<noteq> gs_id cur))"

definition SetSandbox ::
  "string \<Rightarrow> string \<Rightarrow> egress_policy \<Rightarrow> string \<Rightarrow> string \<Rightarrow> gateway \<Rightarrow> netd_error option \<times> gateway" where
  "SetSandbox guestIP sandboxID pol macStr token g =
     (case guest_identity g guestIP macStr token of
        Inl e \<Rightarrow> (Some e, g)
      | Inr (v, hw) \<Rightarrow>
          (let st = \<lparr>gs_id = gw_next g, gs_sandbox = sandboxID, gs_ip = v, gs_mac = hw,
                     gs_token = token, gs_pol = seal_policy g pol\<rparr>;
               toks = (case gw_guests g v of
                   None \<Rightarrow> gw_tokens g | Some old \<Rightarrow> (gw_tokens g)(gs_token old := None)) in
           if secret_in_use token v g then (Some SecretInUse, g\<lparr>gw_next := Suc (gw_next g)\<rparr>)
           else (None, g\<lparr>gw_next := Suc (gw_next g), gw_guests := (gw_guests g)(v \<mapsto> st),
                         gw_tokens := toks(token \<mapsto> st)\<rparr>)))"

definition DelSandbox :: "string \<Rightarrow> gateway \<Rightarrow> gateway" where
  "DelSandbox guestIP g =
     (case ParseAddr guestIP of
        Some (Addr4 v) \<Rightarrow>
          g\<lparr>gw_tokens := (case gw_guests g v of
                None \<Rightarrow> gw_tokens g | Some old \<Rightarrow> (gw_tokens g)(gs_token old := None)),
            gw_guests := (gw_guests g)(v := None)\<rparr>
      | _ \<Rightarrow> g)"

text \<open>\<^verbatim>\<open>stateFor\<close>: the registered state, or \<open>None\<close> for the deny fallback; the warning is logged once a minute.\<close>

definition minute :: int where "minute = 60000000000"

definition stateFor :: "int \<Rightarrow> 32 word \<Rightarrow> gateway \<Rightarrow> guest_state option \<times> gateway" where
  "stateFor now src g =
     (case gw_guests g src of
        Some st \<Rightarrow> (Some st, g)
      | None \<Rightarrow> (None, if now - gw_lastUnregisteredLog g \<ge> minute then g\<lparr>gw_lastUnregisteredLog := now\<rparr> else g))"

definition state_pol :: "gateway \<Rightarrow> guest_state option \<Rightarrow> egress_policy" where
  "state_pol g st = (case st of Some s \<Rightarrow> gs_pol s | None \<Rightarrow> defPol g)"

section \<open>Guest links\<close>

definition AddGuest :: "32 word \<Rightarrow> mac \<Rightarrow> string \<Rightarrow> gateway \<Rightarrow> guest_port \<times> gateway" where
  "AddGuest ip m token g =
     (let p = \<lparr>gp_id = gw_next g, gp_ip = ip, gp_mac = m, gp_token = token\<rparr> in
      (p, g\<lparr>gw_next := Suc (gw_next g), gw_ports := gw_ports g @ [p],
            gw_macTable := (gw_macTable g)(m \<mapsto> p)\<rparr>))"

text \<open>\<open>authenticateGuest\<close> on the bytes the connection delivers; \<open>None\<close> means it was closed.\<close>

definition bytes_string :: "bytes \<Rightarrow> string" where
  "bytes_string bs = map (\<lambda>b. char_of (unat b)) bs"

definition authenticateGuest :: "bytes \<Rightarrow> gateway \<Rightarrow> guest_port option \<times> gateway" where
  "authenticateGuest conn g =
     (case read_full GuestHelloSize conn of
        (Inl _, _) \<Rightarrow> (None, g)
      | (Inr hello, _) \<Rightarrow>
          (case gw_tokens g (bytes_string hello) of
             None \<Rightarrow> (None, g)
           | Some st \<Rightarrow> (case AddGuest (gs_ip st) (gs_mac st) (gs_token st) g of (p, g') \<Rightarrow> (Some p, g'))))"

definition portActive :: "gateway \<Rightarrow> guest_port \<Rightarrow> bool" where
  "portActive g p =
     (case gw_guests g (gp_ip p) of
        None \<Rightarrow> False
      | Some st \<Rightarrow> gs_token st = gp_token p \<and> gs_mac st = gp_mac p)"

text \<open>The accessors of gVisor's header package on an ethernet frame and on its body.\<close>

record frame_hdr =
  eth_src :: "bytes \<Rightarrow> mac"
  eth_type :: "bytes \<Rightarrow> nat"
  ipv4_src :: "bytes \<Rightarrow> 32 word"
  arp_valid :: "bytes \<Rightarrow> bool"
  arp_sender_mac :: "bytes \<Rightarrow> mac"
  arp_sender_ip :: "bytes \<Rightarrow> 32 word"

definition allowIngress :: "frame_hdr \<Rightarrow> gateway \<Rightarrow> guest_port \<Rightarrow> bytes \<Rightarrow> bool" where
  "allowIngress hx g p frame =
     (portActive g p \<and> length frame \<ge> 14 \<and> eth_src hx frame = gp_mac p \<and>
      (let body = drop 14 frame in
       if eth_type hx frame = 0x0800 then length body \<ge> 20 \<and> ipv4_src hx body = gp_ip p
       else if eth_type hx frame = 0x0806 then
         length body \<ge> 28 \<and> arp_valid hx body \<and> arp_sender_mac hx body = gp_mac p \<and> arp_sender_ip hx body = gp_ip p
       else False))"

definition removePort :: "guest_port \<Rightarrow> gateway \<Rightarrow> gateway" where
  "removePort dead g =
     g\<lparr>gw_ports := (let before = takeWhile (\<lambda>p. gp_id p \<noteq> gp_id dead) (gw_ports g) in
          before @ drop (Suc (length before)) (gw_ports g)),
       gw_macTable := (\<lambda>m. case gw_macTable g m of
          None \<Rightarrow> None | Some p \<Rightarrow> if gp_id p = gp_id dead then None else Some p)\<rparr>"

text \<open>Where the frames the stack emits go: the ports written to, by \<^verbatim>\<open>stackOutLoop\<close>.\<close>

definition flood :: "gateway \<Rightarrow> guest_port list" where
  "flood g = filter (portActive g) (gw_ports g)"

definition stackOut :: "gateway \<Rightarrow> mac \<Rightarrow> guest_port list" where
  "stackOut g dst =
     (if isBroadcastOrMulticast dst then flood g
      else case gw_macTable g dst of
          Some p \<Rightarrow> if portActive g p then [p] else flood g
        | None \<Rightarrow> flood g)"

section \<open>DNS\<close>

definition nameTTLMin :: int where "nameTTLMin = 30 * second"
definition nameTTLMax :: int where "nameTTLMax = 3600 * second"
definition nameCacheLimit :: nat where "nameCacheLimit = 4096"

text \<open>The cache map as an association list with one entry per address.\<close>

type_synonym name_cache = "(addr \<times> name_entry) list"

definition names_put :: "int \<Rightarrow> addr \<Rightarrow> string \<Rightarrow> int \<Rightarrow> name_cache \<Rightarrow> name_cache" where
  "names_put now ip host ttl0 c =
     (let ttl = min (max ttl0 nameTTLMin) nameTTLMax;
          live = filter (\<lambda>(k, e). \<not> now > ne_exp e) c;
          c1 = (if length c < nameCacheLimit then c
                else if length live < nameCacheLimit then live
                else []) in
      AList.update (Unmap ip) \<lparr>ne_host = host, ne_exp = now + ttl\<rparr> c1)"

definition names_lookup :: "int \<Rightarrow> addr \<Rightarrow> name_cache \<Rightarrow> string" where
  "names_lookup now ip c =
     (case map_of c (Unmap ip) of
        None \<Rightarrow> []
      | Some e \<Rightarrow> if now > ne_exp e then [] else ne_host e)"

text \<open>
  \<^verbatim>\<open>recordAnswers\<close> on the answer section: the addresses of its A and AAAA records, in order, with
  their TTLs in seconds. The DNS message codec is a library of its own.
\<close>

fun recordAnswers :: "int \<Rightarrow> (addr \<times> int) list \<Rightarrow> string \<Rightarrow> name_cache \<Rightarrow> name_cache" where
  "recordAnswers now [] asked c = c"
| "recordAnswers now ((ip, ttl) # rs) asked c =
     recordAnswers now rs asked (names_put now ip asked (ttl * second) c)"

datatype dns_reply = NoReply | Refused | Relayed "(addr \<times> int) list"

text \<open>
  \<^verbatim>\<open>answerDNS\<close> for a query whose first question is \<open>qname\<close> (\<open>None\<close>: the query does not parse);
  \<open>upstream\<close> is what the resolver the guest addressed answers, \<open>None\<close> when it does not.
\<close>

definition answerDNS ::
  "int \<Rightarrow> string option \<Rightarrow> (addr \<times> int) list option \<Rightarrow> egress_policy \<Rightarrow> name_cache \<Rightarrow> dns_reply \<times> name_cache" where
  "answerDNS now qname upstream pol c =
     (case qname of
        None \<Rightarrow> (NoReply, c)
      | Some q \<Rightarrow>
          if \<not> AllowsName pol q then (Refused, c)
          else (case upstream of
              None \<Rightarrow> (NoReply, c)
            | Some rs \<Rightarrow> (Relayed rs, recordAnswers now rs (trim_suffix q ''.'') c)))"

definition resolverAllowed :: "addr \<Rightarrow> egress_policy option \<Rightarrow> bool" where
  "resolverAllowed ip pol =
     (case pol of
        None \<Rightarrow> False
      | Some p \<Rightarrow> allows (Check (AllowAllEgress\<lparr>ExtraHardDeny := ExtraHardDeny p\<rparr>) [] ip))"

section \<open>Flows\<close>

text \<open>What a forwarder does with a flow from a guest.\<close>

datatype flow_action =
    Drop                       \<comment> \<open>RST or silently dropped\<close>
  | ToSibling                  \<comment> \<open>re-originated inside the stack\<close>
  | ToHost                     \<comment> \<open>dialled from the host\<close>
  | ProxyDNS                   \<comment> \<open>answered by \<^verbatim>\<open>serveDNS\<close>\<close>

definition isSibling :: "gateway \<Rightarrow> 32 word \<Rightarrow> bool" where
  "isSibling g a \<longleftrightarrow> a \<noteq> gw_ip g \<and> Contains (gw_subnet g) (Addr4 a)"

definition siblingAllowed :: "egress_policy \<Rightarrow> addr \<Rightarrow> bool" where
  "siblingAllowed pol ip = allows (Check pol [] ip)"

definition state_names :: "gateway \<Rightarrow> guest_state option \<Rightarrow> name_cache" where
  "state_names g st = gw_names g (case st of Some s \<Rightarrow> gs_id s | None \<Rightarrow> 0)"

definition forwardTCP :: "int \<Rightarrow> gateway \<Rightarrow> 32 word \<Rightarrow> 32 word \<Rightarrow> u16 \<Rightarrow> flow_action" where
  "forwardTCP now g src dst port =
     (let st = fst (stateFor now src g); pol = state_pol g st; ip = Addr4 dst in
      if isSibling g dst then (if siblingAllowed pol ip then ToSibling else Drop)
      else if allows (vet pol ''tcp'' (names_lookup now ip (state_names g st)) ip port) then ToHost
      else Drop)"

definition forwardUDP :: "int \<Rightarrow> gateway \<Rightarrow> 32 word \<Rightarrow> 32 word \<Rightarrow> u16 \<Rightarrow> flow_action" where
  "forwardUDP now g src dst port =
     (let st = fst (stateFor now src g); pol = state_pol g st; ip = Addr4 dst in
      if isSibling g dst then (if siblingAllowed pol ip then ToSibling else Drop)
      else if port = 53 then (if resolverAllowed ip (Some pol) then ProxyDNS else Drop)
      else if allows (Check pol [] ip) then ToHost
      else Drop)"

section \<open>Lemmas on the hard-denied ranges\<close>

lemma drop_bit_word_mono:
  assumes "drop_bit m (v :: 32 word) = drop_bit m a" and "m \<le> n"
  shows "drop_bit n v = drop_bit n a"
proof -
  from assms(2) obtain k where "n = m + k" by (metis le_add_diff_inverse)
  with assms(1) show ?thesis by (metis add.commute drop_bit_drop_bit)
qed

lemma drop_bit_flip: "n < 32 \<Longrightarrow> drop_bit n ((a :: 32 word) XOR push_bit n 1) = drop_bit n a XOR 1"
  by (rule bit_word_eqI) (auto simp: bit_simps)

lemma drop_bit_differs:
  assumes "drop_bit (Suc n) (v :: 32 word) = drop_bit (Suc n) a" and "drop_bit n v \<noteq> drop_bit n a"
  shows "drop_bit n v = drop_bit n a XOR 1"
proof (rule bit_word_eqI)
  have up: "bit v (n + Suc k) = bit a (n + Suc k)" for k
    using arg_cong [OF assms(1), of "\<lambda>w. bit w k"] by (simp add: bit_simps)
  have "bit v n \<noteq> bit a n"
  proof
    assume "bit v n = bit a n"
    with up have "bit (drop_bit n v) k = bit (drop_bit n a) k" for k
      by (cases k) (auto simp: bit_simps)
    with assms(2) show False by (simp add: bit_eq_iff)
  qed
  fix k assume "k < LENGTH(32)"
  with up \<open>bit v n \<noteq> bit a n\<close> show "bit (drop_bit n v) k = bit (drop_bit n a XOR 1) k"
    by (cases k) (auto simp: bit_simps)
qed

lemma range_between:
  assumes "drop_bit (32 - lo) v = drop_bit (32 - lo) a" and "drop_bit (32 - hi) v \<noteq> drop_bit (32 - hi) a"
    and "lo \<le> hi" and "hi \<le> 32"
  shows "\<exists>b. lo < b \<and> b \<le> hi \<and> drop_bit (32 - b) v = drop_bit (32 - b) (a :: 32 word) XOR 1"
  using assms
proof (induction "hi - lo" arbitrary: lo)
  case 0
  then show ?case by simp
next
  case (Suc d)
  then have lt: "lo < hi" by simp
  show ?case
  proof (cases "drop_bit (32 - Suc lo) v = drop_bit (32 - Suc lo) a")
    case True
    moreover have "d = hi - Suc lo" using Suc.hyps(2) by simp
    ultimately obtain b where "Suc lo < b" "b \<le> hi" "drop_bit (32 - b) v = drop_bit (32 - b) a XOR 1"
      using Suc.hyps(1) [of "Suc lo"] Suc.prems lt by auto
    then show ?thesis by (meson Suc_lessD)
  next
    case False
    moreover have "32 - lo = Suc (32 - Suc lo)" using lt Suc.prems by simp
    ultimately have "drop_bit (32 - Suc lo) v = drop_bit (32 - Suc lo) a XOR 1"
      using drop_bit_differs [of "32 - Suc lo" v a] Suc.prems by simp
    with lt show ?thesis by (intro exI [of _ "Suc lo"]) simp
  qed
qed

lemma Contains_Masked4:
  assumes "b \<le> 32"
  shows "Contains (Masked (PrefixFrom (Addr4 w) b)) (Addr4 v) \<longleftrightarrow> drop_bit (32 - b) v = drop_bit (32 - b) w"
proof -
  have "drop_bit (32 - b) (push_bit (32 - b) (drop_bit (32 - b) w)) = drop_bit (32 - b) w"
    by (rule bit_word_eqI) (auto simp: bit_simps dest: bit_imp_le_length)
  with assms show ?thesis by (simp add: PrefixFrom_def)
qed

lemma other_range_contains:
  assumes "0 < b" "b \<le> 32"
  shows "Contains (Masked (PrefixFrom (Addr4 (a XOR push_bit (32 - b) 1)) b)) (Addr4 v) \<longleftrightarrow>
    drop_bit (32 - b) v = drop_bit (32 - b) a XOR 1"
  unfolding Contains_Masked4 [OF assms(2)] using assms by (subst drop_bit_flip) simp_all

lemma other_range_mem:
  assumes "prefix_addr own = Addr4 a" and "prefix_bits pool < b" and "b \<le> prefix_bits own"
  shows "Masked (PrefixFrom (Addr4 (a XOR push_bit (32 - b) 1)) b) \<in> set (appendOtherOwnerRanges dst own pool)"
  using assms unfolding appendOtherOwnerRanges_def
  by (auto simp del: push_bit_of_1 upt_Suc intro!: image_eqI [of _ _ b])

text \<open>A range that hard-denies another owner's address, and is no single address.\<close>

definition bars_others :: "32 word \<Rightarrow> prefix list \<Rightarrow> bool" where
  "bars_others gwIP rs \<longleftrightarrow>
     (\<forall>v. drop_bit 22 v = drop_bit 22 (0x64400000 :: 32 word) \<longrightarrow> drop_bit 8 v \<noteq> drop_bit 8 gwIP \<longrightarrow>
        (\<exists>r \<in> set rs. Contains r (Addr4 v) \<and> \<not> IsSingleIP r))"

definition own_subnet :: "32 word \<Rightarrow> prefix" where
  "own_subnet gwIP = Prefix (Addr4 (push_bit 8 (drop_bit 8 gwIP))) 24"

lemma drop8_push8 [simp]: "drop_bit 8 (push_bit 8 (drop_bit 8 w)) = drop_bit 8 (w :: 32 word)"
  by (rule bit_word_eqI) (auto simp: bit_simps dest: bit_imp_le_length)

lemma Masked_own: "Masked (PrefixFrom (Addr4 gwIP) 24) = own_subnet gwIP"
  by (simp add: PrefixFrom_def own_subnet_def)

lemma appendOtherOwnerRanges_bars:
  assumes "Contains ownerGuestPool (Addr4 gwIP)"
  shows "bars_others gwIP (appendOtherOwnerRanges dst (own_subnet gwIP) ownerGuestPool)"
  unfolding bars_others_def
proof (intro allI impI)
  fix v :: "32 word"
  let ?a = "push_bit 8 (drop_bit 8 gwIP)"
  assume pool: "drop_bit 22 v = drop_bit 22 (0x64400000 :: 32 word)"
    and out: "drop_bit 8 v \<noteq> drop_bit 8 gwIP"
  have "drop_bit 22 gwIP = drop_bit 22 (0x64400000 :: 32 word)"
    using assms by (simp add: ownerGuestPool_def)
  with pool have "drop_bit (32 - 10) v = drop_bit (32 - 10) ?a"
    using drop_bit_word_mono [of 8 ?a gwIP 22] by simp
  then obtain b where b: "10 < b" "b \<le> 24" "drop_bit (32 - b) v = drop_bit (32 - b) ?a XOR 1"
    using range_between [of 10 v ?a 24] out by auto
  let ?r = "Masked (PrefixFrom (Addr4 (?a XOR push_bit (32 - b) 1)) b)"
  have "?r \<in> set (appendOtherOwnerRanges dst (own_subnet gwIP) ownerGuestPool)"
    using b by (intro other_range_mem) (simp_all add: own_subnet_def ownerGuestPool_def)
  moreover have "Contains ?r (Addr4 v)" using b by (subst other_range_contains) auto
  moreover have "\<not> IsSingleIP ?r" using b by (simp add: PrefixFrom_def)
  ultimately show "\<exists>r \<in> set (appendOtherOwnerRanges dst (own_subnet gwIP) ownerGuestPool).
      Contains r (Addr4 v) \<and> \<not> IsSingleIP r" by blast
qed

lemma bars_others_mono: "bars_others gwIP rs \<Longrightarrow> set rs \<subseteq> set rs' \<Longrightarrow> bars_others gwIP rs'"
  by (fastforce simp: bars_others_def)

section \<open>The registration invariant\<close>

text \<open>What netd adds to every policy it enforces: its own hard-denied ranges cannot be left out.\<close>

definition sealed :: "gateway \<Rightarrow> egress_policy \<Rightarrow> bool" where
  "sealed g pol \<longleftrightarrow> SiblingSubnet pol = gw_subnet g \<and> HostServices pol = gw_hostServices g \<and>
     set (gw_hardDeny g) \<subseteq> set (ExtraHardDeny pol)"

definition net_inv :: "gateway \<Rightarrow> bool" where
  "net_inv g \<longleftrightarrow> gw_subnet g = own_subnet (gw_ip g) \<and> bars_others (gw_ip g) (gw_hardDeny g)"

definition guests_inv :: "gateway \<Rightarrow> bool" where
  "guests_inv g \<longleftrightarrow> (\<forall>v st. gw_guests g v = Some st \<longrightarrow>
     gs_ip st = v \<and> gw_tokens g (gs_token st) = Some st \<and> gs_id st < gw_next g \<and>
     guest_ip_ok g v \<and> sealed g (gs_pol st))"

definition tokens_inv :: "gateway \<Rightarrow> bool" where
  "tokens_inv g \<longleftrightarrow> (\<forall>t st. gw_tokens g t = Some st \<longrightarrow>
     gs_token st = t \<and> gw_guests g (gs_ip st) = Some st)"

definition ids_inv :: "gateway \<Rightarrow> bool" where
  "ids_inv g \<longleftrightarrow> (\<forall>v v' st st'. gw_guests g v = Some st \<longrightarrow> gw_guests g v' = Some st' \<longrightarrow>
     gs_id st = gs_id st' \<longrightarrow> st = st')"

definition gw_inv :: "gateway \<Rightarrow> bool" where
  "gw_inv g \<longleftrightarrow> net_inv g \<and> guests_inv g \<and> tokens_inv g \<and> ids_inv g"

lemmas gw_inv_defs = gw_inv_def net_inv_def guests_inv_def tokens_inv_def ids_inv_def

lemma sealed_seal: "sealed g (seal_policy g pol)"
  by (simp add: sealed_def seal_policy_def)

text \<open>The fields the invariant reads; a step that changes only others keeps it.\<close>

lemma gw_inv_cong:
  assumes "gw_inv g" and "gw_ip g' = gw_ip g" "gw_subnet g' = gw_subnet g" "gw_hardDeny g' = gw_hardDeny g"
    "gw_hostServices g' = gw_hostServices g" "gw_guests g' = gw_guests g" "gw_tokens g' = gw_tokens g"
    "gw_next g \<le> gw_next g'"
  shows "gw_inv g'"
  using assms
  by (fastforce simp: gw_inv_defs guest_ip_ok_def sealed_def)

lemma NewGateway_inv: "NewGateway gwIP n m hosts svcs = Inr g \<Longrightarrow> gw_inv g"
  using appendOtherOwnerRanges_bars [of gwIP]
  by (auto simp: NewGateway_def Let_def Masked_own gw_inv_defs split: if_splits)

lemma guest_identity_Inr:
  "guest_identity g guestIP macStr token = Inr (v, hw) \<Longrightarrow>
     ParseAddr guestIP = Some (Addr4 v) \<and> guest_ip_ok g v \<and> ParseMAC macStr = Some hw"
  by (auto simp: guest_identity_def split: option.splits addr.splits if_splits)

lemma gw_guestsD:
  assumes "gw_inv g" "gw_guests g v = Some st"
  shows "gs_ip st = v" "gw_tokens g (gs_token st) = Some st" "gs_id st < gw_next g"
    "guest_ip_ok g v" "sealed g (gs_pol st)"
  using assms by (auto simp: gw_inv_def guests_inv_def)

lemma gw_tokensD:
  assumes "gw_inv g" "gw_tokens g t = Some st"
  shows "gs_token st = t" "gw_guests g (gs_ip st) = Some st"
  using assms by (auto simp: gw_inv_def tokens_inv_def)

lemma gw_idsD:
  "gw_inv g \<Longrightarrow> gw_guests g v = Some st \<Longrightarrow> gw_guests g v' = Some st' \<Longrightarrow> gs_id st = gs_id st' \<Longrightarrow> st = st'"
  unfolding gw_inv_def ids_inv_def by blast

lemma gw_token_unique:
  assumes "gw_inv g" "gw_guests g v = Some st" "gw_guests g v' = Some st'" "gs_token st = gs_token st'"
  shows "v = v'"
  by (metis assms gw_guestsD(1,2) option.inject)

lemma gw_inv_tablesI:
  assumes "gw_inv g"
    and "\<And>v st. G v = Some st \<Longrightarrow>
      gs_ip st = v \<and> T (gs_token st) = Some st \<and> gs_id st < n \<and> guest_ip_ok g v \<and> sealed g (gs_pol st)"
    and "\<And>t st. T t = Some st \<Longrightarrow> gs_token st = t \<and> G (gs_ip st) = Some st"
    and "\<And>v v' st st'. G v = Some st \<Longrightarrow> G v' = Some st' \<Longrightarrow> gs_id st = gs_id st' \<Longrightarrow> st = st'"
  shows "gw_inv (g\<lparr>gw_next := n, gw_guests := G, gw_tokens := T\<rparr>)"
proof -
  let ?g = "g\<lparr>gw_next := n, gw_guests := G, gw_tokens := T\<rparr>"
  have same: "guest_ip_ok ?g = guest_ip_ok g" "sealed ?g = sealed g"
    by (auto simp: guest_ip_ok_def sealed_def fun_eq_iff)
  have "net_inv ?g" using assms(1) by (simp add: gw_inv_def net_inv_def)
  moreover have "guests_inv ?g" unfolding guests_inv_def same using assms(2) by simp
  moreover have "tokens_inv ?g" using assms(3) by (simp add: tokens_inv_def)
  moreover have "ids_inv ?g" using assms(4) unfolding ids_inv_def by simp
  ultimately show ?thesis by (simp add: gw_inv_def)
qed

text \<open>Dropping the registration of an address from both tables.\<close>

definition drop_token :: "gateway \<Rightarrow> 32 word \<Rightarrow> string \<rightharpoonup> guest_state" where
  "drop_token g v = (case gw_guests g v of
     None \<Rightarrow> gw_tokens g | Some old \<Rightarrow> (gw_tokens g)(gs_token old := None))"

lemma drop_token_Some:
  assumes "gw_inv g" "drop_token g v t = Some st"
  shows "gs_token st = t" "gw_guests g (gs_ip st) = Some st" "gs_ip st \<noteq> v"
proof -
  from assms(2) have t: "gw_tokens g t = Some st"
    by (auto simp: drop_token_def split: option.splits if_splits)
  then show tok: "gs_token st = t" and ip: "gw_guests g (gs_ip st) = Some st"
    using gw_tokensD [OF assms(1)] by auto
  from assms(2) tok ip show "gs_ip st \<noteq> v"
    by (auto simp: drop_token_def split: option.splits if_splits)
qed

lemma drop_token_other:
  assumes "gw_inv g" "gw_guests g u = Some st" "u \<noteq> v"
  shows "drop_token g v (gs_token st) = Some st"
proof (cases "gw_guests g v")
  case None
  with gw_guestsD(2) [OF assms(1,2)] show ?thesis by (simp add: drop_token_def)
next
  case (Some old)
  with gw_token_unique [OF assms(1,2)] assms(3) have "gs_token st \<noteq> gs_token old" by blast
  with gw_guestsD(2) [OF assms(1,2)] Some show ?thesis by (simp add: drop_token_def)
qed

lemma secret_in_use_other:
  assumes "gw_inv g" "\<not> secret_in_use token v g" "gw_guests g u = Some st" "gs_token st = token"
  shows "u = v"
proof -
  have t: "gw_tokens g token = Some st" using gw_guestsD [OF assms(1,3)] assms(4) by simp
  with assms(2) obtain cur where cur: "gw_guests g v = Some cur" "gs_id st = gs_id cur"
    by (auto simp: secret_in_use_def split: option.splits)
  with gw_idsD [OF assms(1,3)] have "st = cur" by blast
  with gw_guestsD(1) [OF assms(1)] assms(3) cur show ?thesis by metis
qed

lemma register_inv:
  assumes inv: "gw_inv g" and free: "\<not> secret_in_use (gs_token st) v g"
    and st: "gs_ip st = v" "gs_id st = gw_next g" "sealed g (gs_pol st)" and ok: "guest_ip_ok g v"
  shows "gw_inv (g\<lparr>gw_next := Suc (gw_next g), gw_guests := (gw_guests g)(v \<mapsto> st),
                   gw_tokens := (drop_token g v)(gs_token st \<mapsto> st)\<rparr>)"
proof (rule gw_inv_tablesI [OF inv])
  fix u s assume u: "((gw_guests g)(v \<mapsto> st)) u = Some s"
  show "gs_ip s = u \<and> ((drop_token g v)(gs_token st \<mapsto> st)) (gs_token s) = Some s \<and>
      gs_id s < Suc (gw_next g) \<and> guest_ip_ok g u \<and> sealed g (gs_pol s)"
  proof (cases "u = v")
    case True
    with u st ok show ?thesis by auto
  next
    case False
    with u have s: "gw_guests g u = Some s" by simp
    have "gs_token s \<noteq> gs_token st" using secret_in_use_other [OF inv free s] False by blast
    with gw_guestsD [OF inv s] drop_token_other [OF inv s False] show ?thesis by simp
  qed
next
  fix t s assume "((drop_token g v)(gs_token st \<mapsto> st)) t = Some s"
  then show "gs_token s = t \<and> ((gw_guests g)(v \<mapsto> st)) (gs_ip s) = Some s"
    using st drop_token_Some [OF inv, of v t s] by (auto split: if_splits)
next
  fix u u' s s'
  assume "((gw_guests g)(v \<mapsto> st)) u = Some s" "((gw_guests g)(v \<mapsto> st)) u' = Some s'" "gs_id s = gs_id s'"
  then show "s = s'"
    using st gw_guestsD(3) [OF inv, of u s] gw_guestsD(3) [OF inv, of u' s'] gw_idsD [OF inv]
    by (auto split: if_splits)
qed

lemma SetSandbox_inv [invariants]:
  assumes inv: "gw_inv g"
  shows "gw_inv (snd (SetSandbox guestIP sb pol macStr token g))"
proof (cases "guest_identity g guestIP macStr token")
  case (Inl e)
  with inv show ?thesis by (simp add: SetSandbox_def)
next
  case (Inr vh)
  obtain v hw where vh: "vh = (v, hw)" by fastforce
  with Inr have "guest_ip_ok g v" by (auto dest: guest_identity_Inr)
  moreover have "gw_inv (g\<lparr>gw_next := Suc (gw_next g)\<rparr>)" by (rule gw_inv_cong [OF inv]) simp_all
  ultimately show ?thesis
    using Inr vh inv sealed_seal [of g pol]
      register_inv [OF inv, of "\<lparr>gs_id = gw_next g, gs_sandbox = sb, gs_ip = v, gs_mac = hw,
                     gs_token = token, gs_pol = seal_policy g pol\<rparr>" v]
    by (simp add: SetSandbox_def Let_def drop_token_def)
qed

lemma DelSandbox_alt: "ParseAddr guestIP = Some (Addr4 v) \<Longrightarrow>
   DelSandbox guestIP g = g\<lparr>gw_next := gw_next g, gw_guests := (gw_guests g)(v := None), gw_tokens := drop_token g v\<rparr>"
  by (simp add: DelSandbox_def drop_token_def)

lemma DelSandbox_inv [invariants]:
  assumes inv: "gw_inv g"
  shows "gw_inv (DelSandbox guestIP g)"
proof (cases "\<exists>v. ParseAddr guestIP = Some (Addr4 v)")
  case True
  then obtain v where v: "ParseAddr guestIP = Some (Addr4 v)" by blast
  show ?thesis unfolding DelSandbox_alt [OF v]
    using gw_guestsD [OF inv] drop_token_other [OF inv] drop_token_Some [OF inv] gw_idsD [OF inv]
    by (intro gw_inv_tablesI [OF inv]) (auto split: if_splits)
next
  case False
  with inv show ?thesis by (auto simp: DelSandbox_def split: option.splits addr.splits)
qed

section \<open>The control handler, interpreted\<close>

definition guest_policy :: "gateway \<Rightarrow> string \<Rightarrow> egress_policy option" where
  "guest_policy g guestIP =
     (case ParseAddr guestIP of
        Some (Addr4 v) \<Rightarrow> map_option gs_pol (gw_guests g v)
      | _ \<Rightarrow> None)"

lemma SetSandbox_registers:
  "SetSandbox ip sb pol m tok g = (None, g') \<Longrightarrow> guest_policy g' ip = Some (seal_policy g pol)"
  by (auto simp: SetSandbox_def Let_def guest_policy_def dest!: guest_identity_Inr
      split: sum.splits prod.splits if_splits)

lemma DelSandbox_revokes: "guest_policy (DelSandbox ip g) ip = None"
  by (auto simp: DelSandbox_def guest_policy_def split: option.splits addr.splits)

interpretation netd: control_handler SetSandbox DelSandbox guest_policy seal_policy gw_inv
  by unfold_locales
    (auto simp: SetSandbox_registers DelSandbox_revokes seal_policy_def intro: invariants)

section \<open>Runs of a gateway\<close>

text \<open>
  One step: a control message is applied, a link attaches or ends, a flow looks its source up, a
  DNS answer is recorded in some guest state's cache. Which comes next is the environment's choice.
\<close>

inductive netd_step :: "gateway \<Rightarrow> gateway \<Rightarrow> bool" where
  control: "netd_step g (snd (serve_control_msg SetSandbox DelSandbox m g))"
| attach: "netd_step g (snd (authenticateGuest conn g))"
| detach: "netd_step g (removePort p g)"
| flow: "netd_step g (snd (stateFor now src g))"
| dns: "netd_step g (g\<lparr>gw_names := (gw_names g)(i := snd (answerDNS now q up pol (gw_names g i)))\<rparr>)"

inductive netd_reach :: "gateway \<Rightarrow> bool" where
  start: "NewGateway gwIP n m hosts svcs = Inr g \<Longrightarrow> netd_reach g"
| step: "netd_reach g \<Longrightarrow> netd_step g g' \<Longrightarrow> netd_reach g'"

lemma netd_step_inv [invariants]: "netd_step g g' \<Longrightarrow> gw_inv g \<Longrightarrow> gw_inv g'"
proof (induction rule: netd_step.induct)
  case (control g m)
  then show ?case by (rule netd.serve_msg_inv)
next
  case (attach g conn)
  show ?case
    by (rule gw_inv_cong [OF attach])
      (auto simp: authenticateGuest_def AddGuest_def Let_def split: prod.splits sum.splits option.splits)
next
  case (detach g p)
  show ?case by (rule gw_inv_cong [OF detach]) (auto simp: removePort_def)
next
  case (flow g now src)
  show ?case by (rule gw_inv_cong [OF flow]) (auto simp: stateFor_def split: option.splits)
next
  case (dns g i now q up pol)
  show ?case by (rule gw_inv_cong [OF dns]) auto
qed

lemma netd_reach_inv: "netd_reach g \<Longrightarrow> gw_inv g"
  by (induction rule: netd_reach.induct) (auto intro: NewGateway_inv invariants)

lemma stateFor_pol:
  assumes "gw_inv g"
  shows "sealed g (state_pol g (fst (stateFor now src g)))"
  using assms gw_guestsD(5) [OF assms]
  by (auto simp: stateFor_def state_pol_def defPol_def sealed_def zero_policy_def split: option.splits)

lemma own_contains: "Contains (own_subnet gwIP) (Addr4 v) \<longleftrightarrow> drop_bit 8 v = drop_bit 8 gwIP"
  by (simp add: own_subnet_def)

lemma other_owner_hard_denied:
  assumes "bars_others gwIP (ExtraHardDeny pol)"
    and "drop_bit 22 v = drop_bit 22 (0x64400000 :: 32 word)" and "drop_bit 8 v \<noteq> drop_bit 8 gwIP"
  shows "Check pol host (Addr4 v) = Deny HardDenied" "CheckTCP pol host (Addr4 v, port) = Deny HardDenied"
    "\<not> resolverAllowed (Addr4 v) (Some pol)"
proof -
  obtain r where r: "r \<in> set (ExtraHardDeny pol)" "Contains r (Addr4 v)" "\<not> IsSingleIP r"
    using assms by (auto simp: bars_others_def)
  then have "r \<in> set (withoutAddr (ExtraHardDeny pol) a)" for a by (auto simp: withoutAddr_def)
  with r have "classify (Addr4 v) (ExtraHardDeny pol) = classHardDeny"
    "classify (Addr4 v) (withoutAddr (ExtraHardDeny pol) a) = classHardDeny" for a
    by (auto simp: classify_def Let_def list_ex_iff)
  then show "Check pol host (Addr4 v) = Deny HardDenied" "CheckTCP pol host (Addr4 v, port) = Deny HardDenied"
    "\<not> resolverAllowed (Addr4 v) (Some pol)"
    by (auto simp: Check_def CheckTCP_def check_def Let_def resolverAllowed_def AllowAllEgress_def)
qed

section \<open>Properties\<close>

text \<open>
  C3: tenants are isolated. In every state a gateway can reach, whatever policies the daemon
  pushed and whatever host services it opened, a flow from any source to an address of the
  owners' pool 100.64/10 outside this owner's /24 is dropped, over TCP, over UDP and over DNS.
\<close>

theorem tenant_isolation:
  assumes "netd_reach g"
    and "drop_bit 22 dst = drop_bit 22 (0x64400000 :: 32 word)" and "drop_bit 8 dst \<noteq> drop_bit 8 (gw_ip g)"
  shows "forwardTCP now g src dst port = Drop \<and> forwardUDP now g src dst port = Drop"
proof -
  from assms(1) have inv: "gw_inv g" by (rule netd_reach_inv)
  let ?pol = "state_pol g (fst (stateFor now src g))"
  have net: "gw_subnet g = own_subnet (gw_ip g)" "bars_others (gw_ip g) (gw_hardDeny g)"
    using inv by (auto simp: gw_inv_def net_inv_def)
  have "bars_others (gw_ip g) (ExtraHardDeny ?pol)"
    using stateFor_pol [OF inv] bars_others_mono [OF net(2)] by (auto simp: sealed_def)
  note denied = other_owner_hard_denied [OF this assms(2,3)]
  have "\<not> isSibling g dst" using assms(3) by (simp add: isSibling_def net own_contains)
  with denied show ?thesis
    by (simp add: forwardTCP_def forwardUDP_def vet_def has_prefix_def Let_def)
qed

lemma reach_example:
  "netd_reach (case NewGateway 0x64400501 24 [82, 84, 0, 0, 0, 1] [Prefix (Addr4 0xcb007107) 32] [] of Inr g \<Rightarrow> g)"
  by (rule netd_reach.start [of "0x64400501" 24 "[82, 84, 0, 0, 0, 1]" "[Prefix (Addr4 0xcb007107) 32]" "[]"])
    (simp add: NewGateway_def ownerGuestPool_def Let_def)

lemma tenant_isolation_witness:
  defines "g \<equiv> (case NewGateway 0x64400501 24 [82, 84, 0, 0, 0, 1] [Prefix (Addr4 0xcb007107) 32] [] of Inr g \<Rightarrow> g)"
  shows "forwardTCP 0 g 0x64400502 0x64400602 22 = Drop \<and> forwardUDP 0 g 0x64400502 0x64400602 22 = Drop"
proof (rule tenant_isolation)
  show "netd_reach g" unfolding g_def by (rule reach_example)
  show "drop_bit 22 (0x64400602 :: 32 word) = drop_bit 22 (0x64400000 :: 32 word)" by simp
  show "drop_bit 8 (0x64400602 :: 32 word) \<noteq> drop_bit 8 (gw_ip g)"
    by (simp add: g_def NewGateway_def ownerGuestPool_def Let_def)
qed

text \<open>
  An attachment secret identifies one guest. In every reachable state the two registration
  tables are inverse to each other: each registered address is reached by its own secret, each
  secret by its own address, two addresses never share a secret, and every registered address
  lies in the owner's subnet and is neither the gateway nor the network or broadcast address.
\<close>

theorem registration_bijection:
  assumes "netd_reach g"
  shows "(gw_guests g v = Some st \<longleftrightarrow> gs_ip st = v \<and> gw_tokens g (gs_token st) = Some st) \<and>
    (gw_guests g v = Some st \<and> gw_guests g v' = Some st' \<and> gs_token st = gs_token st' \<longrightarrow> v = v') \<and>
    (gw_guests g v = Some st \<longrightarrow> drop_bit 8 v = drop_bit 8 (gw_ip g) \<and> v \<noteq> gw_ip g \<and>
       Addr4 v \<noteq> prefix_addr (gw_subnet g) \<and> Addr4 v \<noteq> lastAddr (gw_subnet g))"
proof -
  from assms have inv: "gw_inv g" by (rule netd_reach_inv)
  then have "gw_subnet g = own_subnet (gw_ip g)" by (simp add: gw_inv_def net_inv_def)
  with gw_guestsD [OF inv] gw_tokensD [OF inv] gw_token_unique [OF inv] show ?thesis
    by (auto simp: guest_ip_ok_def own_contains)
qed

text \<open>A gateway with one registered guest, for the examples: the daemon's \<^verbatim>\<open>set\<close> message applied.\<close>

definition example_token :: string where
  "example_token = concat (replicate 32 ''a7'')"

definition example_msg :: control_msg where
  "example_msg = \<lparr>m_Op = ''set'', m_GuestIP = ''100.64.5.2'', m_GuestMAC = ''52:54:00:00:05:02'',
     m_GuestToken = example_token, m_Sandbox = ''sb1'',
     m_Policy = Some \<lparr>w_Default = ''deny'', w_Siblings = [], w_AllowHosts = [''api.stripe.com''], w_AllowCIDRs = []\<rparr>\<rparr>"

definition stripe_only :: egress_policy where
  "stripe_only = zero_policy\<lparr>AllowHosts := [\<lparr>hp_exact = ''api.stripe.com'', hp_suffix = []\<rparr>]\<rparr>"

definition example_gw :: gateway where
  "example_gw = snd (serve_control_msg SetSandbox DelSandbox example_msg
     (case NewGateway 0x64400501 24 [82, 84, 0, 0, 0, 1] [Prefix (Addr4 0xcb007107) 32] [] of Inr g \<Rightarrow> g))"

lemma example_gw_reach: "netd_reach example_gw"
  unfolding example_gw_def by (rule netd_reach.step [OF reach_example netd_step.control])

lemma example_gw_guest:
  "map_option (\<lambda>st. (gs_ip st, gs_mac st, gs_token st)) (gw_guests example_gw 0x64400502)
     = Some (0x64400502, [82, 84, 0, 0, 5, 2], example_token)"
  by code_simp

lemma registration_bijection_witness:
  "\<exists>st. gw_guests example_gw 0x64400502 = Some st \<and>
    (gw_guests example_gw 0x64400502 = Some st \<longleftrightarrow>
       gs_ip st = 0x64400502 \<and> gw_tokens example_gw (gs_token st) = Some st) \<and>
    drop_bit 8 (0x64400502 :: 32 word) = drop_bit 8 (gw_ip example_gw)"
proof -
  obtain st where "gw_guests example_gw 0x64400502 = Some st" using example_gw_guest by auto
  with registration_bijection [OF example_gw_reach, of "0x64400502" st "0x64400502" st] show ?thesis by auto
qed

text \<open>
  C5: a guest cannot borrow another guest's policy. A frame that passes the ingress filter comes
  from the link whose attachment secret is registered, carries that registration's MAC as its
  source, and is an IPv4 packet or an ARP announcement whose sender address is the registered
  one, so the policy looked up by that source address is the policy of the sandbox holding the
  secret. Every IPv6 and every other frame is dropped.
\<close>

theorem ingress_not_spoofed:
  assumes "netd_reach g" and "allowIngress hx g p frame"
  shows "\<exists>st. gw_tokens g (gp_token p) = Some st \<and> eth_src hx frame = gs_mac st \<and>
    fst (stateFor now (gp_ip p) g) = Some st \<and>
    (eth_type hx frame = 0x0800 \<and> ipv4_src hx (drop 14 frame) = gs_ip st \<or>
     eth_type hx frame = 0x0806 \<and> arp_sender_ip hx (drop 14 frame) = gs_ip st \<and>
       arp_sender_mac hx (drop 14 frame) = gs_mac st)"
proof -
  from assms(1) have inv: "gw_inv g" by (rule netd_reach_inv)
  from assms(2) obtain st where st: "gw_guests g (gp_ip p) = Some st" "gs_token st = gp_token p" "gs_mac st = gp_mac p"
    by (auto simp: allowIngress_def portActive_def split: option.splits)
  with gw_guestsD [OF inv st(1)] assms(2) show ?thesis
    by (intro exI [of _ st]) (auto simp: allowIngress_def stateFor_def Let_def split: if_splits)
qed

text \<open>The IPv4 and ARP layouts, to evaluate the filter on a concrete frame.\<close>

definition rfc_hdr :: frame_hdr where
  "rfc_hdr = \<lparr>eth_src = (\<lambda>f. take 6 (drop 6 f)),
     eth_type = (\<lambda>f. case be_uint16 (drop 12 f) of None \<Rightarrow> 0 | Some w \<Rightarrow> unat w),
     ipv4_src = (\<lambda>b. case be_uint32 (drop 12 b) of None \<Rightarrow> 0 | Some w \<Rightarrow> w),
     arp_valid = (\<lambda>b. take 6 b = [0, 1, 8, 0, 6, 4]),
     arp_sender_mac = (\<lambda>b. take 6 (drop 8 b)),
     arp_sender_ip = (\<lambda>b. case be_uint32 (drop 14 b) of None \<Rightarrow> 0 | Some w \<Rightarrow> w)\<rparr>"

definition example_port :: guest_port where
  "example_port = \<lparr>gp_id = 7, gp_ip = 0x64400502, gp_mac = [82, 84, 0, 0, 5, 2], gp_token = example_token\<rparr>"

definition example_frame :: bytes where
  "example_frame = replicate 6 255 @ [82, 84, 0, 0, 5, 2] @ [8, 0] @ replicate 12 0 @ [100, 64, 5, 2] @ replicate 4 0"

lemma ingress_not_spoofed_witness:
  "\<exists>st. gw_tokens example_gw (gp_token example_port) = Some st \<and> eth_src rfc_hdr example_frame = gs_mac st \<and>
    fst (stateFor 0 (gp_ip example_port) example_gw) = Some st \<and>
    (eth_type rfc_hdr example_frame = 0x0800 \<and> ipv4_src rfc_hdr (drop 14 example_frame) = gs_ip st \<or>
     eth_type rfc_hdr example_frame = 0x0806 \<and> arp_sender_ip rfc_hdr (drop 14 example_frame) = gs_ip st \<and>
       arp_sender_mac rfc_hdr (drop 14 example_frame) = gs_mac st)"
  by (rule ingress_not_spoofed [OF example_gw_reach]) code_simp

text \<open>
  Revocation cuts a guest off at once. After the daemon deletes an address, or registers it
  again under another secret, no frame from a port attached under the old registration passes the
  ingress filter, and nothing the stack emits, unicast or broadcast, is written to that port.
\<close>

theorem revoked_port_is_dead:
  assumes "ParseAddr guestIP = Some (Addr4 (gp_ip p))"
    and "g' = DelSandbox guestIP g \<or>
         (\<exists>sb pol m tok. SetSandbox guestIP sb pol m tok g = (None, g') \<and> tok \<noteq> gp_token p)"
  shows "\<not> allowIngress hx g' p frame \<and> p \<notin> set (stackOut g' dst)"
proof -
  have "\<not> portActive g' p" using assms(2)
  proof
    assume "g' = DelSandbox guestIP g"
    with assms(1) show ?thesis by (simp add: DelSandbox_def portActive_def)
  next
    assume "\<exists>sb pol m tok. SetSandbox guestIP sb pol m tok g = (None, g') \<and> tok \<noteq> gp_token p"
    then obtain sb pol m tok where set: "SetSandbox guestIP sb pol m tok g = (None, g')" "tok \<noteq> gp_token p" by blast
    then obtain v hw where id: "guest_identity g guestIP m tok = Inr (v, hw)"
      by (auto simp: SetSandbox_def split: sum.splits)
    with assms(1) have "v = gp_ip p" by (auto dest: guest_identity_Inr)
    with set id show ?thesis by (auto simp: SetSandbox_def portActive_def Let_def split: if_splits)
  qed
  then show ?thesis
    by (auto simp: allowIngress_def stackOut_def flood_def split: option.splits)
qed

lemma revoked_port_is_dead_witness:
  "\<not> allowIngress rfc_hdr (DelSandbox ''100.64.5.2'' example_gw) example_port example_frame \<and>
   example_port \<notin> set (stackOut (DelSandbox ''100.64.5.2'' example_gw) [82, 84, 0, 0, 5, 2])"
  by (rule revoked_port_is_dead [where guestIP = "''100.64.5.2''" and g = example_gw]) (code_simp, simp)

text \<open>
  The control channel fails closed. After a \<^verbatim>\<open>set\<close> for an address, the policy in force is
  the one this message carries, or, when it carries none or a malformed one, a policy that denies
  every destination, or, when the registration is refused, none at all (and then every flow from
  the address gets netd's deny fallback). A policy pushed earlier never survives.
\<close>

theorem control_set_fails_closed:
  assumes "m_Op m = ''set''" and "serve_control_msg SetSandbox DelSandbox m g = (r, g')"
  shows "(r_Error r = None \<longrightarrow>
      guest_policy g' (m_GuestIP m) = Some (seal_policy g (message_policy (m_Policy m)))) \<and>
    (r_Error r \<noteq> None \<longrightarrow> guest_policy g' (m_GuestIP m) = None) \<and>
    ((\<forall>w. m_Policy m = Some w \<longrightarrow> \<not> is_ok (PolicyFromWire w)) \<longrightarrow>
       (\<forall>pol host ip. guest_policy g' (m_GuestIP m) = Some pol \<longrightarrow> \<not> allows (Check pol host ip)))"
proof -
  have 1: "case r_Error r of
      None \<Rightarrow> guest_policy g' (m_GuestIP m) = Some (seal_policy g (message_policy (m_Policy m)))
    | Some _ \<Rightarrow> guest_policy g' (m_GuestIP m) = None"
    by (rule netd.set_msg_fail_closed [OF assms])
  have 2: "message_policy (m_Policy m) = zero_policy"
    if bad: "\<forall>w. m_Policy m = Some w \<longrightarrow> \<not> is_ok (PolicyFromWire w)"
  proof (cases "m_Policy m")
    case (Some w)
    with bad show ?thesis by (cases "PolicyFromWire w") (auto simp: message_policy_def)
  qed (simp add: message_policy_def)
  have 3: "\<not> allows (Check (seal_policy g zero_policy) host ip)" for host ip
    using zero_policy_denies [where s = "gw_subnet g"] by (simp add: seal_policy_def zero_policy_def)
  from 1 2 3 show ?thesis by (auto split: option.splits)
qed

lemma control_set_fails_closed_witness:
  "\<exists>pol. guest_policy (snd (serve_control_msg SetSandbox DelSandbox (example_msg\<lparr>m_Policy := None\<rparr>) example_gw)) ''100.64.5.2''
        = Some pol \<and> (\<forall>host ip. \<not> allows (Check pol host ip))"
proof -
  have "r_Error (fst (serve_control_msg SetSandbox DelSandbox (example_msg\<lparr>m_Policy := None\<rparr>) example_gw)) = None"
    by code_simp
  then show ?thesis
    using control_set_fails_closed [of "example_msg\<lparr>m_Policy := None\<rparr>" example_gw, OF _ prod.collapse [symmetric]]
    by (simp add: example_msg_def)
qed

section \<open>The name cache\<close>

lemma length_update: "length (AList.update k v c) = (if k \<in> fst ` set c then length c else Suc (length c))"
  by (induction c) auto

lemma names_put_bound: "length c \<le> nameCacheLimit \<Longrightarrow> length (names_put now ip host ttl c) \<le> nameCacheLimit"
  using length_filter_le [of "\<lambda>(k, e). \<not> now > ne_exp e" c]
  by (auto simp: names_put_def Let_def length_update nameCacheLimit_def)

lemma recordAnswers_bound: "length c \<le> nameCacheLimit \<Longrightarrow> length (recordAnswers now rs asked c) \<le> nameCacheLimit"
  by (induction now rs asked c rule: recordAnswers.induct) (auto intro: names_put_bound)

lemma names_put_lookup:
  "names_lookup now' ip (names_put now ip host ttl c) =
     (if now' > now + min (max ttl nameTTLMin) nameTTLMax then [] else host)"
  by (simp add: names_lookup_def names_put_def update_conv' Let_def)

lemma names_put_lookup_other:
  assumes "Unmap ip' \<noteq> Unmap ip" and "names_lookup now' ip' (names_put now ip host ttl c) \<noteq> []"
    and "distinct (map fst c)"
  shows "names_lookup now' ip' (names_put now ip host ttl c) = names_lookup now' ip' c"
proof -
  let ?live = "filter (\<lambda>(k, e). \<not> now > ne_exp e) c"
  have "map_of ?live k = Some e \<Longrightarrow> map_of c k = Some e" for k e
    using assms(3) by (auto simp: distinct_map_filter map_of_eq_Some_iff)
  with assms(1,2) show ?thesis
    by (auto simp: names_lookup_def names_put_def update_conv' Let_def split: option.splits if_splits)
qed

text \<open>
  The name cache stays bounded and honest about time. However many answers are recorded, a
  guest's cache holds at most \<open>nameCacheLimit\<close> addresses; a recorded address maps to the name asked
  for during at least thirty seconds and at most one hour, and to no name afterwards.
\<close>

theorem name_cache_bounded_ttl:
  assumes "length c \<le> nameCacheLimit"
  shows "length (recordAnswers now rs asked c) \<le> nameCacheLimit \<and>
    (now' \<le> now + 30 * second \<longrightarrow> names_lookup now' ip (names_put now ip asked ttl c) = asked) \<and>
    (now' > now + 3600 * second \<longrightarrow> names_lookup now' ip (names_put now ip asked ttl c) = [])"
  using recordAnswers_bound [OF assms]
  by (auto simp: names_put_lookup nameTTLMin_def nameTTLMax_def second_def)

lemma name_cache_bounded_ttl_witness:
  "length (recordAnswers 0 [(Addr4 1, 5)] ''a.b'' []) \<le> nameCacheLimit \<and>
    names_lookup 1 (Addr4 1) (names_put 0 (Addr4 1) ''a.b'' 5 []) = ''a.b'' \<and>
    names_lookup (3601 * second) (Addr4 1) (names_put 0 (Addr4 1) ''a.b'' 5 []) = []"
  using name_cache_bounded_ttl [of "[]" 0 "[(Addr4 1, 5)]" "''a.b''" 1 "Addr4 1" 5]
    name_cache_bounded_ttl [of "[]" 0 "[(Addr4 1, 5)]" "''a.b''" "3601 * second" "Addr4 1" 5]
  by (simp add: second_def)

text \<open>
  Under the deny posture a DNS answer is what opens an address, and any public resolver can
  give it. A guest may address its query to every public resolver; if the first question is an
  allow-listed name, each address in the answer is then reachable over TCP as that name for at least
  thirty seconds, although the policy denies the address itself. The name is checked, the
  resolver that vouches for the address is not.
\<close>

theorem dns_answer_opens_address:
  assumes "Default pol = PostureDeny" and "AllowHosts pol = [h]" and "AllowCIDRs pol = []" "HostServices pol = []"
    and "Match h q" and "q = trim_suffix q ''.''" and "q \<noteq> []"
    and "classify (Addr4 v) (ExtraHardDeny pol) = classPublic"
    and "\<not> Contains (SiblingSubnet pol) (Addr4 v)"
    and "classify resolver (ExtraHardDeny pol) = classPublic"
    and "now \<le> now'" "now' \<le> now + 30 * second"
  shows "resolverAllowed resolver (Some pol) \<and> \<not> allows (Check pol [] (Addr4 v)) \<and>
    (let c' = snd (answerDNS now (Some q) (Some [(Addr4 v, ttl)]) pol c) in
     allows (vet pol ''tcp'' (names_lookup now' (Addr4 v) c') (Addr4 v) port))"
proof -
  have name: "hostAllowed pol q" using assms(2,5) by (simp add: hostAllowed_def)
  let ?c = "snd (answerDNS now (Some q) (Some [(Addr4 v, ttl)]) pol c)"
  have "?c = names_put now (Addr4 v) q (ttl * second) c"
    using name assms(6) [symmetric] by (simp add: answerDNS_def AllowsName_def)
  then have "names_lookup now' (Addr4 v) ?c = q"
    using assms(12) by (auto simp: names_put_lookup nameTTLMin_def nameTTLMax_def second_def min_def max_def)
  moreover have "Check pol q (Addr4 v) = Allow AllowHost"
    using assms(3,7,8,9) name by (simp add: Check_def check_def Let_def cidrsContain_def)
  moreover have "Check pol [] (Addr4 v) = Deny NotAllowListed"
    using assms(1,3,8,9) by (simp add: Check_def check_def Let_def cidrsContain_def)
  moreover have "resolverAllowed resolver (Some pol)"
    using assms(10) by (simp add: resolverAllowed_def AllowAllEgress_def zero_policy_def Check_def check_def
        Let_def cidrsContain_def)
  ultimately show ?thesis
    using assms(4) by (simp add: Let_def vet_def has_prefix_def CheckTCP_def Check_def)
qed

lemma dns_answer_opens_address_witness:
  "resolverAllowed (Addr4 0x06060606) (Some stripe_only) \<and> \<not> allows (Check stripe_only [] (Addr4 0x06060607)) \<and>
    (let c' = snd (answerDNS 0 (Some ''api.stripe.com'') (Some [(Addr4 0x06060607, 60)]) stripe_only []) in
     allows (vet stripe_only ''tcp'' (names_lookup 1 (Addr4 0x06060607) c') (Addr4 0x06060607) 443))"
proof (rule dns_answer_opens_address)
  show "Match \<lparr>hp_exact = ''api.stripe.com'', hp_suffix = []\<rparr> ''api.stripe.com''" by code_simp
  show "''api.stripe.com'' = trim_suffix ''api.stripe.com'' ''.''" by code_simp
  show "classify (Addr4 0x06060607) (ExtraHardDeny stripe_only) = classPublic"
    "classify (Addr4 0x06060606) (ExtraHardDeny stripe_only) = classPublic" by code_simp+
qed (simp_all add: stripe_only_def zero_policy_def second_def)

end
