(* ===== verification/Sql.thy ===== *)
theory Sql
  imports Bhatti_Prelude
begin

text \<open>
  The SQL statements the store issues, on tables as lists of rows in insertion order. A statement is
  one of four shapes: \<open>INSERT\<close> under the table's \<open>UNIQUE\<close> constraints, \<open>UPDATE .. WHERE\<close>,
  \<open>DELETE .. WHERE\<close> with the number of rows affected, and \<open>SELECT\<close>. A \<open>SELECT\<close> without \<open>ORDER BY\<close>
  and rows that tie on the sort key come back in insertion order, where SQLite promises no order;
  no property below depends on it. Failures of the driver itself (disk, lock timeout) are not
  modelled here: an error of a statement is a missing row or a violated constraint. \<open>ErrDriver\<close>
  stands for every other error and comes only from an implementation of an interface other than these tables. Times are
  nanoseconds as \<open>int\<close>; a float column keeps its 64-bit pattern.
\<close>

type_synonym time = int
type_synonym float64 = "64 word"

datatype sql_error = ErrNoRows | ErrUnique string | ErrDriver

text \<open>
  A constraint is the name SQLite reports and the test that two rows collide. SQLite tests the
  indexes of a table from the last declared to the first; constraint lists are written in that order.
\<close>

type_synonym 'r constraint = "string \<times> ('r \<Rightarrow> 'r \<Rightarrow> bool)"

definition sql_insert :: "'r constraint list \<Rightarrow> 'r \<Rightarrow> 'r list \<Rightarrow> sql_error + 'r list" where
  "sql_insert cs r t =
     (case find (\<lambda>(n, c). list_ex (c r) t) cs of
        Some (n, _) \<Rightarrow> Inl (ErrUnique n)
      | None \<Rightarrow> Inr (t @ [r]))"

text \<open>\<open>INSERT OR IGNORE\<close> and \<open>INSERT OR REPLACE\<close> (or \<open>ON CONFLICT DO UPDATE\<close> of every column).\<close>

definition sql_insert_ignore :: "'r constraint list \<Rightarrow> 'r \<Rightarrow> 'r list \<Rightarrow> 'r list" where
  "sql_insert_ignore cs r t = (case sql_insert cs r t of Inl _ \<Rightarrow> t | Inr t' \<Rightarrow> t')"

definition sql_insert_replace :: "'r constraint list \<Rightarrow> 'r \<Rightarrow> 'r list \<Rightarrow> 'r list" where
  "sql_insert_replace cs r t = filter (\<lambda>x. \<not> list_ex (\<lambda>(n, c). c r x) cs) t @ [r]"

fun unique_rows :: "('r \<Rightarrow> 'r \<Rightarrow> bool) \<Rightarrow> 'r list \<Rightarrow> bool" where
  "unique_rows c [] = True"
| "unique_rows c (x # xs) = ((\<forall>y \<in> set xs. \<not> c x y) \<and> unique_rows c xs)"

definition table_ok :: "'r constraint list \<Rightarrow> 'r list \<Rightarrow> bool" where
  "table_ok cs t \<longleftrightarrow> list_all (\<lambda>(n, c). unique_rows c t) cs"

definition update_rows :: "('r \<Rightarrow> bool) \<Rightarrow> ('r \<Rightarrow> 'r) \<Rightarrow> 'r list \<Rightarrow> 'r list" where
  "update_rows p f t = map (\<lambda>r. if p r then f r else r) t"

text \<open>\<open>UPDATE .. SET .. WHERE\<close>: the new table and the number of rows matched, or the violated constraint.\<close>

definition sql_update ::
  "'r constraint list \<Rightarrow> ('r \<Rightarrow> bool) \<Rightarrow> ('r \<Rightarrow> 'r) \<Rightarrow> 'r list \<Rightarrow> sql_error + ('r list \<times> nat)" where
  "sql_update cs p f t =
     (let t' = update_rows p f t in
      case find (\<lambda>(n, c). \<not> unique_rows c t') cs of
        Some (n, _) \<Rightarrow> Inl (ErrUnique n)
      | None \<Rightarrow> Inr (t', length (filter p t)))"

definition sql_delete :: "('r \<Rightarrow> bool) \<Rightarrow> 'r list \<Rightarrow> 'r list \<times> nat" where
  "sql_delete p t = (filter (\<lambda>r. \<not> p r) t, length (filter p t))"

definition query_row :: "('r \<Rightarrow> bool) \<Rightarrow> 'r list \<Rightarrow> sql_error + 'r" where
  "query_row p t = (case find p t of None \<Rightarrow> Inl ErrNoRows | Some r \<Rightarrow> Inr r)"

definition query_all :: "('r \<Rightarrow> bool) \<Rightarrow> 'r list \<Rightarrow> 'r list" where
  "query_all p t = filter p t"

definition order_by :: "('r \<Rightarrow> 'k :: linorder) \<Rightarrow> 'r list \<Rightarrow> 'r list" where
  "order_by k t = sort_key k t"

section \<open>Laws\<close>

lemma find_Some_D: "find p xs = Some x \<Longrightarrow> x \<in> set xs \<and> p x"
  by (auto simp: find_Some_iff)

lemma query_row_Inr: "query_row p t = Inr r \<Longrightarrow> r \<in> set t \<and> p r"
  by (auto simp: query_row_def split: option.splits dest: find_Some_D)

lemma query_row_ok_iff: "is_ok (query_row p t) \<longleftrightarrow> (\<exists>r \<in> set t. p r)"
  by (auto simp: query_row_def find_None_iff split: option.splits dest: find_Some_D)

lemma query_row_Inl_iff: "query_row p t = Inl e \<longleftrightarrow> e = ErrNoRows \<and> (\<forall>r \<in> set t. \<not> p r)"
  by (auto simp: query_row_def find_None_iff split: option.splits dest: find_Some_D)

lemma set_order_by [simp]: "set (order_by k t) = set t"
  by (simp add: order_by_def)

lemma set_query_all [simp]: "set (query_all p t) = {r \<in> set t. p r}"
  by (auto simp: query_all_def)

lemma set_update_rows: "set (update_rows p f t) = (\<lambda>r. if p r then f r else r) ` set t"
  by (simp add: update_rows_def)

lemma unique_rows_append: "unique_rows c (xs @ ys) \<longleftrightarrow>
    unique_rows c xs \<and> unique_rows c ys \<and> (\<forall>x \<in> set xs. \<forall>y \<in> set ys. \<not> c x y)"
  by (induction xs) auto

lemma unique_rows_filter: "unique_rows c t \<Longrightarrow> unique_rows c (filter p t)"
  by (induction t) auto

lemma unique_rows_D:
  assumes "unique_rows c t" "x \<in> set t" "y \<in> set t" "c x y" "\<And>x y. c x y \<Longrightarrow> c y x"
  shows "x = y"
  using assms(1-4) by (induction t) (auto dest: assms(5))

lemma query_row_unique:
  assumes "unique_rows c t" "r \<in> set t" "p r" "\<And>x y. c x y \<Longrightarrow> c y x"
    and "\<And>x. x \<in> set t \<Longrightarrow> p x \<Longrightarrow> c r x"
  shows "query_row p t = Inr r"
proof -
  obtain x where x: "find p t = Some x"
    using assms(2,3) by (cases "find p t") (auto simp: find_None_iff)
  with assms unique_rows_D [OF assms(1,2), of x] have "x = r" by (auto dest: find_Some_D)
  with x show ?thesis by (simp add: query_row_def)
qed

lemma sql_delete_none: "(\<And>r. r \<in> set t \<Longrightarrow> \<not> p r) \<Longrightarrow> sql_delete p t = (t, 0)"
  by (simp add: sql_delete_def filter_id_conv filter_empty_conv)

lemma snd_sql_delete_0: "snd (sql_delete p t) = 0 \<longleftrightarrow> (\<forall>r \<in> set t. \<not> p r)"
  by (simp add: sql_delete_def filter_empty_conv)

lemma sql_insert_Inr: "sql_insert cs r t = Inr t' \<Longrightarrow> t' = t @ [r]"
  by (auto simp: sql_insert_def split: option.splits)

text \<open>
  The contract of a table with constraints: every statement keeps its rows pairwise free of
  collisions. The statements keep it whatever the rows are, so long as colliding is symmetric.
\<close>

locale sql_table =
  fixes cs :: "'r constraint list"
  assumes sym: "(n, c) \<in> set cs \<Longrightarrow> c x y \<Longrightarrow> c y x"
begin

lemma insert_ok:
  assumes "table_ok cs t" and "sql_insert cs r t = Inr t'"
  shows "table_ok cs t' \<and> t' = t @ [r]"
proof -
  have none: "find (\<lambda>(n, c). list_ex (c r) t) cs = None" and t': "t' = t @ [r]"
    using assms(2) by (auto simp: sql_insert_def split: option.splits)
  have "\<not> c x r" if "(n, c) \<in> set cs" "x \<in> set t" for n c x
    using none that sym [OF that(1), of x r] by (auto simp: find_None_iff list_ex_iff)
  with assms(1) t' show ?thesis
    by (auto simp: table_ok_def list_all_iff unique_rows_append)
qed

lemma update_ok:
  assumes "sql_update cs p f t = Inr (t', n)"
  shows "table_ok cs t' \<and> t' = update_rows p f t \<and> n = length (filter p t)"
proof -
  have "find (\<lambda>(n, c). \<not> unique_rows c (update_rows p f t)) cs = None"
    and t': "t' = update_rows p f t" "n = length (filter p t)"
    using assms by (auto simp: sql_update_def Let_def split: option.splits)
  then show ?thesis by (auto simp: table_ok_def list_all_iff find_None_iff)
qed

lemma delete_ok: "table_ok cs t \<Longrightarrow> table_ok cs (fst (sql_delete p t))"
  by (auto simp: table_ok_def list_all_iff sql_delete_def intro: unique_rows_filter)

lemma filter_ok: "table_ok cs t \<Longrightarrow> table_ok cs (filter p t)"
  by (auto simp: table_ok_def list_all_iff intro: unique_rows_filter)

lemma insert_ignore_ok: "table_ok cs t \<Longrightarrow> table_ok cs (sql_insert_ignore cs r t)"
  by (auto simp: sql_insert_ignore_def dest: insert_ok split: sum.splits)

lemma insert_replace_ok:
  assumes "table_ok cs t"
  shows "table_ok cs (sql_insert_replace cs r t)"
proof -
  have "\<not> c x r" if "(n, c) \<in> set cs" "\<not> list_ex (\<lambda>(n, c). c r x) cs" for n c x
    using that sym [OF that(1), of x r] by (auto simp: list_ex_iff)
  with filter_ok [OF assms] show ?thesis
    by (fastforce simp: table_ok_def list_all_iff sql_insert_replace_def unique_rows_append)
qed

lemma update_preserving_ok:
  assumes "table_ok cs t"
    and "\<And>n c x y. (n, c) \<in> set cs \<Longrightarrow> c (g x) (g y) \<Longrightarrow> c x y"
  shows "table_ok cs (map g t)"
proof -
  have "unique_rows c t \<Longrightarrow> (\<And>x y. c (g x) (g y) \<Longrightarrow> c x y) \<Longrightarrow> unique_rows c (map g t)" for c
    by (induction t) auto
  with assms show ?thesis by (fastforce simp: table_ok_def list_all_iff)
qed

end

end
