(* ===== verification/Store.thy ===== *)
theory Store
  imports Sql
begin

text \<open>
  The database of \<^verbatim>\<open>src/pkg/store\<close>: one record per Go struct that is a row, the tables of
  \<open>store.New\<close> with their \<open>UNIQUE\<close> constraints, and the record \<open>db\<close> of all tables. Columns that hold
  JSON (labels, hosts) hold the decoded value: every writer marshals it and every reader unmarshals
  it. Raw JSON that the store only passes through is a string. The operations are in
  \<open>Sandboxes\<close>, \<open>Grants\<close>, \<open>Volumes\<close>, \<open>Catalog\<close> and \<open>Events\<close>.
\<close>

section \<open>Rows\<close>

text \<open>\<open>sb_restart_pending\<close> is a column of the table that is no field of the Go struct.\<close>

record Sandbox =
  sb_ID :: string
  sb_Name :: string
  sb_TemplateID :: string
  sb_EngineID :: string
  sb_Status :: string
  sb_IP :: string
  sb_EngineMeta :: string
  sb_NetPolicy :: string
  sb_CreatedBy :: string
  sb_CreatedAt :: time
  sb_StoppedAt :: "time option"
  sb_KeepHot :: bool
  sb_HasInit :: bool
  sb_ShellTokenHash :: string
  sb_CPUs :: float64
  sb_MemoryMB :: int
  sb_DiskSizeMB :: int
  sb_Image :: string
  sb_Labels :: "(string \<times> string) list"
  sb_restart_pending :: bool

record SecretRow =
  sec_UserID :: string
  sec_Name :: string
  sec_Value :: bytes
  sec_CreatedAt :: time
  sec_UpdatedAt :: time

record SecretGrant =
  g_ID :: string
  g_UserID :: string
  g_SecretName :: string
  g_SandboxID :: string
  g_Hosts :: "string list"
  g_Placeholder :: string
  g_CreatedAt :: time
  g_ExpiresAt :: "time option"
  g_RevokedAt :: "time option"

record SandboxCA =
  ca_SandboxID :: string
  ca_UserID :: string
  ca_CertPEM :: string
  ca_KeyEnc :: bytes
  ca_CreatedAt :: time

record SnapshotGrant =
  sg_SecretName :: string
  sg_Hosts :: "string list"
  sg_Placeholder :: string
  sg_ExpiresAt :: "time option"

record SnapshotSubstitution =
  sub_CA :: "SandboxCA option"
  sub_Grants :: "SnapshotGrant list"

record SnapshotSource =
  src_Image :: string
  src_DiskSizeMB :: int
  src_HasInit :: bool

record SnapshotRecord =
  snap_ID :: string
  snap_UserID :: string
  snap_Name :: string
  snap_SourceSandbox :: string
  snap_MemPath :: string
  snap_VMPath :: string
  snap_RootfsPath :: string
  snap_ConfigPath :: string
  snap_ManifestJSON :: string
  snap_SizeMB :: int
  snap_CreatedAt :: time
  snap_SourceRecordedAt :: "time option"
  snap_Source :: SnapshotSource
  snap_Substitution :: SnapshotSubstitution

record Volume =
  v1_Name :: string
  v1_CreatedAt :: time

record SandboxVolume =
  sv_SandboxID :: string
  sv_VolumeName :: string
  sv_Target :: string
  sv_ReadOnly :: bool

record PersistentVolume =
  v_ID :: string
  v_UserID :: string
  v_Name :: string
  v_SizeMB :: int
  v_Status :: string
  v_FilePath :: string
  v_CreatedAt :: time

text \<open>A row of \<open>volume_attachments\<close>: the Go struct \<open>VolumeAttachment\<close> with the volume it belongs to.\<close>

record VolumeAttachment =
  va_VolumeID :: string
  va_SandboxID :: string
  va_Mount :: string
  va_ReadOnly :: bool

record VolumeBackup =
  b_ID :: string
  b_VolumeName :: string
  b_UserID :: string
  b_S3Key :: string
  b_SizeBytes :: int
  b_SHA256 :: string
  b_ConsistencyMode :: string
  b_CreatedAt :: time

record User =
  u_ID :: string
  u_Name :: string
  u_APIKeyHash :: string
  u_MaxSandboxes :: int
  u_MaxCPUsPerSandbox :: int
  u_MaxMemoryMBPerSandbox :: int
  u_SubnetIndex :: int
  u_MaxVolumeStorageMB :: int
  u_MaxImages :: int
  u_MaxSnapshots :: int
  u_CreatedAt :: time

record ImageRecord =
  img_ID :: string
  img_UserID :: string
  img_Name :: string
  img_Source :: string
  img_FilePath :: string
  img_SizeMB :: int
  img_OCIDigest :: string
  img_OCIConfigJSON :: string
  img_CreatedAt :: time

record PublishRule =
  pr_ID :: string
  pr_SandboxID :: string
  pr_UserID :: string
  pr_Port :: int
  pr_Alias :: string
  pr_CreatedAt :: time

record TaskRecord =
  t_ID :: string
  t_UserID :: string
  t_Type :: string
  t_Status :: string
  t_Progress :: string
  t_ResultJSON :: string
  t_Error :: string
  t_CreatedAt :: time
  t_CompletedAt :: "time option"

record TemplateMountSpec =
  tm_VolumeName :: string
  tm_Target :: string
  tm_ReadOnly :: bool
  tm_AutoCreate :: bool

record Template =
  tpl_ID :: string
  tpl_Name :: string
  tpl_Engine :: string
  tpl_Image :: string
  tpl_CPUs :: float64
  tpl_MemoryMB :: int
  tpl_DiskSizeMB :: int
  tpl_UserData :: string
  tpl_Secrets :: "string list"
  tpl_Labels :: "(string \<times> string) list"
  tpl_Mounts :: "TemplateMountSpec list"
  tpl_CreatedAt :: time

text \<open>
  A row of \<open>events\<close>. The column \<open>ts\<close> is a text with milliseconds and a fixed width, so comparing texts is
  comparing the milliseconds; it holds them as a number here. The column \<open>meta\<close> is a JSON text, the field of the Go struct a value.
\<close>

record 'm Event =
  e_ID :: int
  e_Timestamp :: int
  e_Type :: string
  e_UserID :: string
  e_SandboxID :: string
  e_Meta :: 'm

section \<open>Tables\<close>

text \<open>
  A row of \<open>snapshot_cas\<close> is the snapshot and its CA; one of \<open>snapshot_grants\<close> the snapshot, the
  owner and the grant. The \<open>snapshots\<close> table keeps neither, so its rows have an empty
  \<open>snap_Substitution\<close>; \<open>GetSnapshot\<close> fills it in. \<open>events_seq\<close> is the counter of the \<open>AUTOINCREMENT\<close>
  column of \<open>events\<close>.
\<close>

record db =
  users :: "User list"
  sandboxes :: "Sandbox list"
  secrets :: "SecretRow list"
  secret_grants :: "SecretGrant list"
  sandbox_cas :: "SandboxCA list"
  snapshots :: "SnapshotRecord list"
  snapshot_cas :: "(string \<times> SandboxCA) list"
  snapshot_grants :: "(string \<times> string \<times> SnapshotGrant) list"
  volumes :: "Volume list"
  sandbox_volumes :: "SandboxVolume list"
  volumes_v2 :: "PersistentVolume list"
  volume_attachments :: "VolumeAttachment list"
  volume_backups :: "VolumeBackup list"
  images :: "ImageRecord list"
  image_shares :: "(string \<times> string) list"
  publish_rules :: "PublishRule list"
  tasks :: "TaskRecord list"
  templates :: "Template list"
  events :: "string Event list"
  events_seq :: int

definition empty_db :: db where
  "empty_db = \<lparr>users = [], sandboxes = [], secrets = [], secret_grants = [], sandbox_cas = [], snapshots = [],
     snapshot_cas = [], snapshot_grants = [], volumes = [], sandbox_volumes = [], volumes_v2 = [],
     volume_attachments = [], volume_backups = [], images = [], image_shares = [], publish_rules = [], tasks = [],
     templates = [], events = [], events_seq = 0\<rparr>"

text \<open>The errors the operations build themselves, and the ones they pass on from a statement.\<close>

datatype store_error =
    SqlErr sql_error
  | NotFound string
  | InUse string nat
  | BeingCreated string
  | AlreadyAttached string nat nat
  | ReadWriteAttached string
  | AliasTaken string
  | PortPublished int
  | HasSandboxes nat
  | HasSecrets nat
  | InvalidTotal int
  | InvalidMaximum int

fun sql_result :: "sql_error + 'a \<Rightarrow> store_error + 'a" where
  "sql_result (Inl e) = Inl (SqlErr e)"
| "sql_result (Inr a) = Inr a"

lemma sql_result_Inr_iff [simp]: "sql_result r = Inr a \<longleftrightarrow> r = Inr a"
  by (cases r) auto

text \<open>The state after an operation: the new one, or the old one when it returned an error.\<close>

definition after :: "'d \<Rightarrow> 'e + 'd \<Rightarrow> 'd" where
  "after d r = (case r of Inl _ \<Rightarrow> d | Inr d' \<Rightarrow> d')"

lemma afterI: "P d \<Longrightarrow> (\<And>d'. r = Inr d' \<Longrightarrow> P d') \<Longrightarrow> P (after d r)"
  by (cases r) (auto simp: after_def)

section \<open>Constraints\<close>

text \<open>Two rows collide on a key.\<close>

definition same :: "('r \<Rightarrow> 'k) \<Rightarrow> 'r \<Rightarrow> 'r \<Rightarrow> bool" where
  "same k x y \<longleftrightarrow> k x = k y"

lemma same_sym [simp]: "same k x y \<longleftrightarrow> same k y x"
  by (auto simp: same_def)

text \<open>The partial index \<open>idx_sandboxes_user_name\<close> covers the rows that are not destroyed.\<close>

definition same_live_name :: "Sandbox \<Rightarrow> Sandbox \<Rightarrow> bool" where
  "same_live_name x y \<longleftrightarrow> sb_Status x \<noteq> ''destroyed'' \<and> sb_Status y \<noteq> ''destroyed'' \<and>
     sb_CreatedBy x = sb_CreatedBy y \<and> sb_Name x = sb_Name y"

definition users_cs :: "User constraint list" where
  "users_cs = [(''users.api_key_hash'', same u_APIKeyHash), (''users.name'', same u_Name), (''users.id'', same u_ID)]"

definition sandboxes_cs :: "Sandbox constraint list" where
  "sandboxes_cs = [(''sandboxes.created_by, sandboxes.name'', same_live_name), (''sandboxes.id'', same sb_ID)]"

definition secrets_cs :: "SecretRow constraint list" where
  "secrets_cs = [(''secrets.user_id, secrets.name'', same (\<lambda>s. (sec_UserID s, sec_Name s)))]"

definition secret_grants_cs :: "SecretGrant constraint list" where
  "secret_grants_cs = [(''secret_grants.sandbox_id, secret_grants.placeholder'', same (\<lambda>g. (g_SandboxID g, g_Placeholder g))),
     (''secret_grants.id'', same g_ID)]"

definition sandbox_cas_cs :: "SandboxCA constraint list" where
  "sandbox_cas_cs = [(''sandbox_cas.sandbox_id'', same ca_SandboxID)]"

definition snapshots_cs :: "SnapshotRecord constraint list" where
  "snapshots_cs = [(''snapshots.user_id, snapshots.name'', same (\<lambda>s. (snap_UserID s, snap_Name s))),
     (''snapshots.id'', same snap_ID)]"

definition snapshot_cas_cs :: "(string \<times> SandboxCA) constraint list" where
  "snapshot_cas_cs = [(''snapshot_cas.snapshot_id'', same fst)]"

definition snapshot_grants_cs :: "(string \<times> string \<times> SnapshotGrant) constraint list" where
  "snapshot_grants_cs = [(''snapshot_grants.snapshot_id, snapshot_grants.placeholder'',
     same (\<lambda>r. (fst r, sg_Placeholder (snd (snd r)))))]"

definition volumes_cs :: "Volume constraint list" where
  "volumes_cs = [(''volumes.name'', same v1_Name)]"

definition sandbox_volumes_cs :: "SandboxVolume constraint list" where
  "sandbox_volumes_cs = [(''sandbox_volumes.sandbox_id, sandbox_volumes.volume_name'',
     same (\<lambda>v. (sv_SandboxID v, sv_VolumeName v)))]"

definition volumes_v2_cs :: "PersistentVolume constraint list" where
  "volumes_v2_cs = [(''volumes_v2.user_id, volumes_v2.name'', same (\<lambda>v. (v_UserID v, v_Name v))),
     (''volumes_v2.id'', same v_ID)]"

definition volume_attachments_cs :: "VolumeAttachment constraint list" where
  "volume_attachments_cs = [(''volume_attachments.volume_id, volume_attachments.sandbox_id'',
     same (\<lambda>a. (va_VolumeID a, va_SandboxID a)))]"

definition volume_backups_cs :: "VolumeBackup constraint list" where
  "volume_backups_cs = [(''volume_backups.id'', same b_ID)]"

definition images_cs :: "ImageRecord constraint list" where
  "images_cs = [(''images.user_id, images.name'', same (\<lambda>i. (img_UserID i, img_Name i))), (''images.id'', same img_ID)]"

definition image_shares_cs :: "(string \<times> string) constraint list" where
  "image_shares_cs = [(''image_shares.image_id, image_shares.user_id'', same id)]"

definition publish_rules_cs :: "PublishRule constraint list" where
  "publish_rules_cs = [(''publish_rules.sandbox_id, publish_rules.port'', same (\<lambda>r. (pr_SandboxID r, pr_Port r))),
     (''publish_rules.alias'', same pr_Alias), (''publish_rules.id'', same pr_ID)]"

definition templates_cs :: "Template constraint list" where
  "templates_cs = [(''templates.id'', same tpl_ID)]"

definition tasks_cs :: "TaskRecord constraint list" where
  "tasks_cs = [(''tasks.id'', same t_ID)]"

lemmas constraint_defs = users_cs_def sandboxes_cs_def secrets_cs_def secret_grants_cs_def
  sandbox_cas_cs_def snapshots_cs_def snapshot_cas_cs_def snapshot_grants_cs_def volumes_cs_def
  sandbox_volumes_cs_def volumes_v2_cs_def volume_attachments_cs_def volume_backups_cs_def
  images_cs_def image_shares_cs_def publish_rules_cs_def tasks_cs_def templates_cs_def

interpretation users: sql_table users_cs
  by unfold_locales (auto simp: constraint_defs same_def)

interpretation sandboxes: sql_table sandboxes_cs
  by unfold_locales (auto simp: constraint_defs same_def same_live_name_def)

interpretation secrets: sql_table secrets_cs
  by unfold_locales (auto simp: constraint_defs same_def)

interpretation secret_grants: sql_table secret_grants_cs
  by unfold_locales (auto simp: constraint_defs same_def)

interpretation sandbox_cas: sql_table sandbox_cas_cs
  by unfold_locales (auto simp: constraint_defs same_def)

interpretation snapshots: sql_table snapshots_cs
  by unfold_locales (auto simp: constraint_defs same_def)

interpretation snapshot_cas: sql_table snapshot_cas_cs
  by unfold_locales (auto simp: constraint_defs same_def)

interpretation snapshot_grants: sql_table snapshot_grants_cs
  by unfold_locales (auto simp: constraint_defs same_def)

interpretation volumes: sql_table volumes_cs
  by unfold_locales (auto simp: constraint_defs same_def)

interpretation sandbox_volumes: sql_table sandbox_volumes_cs
  by unfold_locales (auto simp: constraint_defs same_def)

interpretation volumes_v2: sql_table volumes_v2_cs
  by unfold_locales (auto simp: constraint_defs same_def)

interpretation volume_attachments: sql_table volume_attachments_cs
  by unfold_locales (auto simp: constraint_defs same_def)

interpretation volume_backups: sql_table volume_backups_cs
  by unfold_locales (auto simp: constraint_defs same_def)

interpretation images: sql_table images_cs
  by unfold_locales (auto simp: constraint_defs same_def)

interpretation image_shares: sql_table image_shares_cs
  by unfold_locales (auto simp: constraint_defs same_def)

interpretation publish_rules: sql_table publish_rules_cs
  by unfold_locales (auto simp: constraint_defs same_def)

interpretation templates: sql_table templates_cs
  by unfold_locales (auto simp: constraint_defs same_def)

interpretation tasks: sql_table tasks_cs
  by unfold_locales (auto simp: constraint_defs same_def)

section \<open>The schema invariant\<close>

definition schema_ok :: "db \<Rightarrow> bool" where
  "schema_ok d \<longleftrightarrow> table_ok users_cs (users d) \<and> table_ok sandboxes_cs (sandboxes d) \<and>
     table_ok secrets_cs (secrets d) \<and> table_ok secret_grants_cs (secret_grants d) \<and>
     table_ok sandbox_cas_cs (sandbox_cas d) \<and> table_ok snapshots_cs (snapshots d) \<and>
     table_ok snapshot_cas_cs (snapshot_cas d) \<and> table_ok snapshot_grants_cs (snapshot_grants d) \<and>
     table_ok volumes_cs (volumes d) \<and> table_ok sandbox_volumes_cs (sandbox_volumes d) \<and>
     table_ok volumes_v2_cs (volumes_v2 d) \<and> table_ok volume_attachments_cs (volume_attachments d) \<and>
     table_ok volume_backups_cs (volume_backups d) \<and> table_ok images_cs (images d) \<and>
     table_ok image_shares_cs (image_shares d) \<and> table_ok publish_rules_cs (publish_rules d) \<and>
     table_ok tasks_cs (tasks d) \<and> table_ok templates_cs (templates d)"

lemma table_ok_Nil [simp]: "table_ok cs []"
  by (auto simp: table_ok_def list_all_iff)

lemma schema_ok_empty [invariants]: "schema_ok empty_db"
  by (simp add: schema_ok_def empty_db_def)

lemma grants_placeholder_unique:
  assumes "table_ok secret_grants_cs t" "x \<in> set t" "y \<in> set t"
    "g_SandboxID x = g_SandboxID y" "g_Placeholder x = g_Placeholder y"
  shows "x = y"
  using assms by (auto simp: table_ok_def constraint_defs same_def elim: unique_rows_D)

end
