(* ===== verification/Sandboxes.thy ===== *)
theory Sandboxes
  imports Store "HOL-Library.AList"
begin

text \<open>
  The sandboxes table, \<^verbatim>\<open>src/pkg/store/sandbox.go\<close>: every operation, then the invariants the daemon
  relies on: names unique per owner among the sandboxes that are not destroyed, and
  \<open>restart_pending\<close> set only on stopped keep_hot sandboxes.
\<close>

section \<open>Operations\<close>

text \<open>
  \<open>CreateSandbox\<close>: the columns it does not insert (\<open>stopped_at\<close>, \<open>shell_token_hash\<close>,
  \<open>restart_pending\<close>) get their defaults; a nil \<open>EngineMeta\<close> is the empty string here.
\<close>

definition CreateSandbox :: "Sandbox \<Rightarrow> db \<Rightarrow> store_error + db" where
  "CreateSandbox sb d =
     (let row = sb\<lparr>sb_EngineMeta := (if sb_EngineMeta sb = [] then ''{}'' else sb_EngineMeta sb),
                   sb_StoppedAt := None, sb_ShellTokenHash := [], sb_restart_pending := False\<rparr> in
      case sql_insert sandboxes_cs row (sandboxes d) of
        Inl e \<Rightarrow> Inl (SqlErr e)
      | Inr t \<Rightarrow> Inr (d\<lparr>sandboxes := t\<rparr>))"

definition GetSandbox :: "string \<Rightarrow> string \<Rightarrow> db \<Rightarrow> sql_error + Sandbox" where
  "GetSandbox userID idOrName d =
     (case query_row (\<lambda>sb. sb_ID sb = idOrName \<and> sb_CreatedBy sb = userID) (sandboxes d) of
        Inr sb \<Rightarrow> Inr sb
      | Inl _ \<Rightarrow> query_row (\<lambda>sb. sb_Name sb = idOrName \<and> sb_CreatedBy sb = userID) (sandboxes d))"

definition GetActiveSandboxByName :: "string \<Rightarrow> string \<Rightarrow> db \<Rightarrow> sql_error + Sandbox" where
  "GetActiveSandboxByName userID name d =
     query_row (\<lambda>sb. sb_Name sb = name \<and> sb_CreatedBy sb = userID \<and> sb_Status sb \<noteq> ''destroyed'') (sandboxes d)"

definition GetSandboxByID :: "string \<Rightarrow> db \<Rightarrow> sql_error + Sandbox" where
  "GetSandboxByID i d = query_row (\<lambda>sb. sb_ID sb = i) (sandboxes d)"

definition GetSandboxByEngineID :: "string \<Rightarrow> db \<Rightarrow> sql_error + Sandbox" where
  "GetSandboxByEngineID engineID d = query_row (\<lambda>sb. sb_EngineID sb = engineID) (sandboxes d)"

definition ListSandboxes :: "string \<Rightarrow> db \<Rightarrow> Sandbox list" where
  "ListSandboxes userID d =
     order_by (\<lambda>sb. - sb_CreatedAt sb) (query_all (\<lambda>sb. sb_CreatedBy sb = userID) (sandboxes d))"

text \<open>\<open>labels[k]\<close> of a Go map: the empty string when the key is missing.\<close>

definition label_of :: "(string \<times> string) list \<Rightarrow> string \<Rightarrow> string" where
  "label_of labels k = (case map_of labels k of None \<Rightarrow> [] | Some v \<Rightarrow> v)"

definition labelsMatch :: "(string \<times> string) list \<Rightarrow> (string \<times> string) list \<Rightarrow> bool" where
  "labelsMatch labels flt \<longleftrightarrow> list_all (\<lambda>(k, v). label_of labels k = v) flt"

definition ListSandboxesWithFilter :: "string \<Rightarrow> (string \<times> string) list \<Rightarrow> db \<Rightarrow> Sandbox list" where
  "ListSandboxesWithFilter userID flt d =
     (let al = ListSandboxes userID d in
      if flt = [] then al else filter (\<lambda>sb. labelsMatch (sb_Labels sb) flt) al)"

definition ListAllSandboxes :: "db \<Rightarrow> Sandbox list" where
  "ListAllSandboxes d = order_by (\<lambda>sb. - sb_CreatedAt sb) (sandboxes d)"

definition CountUserSandboxes :: "string \<Rightarrow> db \<Rightarrow> nat" where
  "CountUserSandboxes userID d =
     length (query_all (\<lambda>sb. sb_CreatedBy sb = userID \<and> sb_Status sb \<noteq> ''destroyed'') (sandboxes d))"

definition update_sandbox :: "(Sandbox \<Rightarrow> bool) \<Rightarrow> (Sandbox \<Rightarrow> Sandbox) \<Rightarrow> db \<Rightarrow> store_error + (db \<times> nat)" where
  "update_sandbox p f d =
     (case sql_update sandboxes_cs p f (sandboxes d) of
        Inl e \<Rightarrow> Inl (SqlErr e)
      | Inr (t, n) \<Rightarrow> Inr (d\<lparr>sandboxes := t\<rparr>, n))"

definition UpdateSandboxStatus :: "string \<Rightarrow> string \<Rightarrow> db \<Rightarrow> store_error + db" where
  "UpdateSandboxStatus i status d =
     map_sum id fst (update_sandbox (\<lambda>sb. sb_ID sb = i)
       (\<lambda>sb. sb\<lparr>sb_Status := status,
                sb_restart_pending := (if status = ''stopped'' then sb_restart_pending sb else False)\<rparr>) d)"

definition UpdateSandboxEngine :: "string \<Rightarrow> string \<Rightarrow> string \<Rightarrow> db \<Rightarrow> store_error + db" where
  "UpdateSandboxEngine i engineID ip d =
     map_sum id fst (update_sandbox (\<lambda>sb. sb_ID sb = i) (\<lambda>sb. sb\<lparr>sb_EngineID := engineID, sb_IP := ip\<rparr>) d)"

definition RenameSandbox :: "string \<Rightarrow> string \<Rightarrow> string \<Rightarrow> db \<Rightarrow> store_error + db" where
  "RenameSandbox userID i newName d =
     (case update_sandbox (\<lambda>sb. sb_ID sb = i \<and> sb_CreatedBy sb = userID) (\<lambda>sb. sb\<lparr>sb_Name := newName\<rparr>) d of
        Inl e \<Rightarrow> Inl e
      | Inr (d', n) \<Rightarrow> if n = 0 then Inl (NotFound i) else Inr d')"

definition UpdateSandboxHasInit :: "string \<Rightarrow> bool \<Rightarrow> db \<Rightarrow> store_error + db" where
  "UpdateSandboxHasInit i hasInit d =
     map_sum id fst (update_sandbox (\<lambda>sb. sb_ID sb = i) (\<lambda>sb. sb\<lparr>sb_HasInit := hasInit\<rparr>) d)"

definition UpdateSandboxKeepHot :: "string \<Rightarrow> bool \<Rightarrow> db \<Rightarrow> store_error + db" where
  "UpdateSandboxKeepHot i keepHot d =
     map_sum id fst (update_sandbox (\<lambda>sb. sb_ID sb = i)
       (\<lambda>sb. sb\<lparr>sb_KeepHot := keepHot, sb_restart_pending := (sb_restart_pending sb \<and> keepHot)\<rparr>) d)"

definition UpdateSandboxLabels ::
  "string \<Rightarrow> string \<Rightarrow> (string \<times> string) list \<Rightarrow> string list \<Rightarrow> db \<Rightarrow> store_error + db" where
  "UpdateSandboxLabels userID i add remove d =
     (let mine = (\<lambda>sb. sb_ID sb = i \<and> sb_CreatedBy sb = userID) in
      case query_row mine (sandboxes d) of
        Inl _ \<Rightarrow> Inl (NotFound i)
      | Inr sb \<Rightarrow>
          (let labels = fold (\<lambda>(k, v) m. AList.update k v m) add (sb_Labels sb);
               out = fold AList.delete remove labels in
           map_sum id fst (update_sandbox mine (\<lambda>sb. sb\<lparr>sb_Labels := out\<rparr>) d)))"

definition StopSandbox :: "time \<Rightarrow> string \<Rightarrow> db \<Rightarrow> store_error + db" where
  "StopSandbox now i d =
     map_sum id fst (update_sandbox (\<lambda>sb. sb_ID sb = i)
       (\<lambda>sb. sb\<lparr>sb_Status := ''stopped'', sb_StoppedAt := Some now, sb_restart_pending := False\<rparr>) d)"

definition StopSandboxUnexpected :: "time \<Rightarrow> string \<Rightarrow> db \<Rightarrow> store_error + db" where
  "StopSandboxUnexpected now i d =
     map_sum id fst (update_sandbox (\<lambda>sb. sb_ID sb = i)
       (\<lambda>sb. sb\<lparr>sb_Status := ''stopped'', sb_StoppedAt := Some now, sb_restart_pending := sb_KeepHot sb\<rparr>) d)"

definition ClearRestartPending :: "string \<Rightarrow> db \<Rightarrow> store_error + db" where
  "ClearRestartPending i d =
     map_sum id fst (update_sandbox (\<lambda>sb. sb_ID sb = i) (\<lambda>sb. sb\<lparr>sb_restart_pending := False\<rparr>) d)"

definition ListRestartPending :: "db \<Rightarrow> Sandbox list" where
  "ListRestartPending d =
     order_by (\<lambda>sb. - sb_CreatedAt sb)
       (query_all (\<lambda>sb. sb_restart_pending sb \<and> sb_KeepHot sb \<and> sb_Status sb = ''stopped'') (sandboxes d))"

definition DeleteSandbox :: "string \<Rightarrow> string \<Rightarrow> db \<Rightarrow> store_error + db" where
  "DeleteSandbox userID i d =
     (case sql_delete (\<lambda>sb. sb_ID sb = i \<and> sb_CreatedBy sb = userID) (sandboxes d) of
        (t, n) \<Rightarrow> if n = 0 then Inl (NotFound i) else Inr (d\<lparr>sandboxes := t\<rparr>))"

definition DeleteSandboxByID :: "string \<Rightarrow> db \<Rightarrow> store_error + db" where
  "DeleteSandboxByID i d =
     (case sql_delete (\<lambda>sb. sb_ID sb = i) (sandboxes d) of
        (t, n) \<Rightarrow> if n = 0 then Inl (NotFound i) else Inr (d\<lparr>sandboxes := t\<rparr>))"

definition SetShellToken :: "string \<Rightarrow> string \<Rightarrow> db \<Rightarrow> store_error + db" where
  "SetShellToken sandboxID hash d =
     map_sum id fst (update_sandbox (\<lambda>sb. sb_ID sb = sandboxID) (\<lambda>sb. sb\<lparr>sb_ShellTokenHash := hash\<rparr>) d)"

definition ClearShellToken :: "string \<Rightarrow> db \<Rightarrow> store_error + db" where
  "ClearShellToken sandboxID d =
     map_sum id fst (update_sandbox (\<lambda>sb. sb_ID sb = sandboxID) (\<lambda>sb. sb\<lparr>sb_ShellTokenHash := []\<rparr>) d)"

section \<open>Histories\<close>

text \<open>Every write of the table as a value, and the relation between the databases before and after it.\<close>

datatype sandbox_op =
    OpCreate Sandbox
  | OpStatus string string
  | OpEngine string string string
  | OpRename string string string
  | OpHasInit string bool
  | OpKeepHot string bool
  | OpLabels string string "(string \<times> string) list" "string list"
  | OpStop time string
  | OpStopUnexpected time string
  | OpClearPending string
  | OpDelete string string
  | OpDeleteByID string
  | OpSetToken string string
  | OpClearToken string

fun sandbox_exec :: "sandbox_op \<Rightarrow> db \<Rightarrow> store_error + db" where
  "sandbox_exec (OpCreate sb) d = CreateSandbox sb d"
| "sandbox_exec (OpStatus i s) d = UpdateSandboxStatus i s d"
| "sandbox_exec (OpEngine i e ip) d = UpdateSandboxEngine i e ip d"
| "sandbox_exec (OpRename u i n) d = RenameSandbox u i n d"
| "sandbox_exec (OpHasInit i h) d = UpdateSandboxHasInit i h d"
| "sandbox_exec (OpKeepHot i k) d = UpdateSandboxKeepHot i k d"
| "sandbox_exec (OpLabels u i s r) d = UpdateSandboxLabels u i s r d"
| "sandbox_exec (OpStop now i) d = StopSandbox now i d"
| "sandbox_exec (OpStopUnexpected now i) d = StopSandboxUnexpected now i d"
| "sandbox_exec (OpClearPending i) d = ClearRestartPending i d"
| "sandbox_exec (OpDelete u i) d = DeleteSandbox u i d"
| "sandbox_exec (OpDeleteByID i) d = DeleteSandboxByID i d"
| "sandbox_exec (OpSetToken i h) d = SetShellToken i h d"
| "sandbox_exec (OpClearToken i) d = ClearShellToken i d"

definition sandbox_run :: "sandbox_op list \<Rightarrow> db \<Rightarrow> db" where
  "sandbox_run ops d = fold (\<lambda>op d. after d (sandbox_exec op d)) ops d"

lemmas sandbox_op_defs = CreateSandbox_def UpdateSandboxStatus_def UpdateSandboxEngine_def RenameSandbox_def
  UpdateSandboxHasInit_def UpdateSandboxKeepHot_def UpdateSandboxLabels_def StopSandbox_def
  StopSandboxUnexpected_def ClearRestartPending_def DeleteSandbox_def DeleteSandboxByID_def
  SetShellToken_def ClearShellToken_def

section \<open>Invariants\<close>

lemma update_sandbox_Inr:
  assumes "update_sandbox p f d = Inr (d', n)"
  shows "sandboxes d' = update_rows p f (sandboxes d) \<and> table_ok sandboxes_cs (sandboxes d') \<and> n = length (filter p (sandboxes d))"
  using assms by (auto simp: update_sandbox_def split: sum.splits prod.splits dest: sandboxes.update_ok)

lemma map_sum_fst_Inr: "map_sum id fst r = Inr d' \<longleftrightarrow> (\<exists>n. r = Inr (d', n))"
  by (cases r) auto

text \<open>A row waits for a restart only while its sandbox is stopped and meant to be kept hot.\<close>

definition pending_ok :: "Sandbox \<Rightarrow> bool" where
  "pending_ok sb \<longleftrightarrow> (sb_restart_pending sb \<longrightarrow> sb_KeepHot sb \<and> sb_Status sb = ''stopped'')"

text \<open>What a successful write does to the table: insert one row, rewrite the matching rows, or delete rows.\<close>

lemma delete_sandbox_Inr:
  assumes "(case sql_delete p (sandboxes d) of (t, n) \<Rightarrow> if n = 0 then Inl (NotFound i) else Inr (d\<lparr>sandboxes := t\<rparr>)) = Inr d'"
  shows "sandboxes d' = filter (\<lambda>r. \<not> p r) (sandboxes d)"
  using assms by (auto simp: sql_delete_def split: if_splits)

lemma sandbox_exec_cases:
  assumes "sandbox_exec op d = Inr d'"
  obtains (ins) row where "sql_insert sandboxes_cs row (sandboxes d) = Inr (sandboxes d')" "pending_ok row"
  | (upd) p f n where "update_sandbox p f d = Inr (d', n)" "\<And>sb. pending_ok sb \<Longrightarrow> pending_ok (f sb)"
  | (del) p where "sandboxes d' = filter (\<lambda>r. \<not> p r) (sandboxes d)"
proof (cases op)
  case (OpCreate sb)
  with assms have "\<exists>row. sql_insert sandboxes_cs row (sandboxes d) = Inr (sandboxes d') \<and> pending_ok row"
    by (fastforce simp: CreateSandbox_def Let_def pending_ok_def split: sum.splits)
  with ins show thesis by blast
next
  case (OpStatus i s)
  with assms obtain n where u: "update_sandbox (\<lambda>sb. sb_ID sb = i)
      (\<lambda>sb. sb\<lparr>sb_Status := s, sb_restart_pending := (if s = ''stopped'' then sb_restart_pending sb else False)\<rparr>) d = Inr (d', n)"
    by (auto simp: UpdateSandboxStatus_def map_sum_fst_Inr)
  show thesis by (rule upd [OF u]) (simp add: pending_ok_def)
next
  case (OpEngine i e ip)
  with assms obtain n where u: "update_sandbox (\<lambda>sb. sb_ID sb = i) (\<lambda>sb. sb\<lparr>sb_EngineID := e, sb_IP := ip\<rparr>) d = Inr (d', n)"
    by (auto simp: UpdateSandboxEngine_def map_sum_fst_Inr)
  show thesis by (rule upd [OF u]) (simp add: pending_ok_def)
next
  case (OpRename u i nm)
  with assms obtain n where u: "update_sandbox (\<lambda>sb. sb_ID sb = i \<and> sb_CreatedBy sb = u) (\<lambda>sb. sb\<lparr>sb_Name := nm\<rparr>) d = Inr (d', n)"
    by (auto simp: RenameSandbox_def split: sum.splits prod.splits if_splits)
  show thesis by (rule upd [OF u]) (simp add: pending_ok_def)
next
  case (OpHasInit i h)
  with assms obtain n where u: "update_sandbox (\<lambda>sb. sb_ID sb = i) (\<lambda>sb. sb\<lparr>sb_HasInit := h\<rparr>) d = Inr (d', n)"
    by (auto simp: UpdateSandboxHasInit_def map_sum_fst_Inr)
  show thesis by (rule upd [OF u]) (simp add: pending_ok_def)
next
  case (OpKeepHot i k)
  with assms obtain n where u: "update_sandbox (\<lambda>sb. sb_ID sb = i)
      (\<lambda>sb. sb\<lparr>sb_KeepHot := k, sb_restart_pending := (sb_restart_pending sb \<and> k)\<rparr>) d = Inr (d', n)"
    by (auto simp: UpdateSandboxKeepHot_def map_sum_fst_Inr)
  show thesis by (rule upd [OF u]) (simp add: pending_ok_def)
next
  case (OpLabels u i s r)
  with assms obtain out n where u: "update_sandbox (\<lambda>sb. sb_ID sb = i \<and> sb_CreatedBy sb = u) (\<lambda>sb. sb\<lparr>sb_Labels := out\<rparr>) d = Inr (d', n)"
    by (auto simp: UpdateSandboxLabels_def map_sum_fst_Inr Let_def split: sum.splits)
  show thesis by (rule upd [OF u]) (simp add: pending_ok_def)
next
  case (OpStop now i)
  with assms obtain n where u: "update_sandbox (\<lambda>sb. sb_ID sb = i)
      (\<lambda>sb. sb\<lparr>sb_Status := ''stopped'', sb_StoppedAt := Some now, sb_restart_pending := False\<rparr>) d = Inr (d', n)"
    by (auto simp: StopSandbox_def map_sum_fst_Inr)
  show thesis by (rule upd [OF u]) (simp add: pending_ok_def)
next
  case (OpStopUnexpected now i)
  with assms obtain n where u: "update_sandbox (\<lambda>sb. sb_ID sb = i)
      (\<lambda>sb. sb\<lparr>sb_Status := ''stopped'', sb_StoppedAt := Some now, sb_restart_pending := sb_KeepHot sb\<rparr>) d = Inr (d', n)"
    by (auto simp: StopSandboxUnexpected_def map_sum_fst_Inr)
  show thesis by (rule upd [OF u]) (simp add: pending_ok_def)
next
  case (OpClearPending i)
  with assms obtain n where u: "update_sandbox (\<lambda>sb. sb_ID sb = i) (\<lambda>sb. sb\<lparr>sb_restart_pending := False\<rparr>) d = Inr (d', n)"
    by (auto simp: ClearRestartPending_def map_sum_fst_Inr)
  show thesis by (rule upd [OF u]) (simp add: pending_ok_def)
next
  case (OpDelete u i)
  with assms show thesis by (intro del [OF delete_sandbox_Inr]) (simp add: DeleteSandbox_def)
next
  case (OpDeleteByID i)
  with assms show thesis by (intro del [OF delete_sandbox_Inr]) (simp add: DeleteSandboxByID_def)
next
  case (OpSetToken i h)
  with assms obtain n where u: "update_sandbox (\<lambda>sb. sb_ID sb = i) (\<lambda>sb. sb\<lparr>sb_ShellTokenHash := h\<rparr>) d = Inr (d', n)"
    by (auto simp: SetShellToken_def map_sum_fst_Inr)
  show thesis by (rule upd [OF u]) (simp add: pending_ok_def)
next
  case (OpClearToken i)
  with assms obtain n where u: "update_sandbox (\<lambda>sb. sb_ID sb = i) (\<lambda>sb. sb\<lparr>sb_ShellTokenHash := []\<rparr>) d = Inr (d', n)"
    by (auto simp: ClearShellToken_def map_sum_fst_Inr)
  show thesis by (rule upd [OF u]) (simp add: pending_ok_def)
qed

lemma sandbox_exec_inv [invariants]:
  assumes "sandbox_exec op d = Inr d'" and "table_ok sandboxes_cs (sandboxes d)" "\<forall>sb \<in> set (sandboxes d). pending_ok sb"
  shows "table_ok sandboxes_cs (sandboxes d') \<and> (\<forall>sb \<in> set (sandboxes d'). pending_ok sb)"
  using assms(1)
proof (cases rule: sandbox_exec_cases)
  case (ins row)
  with sandboxes.insert_ok [OF assms(2) ins(1)] assms(3) show ?thesis by auto
next
  case (upd p f n)
  with update_sandbox_Inr [OF upd(1)] assms(3) show ?thesis by (auto simp: set_update_rows)
next
  case (del p)
  with assms(2,3) sandboxes.filter_ok show ?thesis by auto
qed

lemma sandbox_run_inv:
  assumes "table_ok sandboxes_cs (sandboxes d)" "\<forall>sb \<in> set (sandboxes d). pending_ok sb"
  shows "table_ok sandboxes_cs (sandboxes (sandbox_run ops d)) \<and> (\<forall>sb \<in> set (sandboxes (sandbox_run ops d)). pending_ok sb)"
  using assms
proof (induction ops arbitrary: d)
  case (Cons op ops)
  have "table_ok sandboxes_cs (sandboxes (after d (sandbox_exec op d))) \<and> (\<forall>sb \<in> set (sandboxes (after d (sandbox_exec op d))). pending_ok sb)"
    by (rule afterI) (use Cons.prems sandbox_exec_inv in blast)+
  with Cons.IH [of "after d (sandbox_exec op d)"] show ?case by (simp add: sandbox_run_def)
qed (simp add: sandbox_run_def)

text \<open>
  The sandboxes table keeps its promises under every sequence of writes. From an empty
  database, whatever operations ran and failed, an owner has at most one sandbox of a name
  that is not destroyed, so \<open>GetActiveSandboxByName\<close> finds exactly that one; and
  \<open>ListRestartPending\<close> returns exactly the rows marked \<open>restart_pending\<close>: the marker alone implies
  that the sandbox is stopped and kept hot.
\<close>

theorem sandbox_history_invariant:
  "let d = sandbox_run ops empty_db in
   (GetActiveSandboxByName u n d = Inr sb \<longleftrightarrow>
      sb \<in> set (sandboxes d) \<and> sb_CreatedBy sb = u \<and> sb_Name sb = n \<and> sb_Status sb \<noteq> ''destroyed'') \<and>
   set (ListRestartPending d) = {sb \<in> set (sandboxes d). sb_restart_pending sb}"
proof -
  define d where "d = sandbox_run ops empty_db"
  have inv: "table_ok sandboxes_cs (sandboxes d)" "\<forall>sb \<in> set (sandboxes d). pending_ok sb"
    unfolding d_def using sandbox_run_inv [of empty_db ops] by (simp_all add: empty_db_def)
  have uniq: "unique_rows same_live_name (sandboxes d)"
    using inv(1) by (simp add: table_ok_def sandboxes_cs_def)
  have "GetActiveSandboxByName u n d = Inr sb"
    if "sb \<in> set (sandboxes d)" "sb_CreatedBy sb = u" "sb_Name sb = n" "sb_Status sb \<noteq> ''destroyed''"
    unfolding GetActiveSandboxByName_def
    by (rule query_row_unique [OF uniq]) (use that in \<open>auto simp: same_live_name_def\<close>)
  moreover have "set (ListRestartPending d) = {sb \<in> set (sandboxes d). sb_restart_pending sb}"
    using inv(2) by (auto simp: ListRestartPending_def pending_ok_def)
  ultimately show ?thesis by (auto simp: GetActiveSandboxByName_def Let_def d_def [symmetric] dest: query_row_Inr)
qed

definition rows_of_others :: "string \<Rightarrow> Sandbox list \<Rightarrow> Sandbox list" where
  "rows_of_others u t = filter (\<lambda>sb. sb_CreatedBy sb \<noteq> u) t"

lemma update_others:
  assumes "update_sandbox (\<lambda>sb. sb_ID sb = i \<and> sb_CreatedBy sb = u) f d = Inr (d', n)"
    and "\<And>sb. sb_CreatedBy (f sb) = sb_CreatedBy sb"
  shows "rows_of_others u (sandboxes d') = rows_of_others u (sandboxes d)"
proof -
  have "rows_of_others u (update_rows (\<lambda>sb. sb_ID sb = i \<and> sb_CreatedBy sb = u) f t) = rows_of_others u t" for t
    using assms(2) by (induction t) (auto simp: update_rows_def rows_of_others_def)
  with update_sandbox_Inr [OF assms(1)] show ?thesis by simp
qed

text \<open>
  The operations that name their owner touch no other owner's sandboxes. A rename, label
  change or deletion asked for by \<open>u\<close> leaves every row created by someone else as it was, whatever
  id is named, and every lookup in the name of \<open>u\<close> returns a row of \<open>u\<close>.
\<close>

theorem sandbox_writes_scoped:
  "rows_of_others u (sandboxes (after d (RenameSandbox u i n d))) = rows_of_others u (sandboxes d) \<and>
   rows_of_others u (sandboxes (after d (UpdateSandboxLabels u i add rem d))) = rows_of_others u (sandboxes d) \<and>
   rows_of_others u (sandboxes (after d (DeleteSandbox u i d))) = rows_of_others u (sandboxes d) \<and>
   {sb. GetSandbox u i d = Inr sb} \<union> {sb. GetActiveSandboxByName u i d = Inr sb} \<union> set (ListSandboxesWithFilter u flt d)
     \<subseteq> {sb \<in> set (sandboxes d). sb_CreatedBy sb = u}"
proof (intro conjI)
  show "rows_of_others u (sandboxes (after d (RenameSandbox u i n d))) = rows_of_others u (sandboxes d)"
    by (rule afterI) (auto simp: RenameSandbox_def split: sum.splits prod.splits if_splits dest: update_others)
  show "rows_of_others u (sandboxes (after d (UpdateSandboxLabels u i add rem d))) = rows_of_others u (sandboxes d)"
    by (rule afterI) (auto simp: UpdateSandboxLabels_def Let_def map_sum_fst_Inr split: sum.splits dest: update_others)
  show "rows_of_others u (sandboxes (after d (DeleteSandbox u i d))) = rows_of_others u (sandboxes d)"
    by (rule afterI)
      (auto simp: DeleteSandbox_def rows_of_others_def dest!: delete_sandbox_Inr intro: filter_cong)
qed (auto simp: GetSandbox_def GetActiveSandboxByName_def ListSandboxesWithFilter_def ListSandboxes_def Let_def
    split: sum.splits dest: query_row_Inr)

text \<open>
  An empty filter value matches a sandbox that lacks the key. \<open>labelsMatch\<close> compares Go map
  lookups, which return the empty string for a missing key, so \<open>{k: ""}\<close> selects every sandbox
  without the label \<open>k\<close>; for filters with no empty value, matching is containment of the pairs.
\<close>

theorem labelsMatch_spec:
  "(labelsMatch labels flt \<longleftrightarrow>
      (\<forall>(k, v) \<in> set flt. map_of labels k = Some v \<or> v = [] \<and> map_of labels k = None)) \<and>
   labelsMatch [] [(k, [])]"
  by (auto simp: labelsMatch_def list_all_iff label_of_def split: option.splits)

lemma labelsMatch_spec_witness:
  "labelsMatch [(''env'', ''prod'')] [(''env'', ''prod''), (''pool'', [])] \<and>
   \<not> labelsMatch [(''env'', ''prod'')] [(''env'', ''dev'')]"
  using labelsMatch_spec [of "[(''env'', ''prod'')]" "[(''env'', ''prod''), (''pool'', [])]" "''pool''"]
    labelsMatch_spec [of "[(''env'', ''prod'')]" "[(''env'', ''dev'')]" "''pool''"] by simp

end
