(* ===== verification/Grants.thy ===== *)
theory Grants
  imports Sandboxes "HOL-Library.List_Lexorder" "HOL-Library.Char_ord" "HOL-Library.Product_Lexorder"
begin

text \<open>
  Secrets and the grants to use them, as the store keeps them: \<^verbatim>\<open>src/pkg/store/grant.go\<close>,
  \<open>secret.go\<close>, \<open>sandbox_ca.go\<close> and \<open>snapshot.go\<close>. The locale \<open>grant_store\<close> is the contract of the
  broker's \<open>Store\<close> interface; it is interpreted on the tables here and used in \<open>Broker\<close>.
\<close>

section \<open>Secrets\<close>

definition SetSecret :: "time \<Rightarrow> string \<Rightarrow> string \<Rightarrow> bytes \<Rightarrow> db \<Rightarrow> db" where
  "SetSecret now userID name encrypted d =
     (let row = \<lparr>sec_UserID = userID, sec_Name = name, sec_Value = encrypted, sec_CreatedAt = now, sec_UpdatedAt = now\<rparr> in
      case sql_insert secrets_cs row (secrets d) of
        Inr t \<Rightarrow> d\<lparr>secrets := t\<rparr>
      | Inl _ \<Rightarrow> d\<lparr>secrets := update_rows (\<lambda>s. sec_UserID s = userID \<and> sec_Name s = name)
                    (\<lambda>s. s\<lparr>sec_Value := encrypted, sec_UpdatedAt := now\<rparr>) (secrets d)\<rparr>)"

definition GetSecretValue :: "string \<Rightarrow> string \<Rightarrow> db \<Rightarrow> store_error + bytes" where
  "GetSecretValue userID name d =
     (case query_row (\<lambda>s. sec_Name s = name \<and> sec_UserID s = userID) (secrets d) of
        Inl _ \<Rightarrow> Inl (NotFound name)
      | Inr s \<Rightarrow> Inr (sec_Value s))"

text \<open>The metadata queries return the whole row here; the Go struct leaves the value out.\<close>

definition ListUserSecrets :: "string \<Rightarrow> db \<Rightarrow> SecretRow list" where
  "ListUserSecrets userID d = order_by sec_Name (query_all (\<lambda>s. sec_UserID s = userID) (secrets d))"

definition ListAllSecrets :: "db \<Rightarrow> SecretRow list" where
  "ListAllSecrets d = order_by sec_Name (secrets d)"

definition GetSecret :: "string \<Rightarrow> string \<Rightarrow> db \<Rightarrow> sql_error + SecretRow" where
  "GetSecret userID name d = query_row (\<lambda>s. sec_Name s = name \<and> sec_UserID s = userID) (secrets d)"

definition DeleteSecret :: "string \<Rightarrow> string \<Rightarrow> db \<Rightarrow> store_error + db" where
  "DeleteSecret userID name d =
     (case sql_delete (\<lambda>s. sec_Name s = name \<and> sec_UserID s = userID) (secrets d) of
        (t, n) \<Rightarrow> if n = 0 then Inl (NotFound name) else Inr (d\<lparr>secrets := t\<rparr>))"

section \<open>Grants\<close>

definition Live :: "time \<Rightarrow> SecretGrant \<Rightarrow> bool" where
  "Live now g \<longleftrightarrow> g_RevokedAt g = None \<and> (case g_ExpiresAt g of None \<Rightarrow> True | Some e \<Rightarrow> now < e)"

text \<open>A zero \<open>CreatedAt\<close> is filled with the clock.\<close>

definition CreateSecretGrant :: "time \<Rightarrow> SecretGrant \<Rightarrow> db \<Rightarrow> store_error + db" where
  "CreateSecretGrant now g d =
     (let row = (if g_CreatedAt g = 0 then g\<lparr>g_CreatedAt := now\<rparr> else g) in
      case sql_insert secret_grants_cs row (secret_grants d) of
        Inl e \<Rightarrow> Inl (SqlErr e)
      | Inr t \<Rightarrow> Inr (d\<lparr>secret_grants := t\<rparr>))"

definition GetSecretGrant :: "string \<Rightarrow> string \<Rightarrow> db \<Rightarrow> sql_error + SecretGrant" where
  "GetSecretGrant userID i d = query_row (\<lambda>g. g_UserID g = userID \<and> g_ID g = i) (secret_grants d)"

definition GetSandboxSecretGrantByPlaceholder :: "string \<Rightarrow> string \<Rightarrow> db \<Rightarrow> sql_error + SecretGrant" where
  "GetSandboxSecretGrantByPlaceholder sandboxID placeholder d =
     query_row (\<lambda>g. g_SandboxID g = sandboxID \<and> g_Placeholder g = placeholder) (secret_grants d)"

definition FindSecretGrantByPlaceholder :: "string \<Rightarrow> string \<Rightarrow> db \<Rightarrow> sql_error + SecretGrant" where
  "FindSecretGrantByPlaceholder userID placeholder d =
     query_row (\<lambda>g. True)
       (order_by (\<lambda>g. (g_CreatedAt g, g_ID g))
          (query_all (\<lambda>g. g_UserID g = userID \<and> g_Placeholder g = placeholder) (secret_grants d)))"

text \<open>\<open>ORDER BY created_at DESC, id DESC\<close>; ids are unique, so reversing the ascending order is exact.\<close>

definition ListSecretGrants :: "string \<Rightarrow> db \<Rightarrow> SecretGrant list" where
  "ListSecretGrants userID d =
     rev (order_by (\<lambda>g. (g_CreatedAt g, g_ID g)) (query_all (\<lambda>g. g_UserID g = userID) (secret_grants d)))"

definition ListSandboxSecretGrants :: "string \<Rightarrow> db \<Rightarrow> SecretGrant list" where
  "ListSandboxSecretGrants sandboxID d =
     rev (order_by (\<lambda>g. (g_CreatedAt g, g_ID g)) (query_all (\<lambda>g. g_SandboxID g = sandboxID) (secret_grants d)))"

text \<open>\<open>SET revoked_at = COALESCE(revoked_at, ?)\<close>: the first revocation's time stays.\<close>

definition RevokeSecretGrant :: "string \<Rightarrow> string \<Rightarrow> time \<Rightarrow> db \<Rightarrow> store_error + db" where
  "RevokeSecretGrant userID i at d =
     (case sql_update secret_grants_cs (\<lambda>g. g_UserID g = userID \<and> g_ID g = i)
             (\<lambda>g. g\<lparr>g_RevokedAt := (case g_RevokedAt g of None \<Rightarrow> Some at | Some t \<Rightarrow> Some t)\<rparr>) (secret_grants d) of
        Inl e \<Rightarrow> Inl (SqlErr e)
      | Inr (t, n) \<Rightarrow> if n = 0 then Inl (SqlErr ErrNoRows) else Inr (d\<lparr>secret_grants := t\<rparr>))"

definition DeleteSandboxSecretGrants :: "string \<Rightarrow> db \<Rightarrow> db" where
  "DeleteSandboxSecretGrants sandboxID d =
     d\<lparr>secret_grants := fst (sql_delete (\<lambda>g. g_SandboxID g = sandboxID) (secret_grants d))\<rparr>"

definition DeleteSecretGrantsForSecret :: "string \<Rightarrow> string \<Rightarrow> db \<Rightarrow> db" where
  "DeleteSecretGrantsForSecret userID secretName d =
     d\<lparr>secret_grants := fst (sql_delete (\<lambda>g. g_UserID g = userID \<and> g_SecretName g = secretName) (secret_grants d)),
       snapshot_grants := fst (sql_delete (\<lambda>(s, u, g). u = userID \<and> sg_SecretName g = secretName) (snapshot_grants d))\<rparr>"

section \<open>Sandbox certificate authorities\<close>

definition PutSandboxCA :: "time \<Rightarrow> SandboxCA \<Rightarrow> db \<Rightarrow> db" where
  "PutSandboxCA now ca d =
     (let row = (if ca_CreatedAt ca = 0 then ca\<lparr>ca_CreatedAt := now\<rparr> else ca) in
      d\<lparr>sandbox_cas := sql_insert_replace sandbox_cas_cs row (sandbox_cas d)\<rparr>)"

definition GetSandboxCA :: "string \<Rightarrow> db \<Rightarrow> sql_error + SandboxCA" where
  "GetSandboxCA sandboxID d = query_row (\<lambda>ca. ca_SandboxID ca = sandboxID) (sandbox_cas d)"

definition DeleteSandboxCA :: "string \<Rightarrow> db \<Rightarrow> db" where
  "DeleteSandboxCA sandboxID d =
     d\<lparr>sandbox_cas := fst (sql_delete (\<lambda>ca. ca_SandboxID ca = sandboxID) (sandbox_cas d))\<rparr>"

section \<open>Snapshots\<close>

definition no_substitution :: SnapshotSubstitution where
  "no_substitution = \<lparr>sub_CA = None, sub_Grants = []\<rparr>"

fun insert_snapshot_grants ::
  "string \<Rightarrow> string \<Rightarrow> SnapshotGrant list \<Rightarrow> (string \<times> string \<times> SnapshotGrant) list
   \<Rightarrow> sql_error + (string \<times> string \<times> SnapshotGrant) list" where
  "insert_snapshot_grants s u [] t = Inr t"
| "insert_snapshot_grants s u (g # gs) t =
     res_bind (sql_insert snapshot_grants_cs (s, u, g) t) (insert_snapshot_grants s u gs)"

text \<open>The transaction of \<open>CreateSnapshot\<close>: all three tables change, or none (the rollback).\<close>

definition CreateSnapshot :: "time \<Rightarrow> SnapshotRecord \<Rightarrow> db \<Rightarrow> store_error + db" where
  "CreateSnapshot now snap d =
     (let row = snap\<lparr>snap_SourceRecordedAt := Some now, snap_Substitution := no_substitution\<rparr> in
      case sql_insert snapshots_cs row (snapshots d) of
        Inl e \<Rightarrow> Inl (SqlErr e)
      | Inr ts \<Rightarrow>
          (case (case sub_CA (snap_Substitution snap) of
                   None \<Rightarrow> Inr (snapshot_cas d)
                 | Some ca \<Rightarrow>
                     sql_insert snapshot_cas_cs
                       (snap_ID snap,
                        ca\<lparr>ca_SandboxID := [], ca_UserID := snap_UserID snap,
                           ca_CreatedAt := (if ca_CreatedAt ca = 0 then now else ca_CreatedAt ca)\<rparr>)
                       (snapshot_cas d)) of
             Inl e \<Rightarrow> Inl (SqlErr e)
           | Inr tc \<Rightarrow>
               (case insert_snapshot_grants (snap_ID snap) (snap_UserID snap)
                       (sub_Grants (snap_Substitution snap)) (snapshot_grants d) of
                  Inl e \<Rightarrow> Inl (SqlErr e)
                | Inr tg \<Rightarrow> Inr (d\<lparr>snapshots := ts, snapshot_cas := tc, snapshot_grants := tg\<rparr>))))"

definition snapshotSubstitution :: "string \<Rightarrow> db \<Rightarrow> SnapshotSubstitution" where
  "snapshotSubstitution snapshotID d =
     \<lparr>sub_CA = map_option snd (find (\<lambda>(s, ca). s = snapshotID) (snapshot_cas d)),
      sub_Grants = order_by (\<lambda>g. (sg_SecretName g, sg_Placeholder g))
        (map (snd \<circ> snd) (query_all (\<lambda>(s, u, g). s = snapshotID) (snapshot_grants d)))\<rparr>"

definition GetSnapshot :: "string \<Rightarrow> string \<Rightarrow> db \<Rightarrow> store_error + SnapshotRecord" where
  "GetSnapshot userID name d =
     (case query_row (\<lambda>s. snap_UserID s = userID \<and> snap_Name s = name) (snapshots d) of
        Inl _ \<Rightarrow> Inl (NotFound name)
      | Inr s \<Rightarrow> Inr (s\<lparr>snap_Substitution := snapshotSubstitution (snap_ID s) d\<rparr>))"

definition ListSnapshots :: "string \<Rightarrow> db \<Rightarrow> SnapshotRecord list" where
  "ListSnapshots userID d =
     order_by (\<lambda>s. - snap_CreatedAt s) (query_all (\<lambda>s. snap_UserID s = userID) (snapshots d))"

definition DeleteSnapshot :: "string \<Rightarrow> string \<Rightarrow> db \<Rightarrow> store_error + db" where
  "DeleteSnapshot userID name d =
     (case query_row (\<lambda>s. snap_UserID s = userID \<and> snap_Name s = name) (snapshots d) of
        Inl _ \<Rightarrow> Inl (NotFound name)
      | Inr s \<Rightarrow>
          Inr (d\<lparr>snapshot_cas := fst (sql_delete (\<lambda>(i, ca). i = snap_ID s) (snapshot_cas d)),
                 snapshot_grants := fst (sql_delete (\<lambda>(i, u, g). i = snap_ID s) (snapshot_grants d)),
                 snapshots := fst (sql_delete (\<lambda>r. snap_ID r = snap_ID s) (snapshots d))\<rparr>))"

section \<open>The broker's view of the store\<close>

text \<open>
  The interface \<^verbatim>\<open>Store\<close> of \<^verbatim>\<open>src/pkg/broker/broker.go\<close>, a record of its methods; \<open>db_api\<close> is its
  implementation by \<^verbatim>\<open>*store.Store\<close>.
\<close>

record store_api =
  api_by_sandbox :: "string \<Rightarrow> string \<Rightarrow> sql_error + SecretGrant"
  api_by_owner :: "string \<Rightarrow> string \<Rightarrow> sql_error + SecretGrant"
  api_of_sandbox :: "string \<Rightarrow> sql_error + SecretGrant list"
  api_secret_value :: "string \<Rightarrow> string \<Rightarrow> store_error + bytes"
  api_sandbox_ca :: "string \<Rightarrow> sql_error + SandboxCA"
  api_by_engine_id :: "string \<Rightarrow> sql_error + Sandbox"

definition db_api :: "db \<Rightarrow> store_api" where
  "db_api d =
     \<lparr>api_by_sandbox = (\<lambda>s p. GetSandboxSecretGrantByPlaceholder s p d),
      api_by_owner = (\<lambda>u p. FindSecretGrantByPlaceholder u p d),
      api_of_sandbox = (\<lambda>s. Inr (ListSandboxSecretGrants s d)),
      api_secret_value = (\<lambda>u n. GetSecretValue u n d),
      api_sandbox_ca = (\<lambda>s. GetSandboxCA s d),
      api_by_engine_id = (\<lambda>e. GetSandboxByEngineID e d)\<rparr>"

text \<open>
  What the broker relies on. \<open>rows\<close> are the grants the store holds: a lookup returns one of them that
  carries what was asked for, and the lookup by sandbox and placeholder returns the only one there is.
\<close>

locale grant_store =
  fixes api :: store_api and rows :: "SecretGrant set"
  assumes by_sandbox_row: "api_by_sandbox api s p = Inr g \<Longrightarrow> g \<in> rows \<and> g_SandboxID g = s \<and> g_Placeholder g = p"
    and by_owner_row: "api_by_owner api u p = Inr g \<Longrightarrow> g \<in> rows \<and> g_UserID g = u \<and> g_Placeholder g = p"
    and of_sandbox_rows: "api_of_sandbox api s = Inr gs \<Longrightarrow> set gs = {g \<in> rows. g_SandboxID g = s}"

text \<open>The tables answer every lookup, and a grant that is alone with its sandbox and placeholder is found.\<close>

locale complete_grant_store = grant_store +
  assumes by_sandbox_complete:
      "g \<in> rows \<Longrightarrow> (\<And>g'. g' \<in> rows \<Longrightarrow> g_SandboxID g' = g_SandboxID g \<Longrightarrow> g_Placeholder g' = g_Placeholder g \<Longrightarrow> g' = g)
       \<Longrightarrow> api_by_sandbox api (g_SandboxID g) (g_Placeholder g) = Inr g"
    and of_sandbox_total: "is_ok (api_of_sandbox api s)"

lemma FindSecretGrantByPlaceholder_Inr:
  "FindSecretGrantByPlaceholder u p d = Inr g \<Longrightarrow> g \<in> set (secret_grants d) \<and> g_UserID g = u \<and> g_Placeholder g = p"
  unfolding FindSecretGrantByPlaceholder_def by (drule query_row_Inr) auto

interpretation db: complete_grant_store "db_api d" "set (secret_grants d)" for d
proof
  fix g
  assume g: "g \<in> set (secret_grants d)"
    and alone: "\<And>g'. g' \<in> set (secret_grants d) \<Longrightarrow> g_SandboxID g' = g_SandboxID g \<Longrightarrow> g_Placeholder g' = g_Placeholder g \<Longrightarrow> g' = g"
  let ?p = "\<lambda>x. g_SandboxID x = g_SandboxID g \<and> g_Placeholder x = g_Placeholder g"
  obtain x where x: "query_row ?p (secret_grants d) = Inr x"
    using g query_row_ok_iff [of ?p "secret_grants d"] by (cases "query_row ?p (secret_grants d)") auto
  with alone have "x = g" by (auto dest: query_row_Inr)
  with x show "api_by_sandbox (db_api d) (g_SandboxID g) (g_Placeholder g) = Inr g"
    by (simp add: db_api_def GetSandboxSecretGrantByPlaceholder_def)
qed (auto simp: db_api_def GetSandboxSecretGrantByPlaceholder_def ListSandboxSecretGrants_def
    dest: query_row_Inr FindSecretGrantByPlaceholder_Inr)

section \<open>Revocation and deletion are final\<close>

text \<open>Every write of the grants table as a value.\<close>

datatype grant_op =
    GCreate time SecretGrant
  | GRevoke string string time
  | GDropSandbox string
  | GDropSecret string string

fun grant_exec :: "grant_op \<Rightarrow> db \<Rightarrow> db" where
  "grant_exec (GCreate now g) d = after d (CreateSecretGrant now g d)"
| "grant_exec (GRevoke u i at) d = after d (RevokeSecretGrant u i at d)"
| "grant_exec (GDropSandbox s) d = DeleteSandboxSecretGrants s d"
| "grant_exec (GDropSecret u n) d = DeleteSecretGrantsForSecret u n d"

fun creates :: "grant_op \<Rightarrow> SecretGrant \<Rightarrow> bool" where
  "creates (GCreate now g) x \<longleftrightarrow> x = (if g_CreatedAt g = 0 then g\<lparr>g_CreatedAt := now\<rparr> else g)"
| "creates _ x \<longleftrightarrow> False"

lemma CreateSecretGrant_Inr:
  assumes "CreateSecretGrant now g d = Inr d'"
  shows "secret_grants d' = secret_grants d @ [if g_CreatedAt g = 0 then g\<lparr>g_CreatedAt := now\<rparr> else g] \<and>
    (table_ok secret_grants_cs (secret_grants d) \<longrightarrow> table_ok secret_grants_cs (secret_grants d'))"
proof -
  let ?row = "if g_CreatedAt g = 0 then g\<lparr>g_CreatedAt := now\<rparr> else g"
  obtain t where t: "sql_insert secret_grants_cs ?row (secret_grants d) = Inr t" and d': "d' = d\<lparr>secret_grants := t\<rparr>"
    using assms by (auto simp: CreateSecretGrant_def Let_def split: sum.splits)
  show ?thesis using sql_insert_Inr [OF t] secret_grants.insert_ok [OF _ t] d' by simp
qed

lemma RevokeSecretGrant_Inr:
  assumes "RevokeSecretGrant u i at d = Inr d'"
  shows "secret_grants d' = update_rows (\<lambda>g. g_UserID g = u \<and> g_ID g = i)
      (\<lambda>g. g\<lparr>g_RevokedAt := (case g_RevokedAt g of None \<Rightarrow> Some at | Some t \<Rightarrow> Some t)\<rparr>) (secret_grants d) \<and>
    table_ok secret_grants_cs (secret_grants d') \<and> (\<exists>g \<in> set (secret_grants d). g_UserID g = u \<and> g_ID g = i)"
  using assms
  by (auto simp: RevokeSecretGrant_def filter_empty_conv split: sum.splits prod.splits if_splits
      dest!: secret_grants.update_ok)

lemma grant_exec_ok [invariants]:
  assumes "table_ok secret_grants_cs (secret_grants d)"
  shows "table_ok secret_grants_cs (secret_grants (grant_exec op d))"
proof (cases op)
  case (GCreate now g)
  then show ?thesis using assms
    by (cases "CreateSecretGrant now g d") (auto simp: after_def dest: CreateSecretGrant_Inr)
next
  case (GRevoke u i at)
  then show ?thesis using assms
    by (cases "RevokeSecretGrant u i at d") (auto simp: after_def dest: RevokeSecretGrant_Inr)
qed (use assms in \<open>auto simp: DeleteSandboxSecretGrants_def DeleteSecretGrantsForSecret_def intro: secret_grants.delete_ok\<close>)

text \<open>Where the rows after a write come from: each is a new one, an old one, or an old one now revoked.\<close>

lemma grant_exec_rows:
  assumes "x \<in> set (secret_grants (grant_exec op d))"
  shows "creates op x \<or> x \<in> set (secret_grants d) \<or>
    (\<exists>y t. y \<in> set (secret_grants d) \<and> x = y\<lparr>g_RevokedAt := Some t\<rparr>)"
proof (cases op)
  case (GCreate now g)
  then show ?thesis using assms
    by (cases "CreateSecretGrant now g d") (auto simp: after_def dest!: CreateSecretGrant_Inr)
next
  case (GRevoke u i at)
  show ?thesis
  proof (cases "RevokeSecretGrant u i at d")
    case (Inr d')
    with GRevoke assms RevokeSecretGrant_Inr [OF Inr] obtain y where y: "y \<in> set (secret_grants d)"
      and x: "x = (if g_UserID y = u \<and> g_ID y = i
        then y\<lparr>g_RevokedAt := (case g_RevokedAt y of None \<Rightarrow> Some at | Some t \<Rightarrow> Some t)\<rparr> else y)"
      by (auto simp: after_def set_update_rows)
    have "x = y \<or> (\<exists>t. x = y\<lparr>g_RevokedAt := Some t\<rparr>)" unfolding x by (cases "g_RevokedAt y") auto
    with y show ?thesis by blast
  qed (use GRevoke assms in \<open>simp add: after_def\<close>)
qed (use assms in \<open>auto simp: DeleteSandboxSecretGrants_def DeleteSecretGrantsForSecret_def sql_delete_def\<close>)

text \<open>
  C10: revoking a grant is final. Once \<open>RevokeSecretGrant\<close> returned no error for the id \<open>i\<close>, no grant with
  that id is live at any time, after any further sequence of writes to the table that does not
  itself create a grant with the id again (the daemon draws ids at random).
\<close>

theorem revocation_final:
  assumes "RevokeSecretGrant u i at d = Inr d1" and "table_ok secret_grants_cs (secret_grants d)"
    and "\<forall>op \<in> set ops. \<forall>x. creates op x \<longrightarrow> g_ID x \<noteq> i"
    and "g \<in> set (secret_grants (fold grant_exec ops d1))" and "g_ID g = i"
  shows "\<not> Live t g"
proof -
  define dead where "dead d \<longleftrightarrow> (\<forall>x \<in> set (secret_grants d). g_ID x = i \<longrightarrow> g_RevokedAt x \<noteq> None)" for d :: db
  have step: "dead d \<Longrightarrow> \<forall>x. creates op x \<longrightarrow> g_ID x \<noteq> i \<Longrightarrow> dead (grant_exec op d)" for d op
    by (fastforce simp: dead_def dest: grant_exec_rows)
  have "dead d1"
  proof -
    obtain y where y: "y \<in> set (secret_grants d)" "g_UserID y = u" "g_ID y = i"
      using RevokeSecretGrant_Inr [OF assms(1)] by blast
    have "x = y" if "x \<in> set (secret_grants d)" "g_ID x = i" for x
      using assms(2) that y by (auto simp: table_ok_def constraint_defs same_def elim: unique_rows_D)
    with y RevokeSecretGrant_Inr [OF assms(1)] show ?thesis
      by (fastforce simp: dead_def set_update_rows split: option.splits)
  qed
  moreover have "dead d1 \<Longrightarrow> \<forall>op \<in> set ops. \<forall>x. creates op x \<longrightarrow> g_ID x \<noteq> i \<Longrightarrow> dead (fold grant_exec ops d1)"
    by (induction ops arbitrary: d1) (auto intro: step)
  ultimately show ?thesis using assms(3-5) by (auto simp: dead_def Live_def)
qed

text \<open>
  Deleting a secret takes its grants with it. After the two statements of the delete handler no
  grant of the owner names the secret, neither of a sandbox nor kept by a snapshot, so a secret set later
  under the same name starts without any; other owners' grants stay.
\<close>

theorem secret_deletion_drops_grants:
  assumes "DeleteSecret u n d = Inr d1"
  shows "let d2 = SetSecret now u n v (DeleteSecretGrantsForSecret u n d1) in
    (\<forall>g \<in> set (secret_grants d2). \<not> (g_UserID g = u \<and> g_SecretName g = n)) \<and>
    (\<forall>(s, w, g) \<in> set (snapshot_grants d2). \<not> (w = u \<and> sg_SecretName g = n)) \<and>
    filter (\<lambda>g. g_UserID g \<noteq> u) (secret_grants d2) = filter (\<lambda>g. g_UserID g \<noteq> u) (secret_grants d)"
proof -
  have d1: "secret_grants d1 = secret_grants d"
    using assms by (auto simp: DeleteSecret_def split: prod.splits if_splits)
  have set: "secret_grants (SetSecret now u n v x) = secret_grants x" "snapshot_grants (SetSecret now u n v x) = snapshot_grants x" for x
    by (auto simp: SetSecret_def Let_def split: sum.splits)
  show ?thesis
    by (auto simp: Let_def set DeleteSecretGrantsForSecret_def sql_delete_def d1 intro: filter_cong)
qed

definition example_grant :: SecretGrant where
  "example_grant = \<lparr>g_ID = ''g1'', g_UserID = ''alice'', g_SecretName = ''STRIPE'', g_SandboxID = ''sb1'',
     g_Hosts = [''api.stripe.com''], g_Placeholder = ''bhatti_sec_abcdefghijklmnopqrstuvwx'', g_CreatedAt = 100,
     g_ExpiresAt = Some 5000000000, g_RevokedAt = None\<rparr>"

definition example_db :: db where
  "example_db = after empty_db (CreateSecretGrant 100 example_grant (SetSecret 100 ''alice'' ''STRIPE'' [7, 7] empty_db))"

lemma revocation_final_witness:
  "\<not> Live 101 (example_grant\<lparr>g_RevokedAt := Some 200\<rparr>)"
proof (rule revocation_final [of "''alice''" "''g1''" 200 example_db _ "[GDropSandbox ''sb2'']"])
  show "RevokeSecretGrant ''alice'' ''g1'' 200 example_db = Inr (after example_db (RevokeSecretGrant ''alice'' ''g1'' 200 example_db))"
    by code_simp
  show "table_ok secret_grants_cs (secret_grants example_db)" by code_simp
  show "\<forall>op \<in> set [GDropSandbox ''sb2'']. \<forall>x. creates op x \<longrightarrow> g_ID x \<noteq> ''g1''" by simp
  show "example_grant\<lparr>g_RevokedAt := Some 200\<rparr> \<in>
      set (secret_grants (fold grant_exec [GDropSandbox ''sb2''] (after example_db (RevokeSecretGrant ''alice'' ''g1'' 200 example_db))))"
    by code_simp
  show "g_ID (example_grant\<lparr>g_RevokedAt := Some 200\<rparr>) = ''g1''" by code_simp
qed

lemma secret_deletion_drops_grants_witness:
  "let d2 = SetSecret 300 ''alice'' ''STRIPE'' [1]
        (DeleteSecretGrantsForSecret ''alice'' ''STRIPE'' (after example_db (DeleteSecret ''alice'' ''STRIPE'' example_db))) in
    (\<forall>g \<in> set (secret_grants d2). \<not> (g_UserID g = ''alice'' \<and> g_SecretName g = ''STRIPE'')) \<and>
    (\<forall>(s, w, g) \<in> set (snapshot_grants d2). \<not> (w = ''alice'' \<and> sg_SecretName g = ''STRIPE'')) \<and>
    filter (\<lambda>g. g_UserID g \<noteq> ''alice'') (secret_grants d2) = filter (\<lambda>g. g_UserID g \<noteq> ''alice'') (secret_grants example_db)"
  by (rule secret_deletion_drops_grants) code_simp

end
