(* ===== verification/Placeholder.thy ===== *)
theory Placeholder
  imports Bhatti_Prelude
begin

text \<open>
  Placeholders, \<^verbatim>\<open>src/pkg/gateway/placeholder.go\<close>: the strings \<open>bhatti_sec_<24 base32>\<close> a guest
  holds in place of a secret. The scanner \<open>indexPlaceholder\<close> keeps the loop of the source (an offset
  moved past each rejected prefix); its lemmas say it finds exactly the first occurrence, which is what
  the header substitution and the body guard of \<open>Intercept\<close> rely on. Go's \<open>[]byte(s)\<close> and
  \<open>string(b)\<close> conversions keep the bytes, so both sides are \<open>string\<close> here.
\<close>

definition PlaceholderPrefix :: string where
  "PlaceholderPrefix = ''bhatti_sec_''"

definition placeholderRandChars :: nat where
  "placeholderRandChars = 24"

definition PlaceholderLen :: nat where
  "PlaceholderLen = length PlaceholderPrefix + placeholderRandChars"

lemma length_PlaceholderPrefix [simp]: "length PlaceholderPrefix = 11"
  by (simp add: PlaceholderPrefix_def)

lemma PlaceholderLen_eq: "PlaceholderLen = 35"
  by (simp add: PlaceholderLen_def placeholderRandChars_def)

subsection \<open>Minting\<close>

text \<open>
  \<^verbatim>\<open>base32.NewEncoding(alphabet).WithPadding(NoPadding).EncodeToString\<close>: the bits of the input, most
  significant first, in groups of five, the last group filled with zeroes.
\<close>

definition byte_bits :: "byte \<Rightarrow> bool list" where
  "byte_bits b = map (bit b) [7, 6, 5, 4, 3, 2, 1, 0]"

definition base32_alphabet :: string where
  "base32_alphabet = ''abcdefghijklmnopqrstuvwxyz234567''"

definition bits_val :: "bool list \<Rightarrow> nat" where
  "bits_val bs = foldl (\<lambda>n b. 2 * n + of_bool b) 0 bs"

fun base32_groups :: "bool list \<Rightarrow> string" where
  "base32_groups (a # b # c # d # e # bs) = base32_alphabet ! bits_val [a, b, c, d, e] # base32_groups bs"
| "base32_groups [] = []"
| "base32_groups bs = [base32_alphabet ! bits_val (take 5 (bs @ replicate 5 False))]"

definition base32_encode :: "bytes \<Rightarrow> string" where
  "base32_encode bs = base32_groups (concat (map byte_bits bs))"

text \<open>\<open>NewPlaceholder\<close>, the fifteen bytes of \<^verbatim>\<open>rand.Read\<close> as its argument (\<open>None\<close> when it fails).\<close>

definition NewPlaceholder :: "bytes option \<Rightarrow> string option" where
  "NewPlaceholder rand = (case rand of None \<Rightarrow> None | Some b \<Rightarrow> Some (PlaceholderPrefix @ base32_encode b))"

subsection \<open>Scanning\<close>

definition isPlaceholderChar :: "char \<Rightarrow> bool" where
  "isPlaceholderChar c \<longleftrightarrow> (let n = of_char c :: nat in (97 \<le> n \<and> n \<le> 122) \<or> (50 \<le> n \<and> n \<le> 55))"

function index_from :: "nat \<Rightarrow> string \<Rightarrow> nat option" where
  "index_from off b =
     (case index_of PlaceholderPrefix (drop off b) of
        None \<Rightarrow> None
      | Some i \<Rightarrow>
          (let start = off + i; stop = start + PlaceholderLen in
           if stop > length b then None
           else if list_all isPlaceholderChar
                     (take placeholderRandChars (drop (start + length PlaceholderPrefix) b))
           then Some start
           else index_from (start + 1) b))"
  by pat_completeness auto
termination
proof (relation "measure (\<lambda>(off, b). length b - off)", goal_cases)
  case (2 off b i start stop)
  then show ?case by (auto simp: PlaceholderLen_eq)
qed simp

declare index_from.simps [simp del]

definition indexPlaceholder :: "string \<Rightarrow> nat option" where
  "indexPlaceholder b = index_from 0 b"

definition IsPlaceholder :: "string \<Rightarrow> bool" where
  "IsPlaceholder s \<longleftrightarrow> length s = PlaceholderLen \<and> indexPlaceholder s = Some 0"

lemma index_from_bound: "index_from off b = Some i \<Longrightarrow> off \<le> i \<and> i + PlaceholderLen \<le> length b"
proof (induction off b rule: index_from.induct)
  case (1 off b)
  from "1.prems" obtain k where k: "index_of PlaceholderPrefix (drop off b) = Some k"
    by (subst (asm) index_from.simps) (auto split: option.splits)
  show ?case
    using "1.prems" "1.IH" [OF k refl refl] k
    by (subst (asm) index_from.simps) (auto simp: Let_def split: if_splits)
qed

text \<open>\<open>FindPlaceholders\<close>: the distinct placeholders, in order of first appearance; \<open>seen\<close> holds the keys of the source's map, which are the strings in \<open>out\<close>.\<close>

function find_loop :: "string list \<Rightarrow> string \<Rightarrow> string list" where
  "find_loop out b =
     (case indexPlaceholder b of
        None \<Rightarrow> out
      | Some i \<Rightarrow>
          (let p = take PlaceholderLen (drop i b) in
           find_loop (if p \<in> set out then out else out @ [p]) (drop (i + PlaceholderLen) b)))"
  by pat_completeness auto
termination
  by (relation "measure (\<lambda>(out, b). length b)")
    (auto simp: indexPlaceholder_def PlaceholderLen_eq dest!: index_from_bound)

declare find_loop.simps [simp del]

definition FindPlaceholders :: "string \<Rightarrow> string list" where
  "FindPlaceholders b = find_loop [] b"

definition ContainsPlaceholder :: "string \<Rightarrow> bool" where
  "ContainsPlaceholder b \<longleftrightarrow> indexPlaceholder b \<noteq> None"

section \<open>The scanner finds the first occurrence\<close>

text \<open>A placeholder starts at offset \<open>i\<close> of \<open>b\<close>.\<close>

definition placeholder_at :: "string \<Rightarrow> nat \<Rightarrow> bool" where
  "placeholder_at b i \<longleftrightarrow> i + 35 \<le> length b \<and> take 11 (drop i b) = PlaceholderPrefix \<and>
     list_all isPlaceholderChar (take 24 (drop (i + 11) b))"

lemma index_from_Some:
  "index_from off b = Some i \<Longrightarrow> off \<le> i \<and> placeholder_at b i \<and> (\<forall>j. off \<le> j \<and> j < i \<longrightarrow> \<not> placeholder_at b j)"
proof (induction off b rule: index_from.induct)
  case (1 off b)
  from "1.prems" obtain k where k: "index_of PlaceholderPrefix (drop off b) = Some k"
    by (subst (asm) index_from.simps) (auto split: option.splits)
  have here: "take 11 (drop (off + k) b) = PlaceholderPrefix"
    using index_of_Some [OF k] by (simp add: add.commute)
  have before: "\<not> placeholder_at b j" if "off \<le> j" "j < off + k" for j
    using index_of_first [OF k, of "j - off"] that by (auto simp: placeholder_at_def)
  show ?case
  proof (cases "list_all isPlaceholderChar (take 24 (drop (off + k + 11) b))")
    case True
    with "1.prems" k have "i = off + k" "i + 35 \<le> length b"
      by (subst (asm) index_from.simps,
          auto simp: Let_def PlaceholderLen_eq placeholderRandChars_def split: if_splits)+
    with True here before show ?thesis by (auto simp: placeholder_at_def)
  next
    case False
    with "1.prems" k have len: "off + k + 35 \<le> length b" and rec: "index_from (off + k + 1) b = Some i"
      by (subst (asm) index_from.simps,
          auto simp: Let_def PlaceholderLen_eq placeholderRandChars_def split: if_splits)+
    have IH: "off + k + 1 \<le> i \<and> placeholder_at b i \<and> (\<forall>j. off + k + 1 \<le> j \<and> j < i \<longrightarrow> \<not> placeholder_at b j)"
      using "1.IH" [OF k refl refl] False rec len by (simp add: PlaceholderLen_eq placeholderRandChars_def)
    have "\<not> placeholder_at b j" if "off \<le> j" "j < i" for j
    proof -
      consider "j < off + k" | "j = off + k" | "off + k + 1 \<le> j" by linarith
      then show ?thesis using before [OF that(1)] False IH that(2) by cases (auto simp: placeholder_at_def)
    qed
    with IH show ?thesis by simp
  qed
qed

lemma index_from_None:
  "index_from off b = None \<Longrightarrow> off \<le> j \<Longrightarrow> \<not> placeholder_at b j"
proof (induction off b rule: index_from.induct)
  case (1 off b)
  show ?case
  proof (cases "index_of PlaceholderPrefix (drop off b)")
    case None
    show ?thesis
    proof
      assume "placeholder_at b j"
      with "1.prems"(2) have "j - off + 11 \<le> length (drop off b)" "take 11 (drop (j - off) (drop off b)) = PlaceholderPrefix"
        by (auto simp: placeholder_at_def)
      with index_of_None [OF None, of "j - off"] show False by simp
    qed
  next
    case (Some k)
    have before: "\<not> placeholder_at b j" if "j < off + k"
      using index_of_first [OF Some, of "j - off"] that "1.prems"(2) by (auto simp: placeholder_at_def)
    show ?thesis
    proof (cases "j < off + k")
      case False
      have none: "(let start = off + k; stop = start + PlaceholderLen in
           if stop > length b then None
           else if list_all isPlaceholderChar (take placeholderRandChars (drop (start + length PlaceholderPrefix) b))
           then Some start else index_from (start + 1) b) = None"
        using "1.prems"(1) Some by (subst (asm) index_from.simps) simp
      show ?thesis
      proof (cases "j = off + k")
        case True
        with none show ?thesis
          by (auto simp: Let_def PlaceholderLen_eq placeholderRandChars_def placeholder_at_def split: if_splits)
      next
        case ne: False
        with none False "1.IH" [OF Some refl refl] show ?thesis
          by (auto simp: Let_def PlaceholderLen_eq placeholder_at_def split: if_splits)
      qed
    qed (rule before)
  qed
qed

lemma indexPlaceholder_Some_iff:
  "indexPlaceholder b = Some i \<longleftrightarrow> placeholder_at b i \<and> (\<forall>j<i. \<not> placeholder_at b j)"
proof
  assume "indexPlaceholder b = Some i"
  from index_from_Some [OF this [unfolded indexPlaceholder_def]]
  show "placeholder_at b i \<and> (\<forall>j<i. \<not> placeholder_at b j)" by simp
next
  assume r: "placeholder_at b i \<and> (\<forall>j<i. \<not> placeholder_at b j)"
  show "indexPlaceholder b = Some i"
  proof (cases "index_from 0 b")
    case None
    from index_from_None [OF this, of i] r show ?thesis by simp
  next
    case (Some k)
    from index_from_Some [OF Some] r have "k = i" by (metis linorder_neqE_nat zero_le)
    with Some show ?thesis by (simp add: indexPlaceholder_def)
  qed
qed

lemma indexPlaceholder_None_iff: "indexPlaceholder b = None \<longleftrightarrow> (\<forall>j. \<not> placeholder_at b j)"
proof
  assume "indexPlaceholder b = None"
  with index_from_None [of 0 b] show "\<forall>j. \<not> placeholder_at b j" by (simp add: indexPlaceholder_def)
next
  assume "\<forall>j. \<not> placeholder_at b j"
  then show "indexPlaceholder b = None"
    by (cases "indexPlaceholder b") (auto simp: indexPlaceholder_Some_iff)
qed

lemma ContainsPlaceholder_iff: "ContainsPlaceholder b \<longleftrightarrow> (\<exists>j. placeholder_at b j)"
  by (auto simp: ContainsPlaceholder_def indexPlaceholder_None_iff simp del: not_None_eq)

lemma IsPlaceholder_iff: "IsPlaceholder s \<longleftrightarrow> length s = 35 \<and> placeholder_at s 0"
  by (auto simp: IsPlaceholder_def indexPlaceholder_Some_iff PlaceholderLen_eq)

lemma placeholder_at_take: "placeholder_at b i \<Longrightarrow> IsPlaceholder (take 35 (drop i b))"
  by (auto simp: IsPlaceholder_iff placeholder_at_def min_def take_drop add.commute drop_drop)

section \<open>What FindPlaceholders reports\<close>

text \<open>
  Two occurrences can overlap only in the last six bytes of the first: the tail is free of \<open>_\<close>,
  so a second prefix inside the first occurrence can have only its \<open>bhatti\<close> there.
\<close>

lemma placeholder_at_nth:
  assumes "placeholder_at b i" "k < 35"
  shows "if k < 11 then b ! (i + k) = PlaceholderPrefix ! k else isPlaceholderChar (b ! (i + k))"
proof (cases "k < 11")
  case True
  with assms have "take 11 (drop i b) ! k = PlaceholderPrefix ! k" by (simp add: placeholder_at_def)
  moreover have "take 11 (drop i b) ! k = b ! (i + k)"
    using True assms(1) by (subst nth_take, simp) (rule nth_drop, simp add: placeholder_at_def)
  ultimately show ?thesis using True by simp
next
  case False
  from assms have "\<forall>n < 24. isPlaceholderChar (take 24 (drop (i + 11) b) ! n)"
    by (auto simp: placeholder_at_def list_all_length)
  with False assms show ?thesis by (auto simp: placeholder_at_def dest: spec [of _ "k - 11"])
qed

lemma prefix_nth:
  "PlaceholderPrefix ! 0 = CHR ''b''" "PlaceholderPrefix ! 6 = CHR ''_''"
  "k < 11 \<Longrightarrow> PlaceholderPrefix ! k = CHR ''_'' \<Longrightarrow> k = 6 \<or> k = 10"
  "PlaceholderPrefix ! 4 = CHR ''t''"
proof -
  show "k < 11 \<Longrightarrow> PlaceholderPrefix ! k = CHR ''_'' \<Longrightarrow> k = 6 \<or> k = 10"
    unfolding PlaceholderPrefix_def by (auto simp: less_Suc_eq numeral_eq_Suc)
qed (simp_all add: PlaceholderPrefix_def)

lemma underscore_not_placeholder_char: "\<not> isPlaceholderChar (CHR ''_'')"
  by (simp add: isPlaceholderChar_def)

lemma placeholder_overlap:
  assumes i: "placeholder_at b i" and j: "placeholder_at b j" and "i < j" "j < i + 35"
  shows "i + 29 \<le> j"
proof (rule ccontr)
  assume "\<not> i + 29 \<le> j"
  then have lt: "j - i + 6 < 35" using \<open>i < j\<close> by simp
  have idx: "i + (j - i + 6) = j + 6" using \<open>i < j\<close> by simp
  have "b ! (j + 6) = CHR ''_''" using placeholder_at_nth [OF j, of 6] prefix_nth by simp
  with placeholder_at_nth [OF i lt] underscore_not_placeholder_char prefix_nth(3) [of "j - i + 6"]
  have "j - i + 6 = 6 \<or> j - i + 6 = 10" by (auto simp: idx split: if_splits)
  with \<open>i < j\<close> have "j = i + 4" by linarith
  with placeholder_at_nth [OF i, of 4] placeholder_at_nth [OF j, of 0] prefix_nth show False by simp
qed

lemma placeholder_at_drop: "k \<le> length b \<Longrightarrow> placeholder_at (drop k b) j \<longleftrightarrow> placeholder_at b (k + j)"
  using le_diff_conv2 [of k "length b" "j + 35"] by (simp add: placeholder_at_def ac_simps)

lemma find_loop_props:
  "set out \<subseteq> set (find_loop out b) \<and>
   (distinct out \<longrightarrow> distinct (find_loop out b)) \<and>
   (\<forall>p \<in> set (find_loop out b). p \<in> set out \<or> (\<exists>i. placeholder_at b i \<and> p = take 35 (drop i b))) \<and>
   (\<forall>j. placeholder_at b j \<longrightarrow>
      (\<exists>i. placeholder_at b i \<and> take 35 (drop i b) \<in> set (find_loop out b) \<and> (i = j \<or> i + 29 \<le> j \<and> j < i + 35)))"
proof (induction out b rule: find_loop.induct)
  case (1 out b)
  show ?case
  proof (cases "indexPlaceholder b")
    case None
    then have "find_loop out b = out" by (subst find_loop.simps) simp
    with None show ?thesis by (simp add: indexPlaceholder_None_iff)
  next
    case (Some i)
    let ?p = "take 35 (drop i b)" and ?out = "if take 35 (drop i b) \<in> set out then out else out @ [take 35 (drop i b)]"
    let ?b = "drop (i + 35) b"
    have at: "placeholder_at b i" and first: "\<And>j. placeholder_at b j \<Longrightarrow> i \<le> j"
      using Some by (auto simp: indexPlaceholder_Some_iff not_less dest: leI)
    then have len: "i + 35 \<le> length b" by (simp add: placeholder_at_def)
    have eq: "find_loop out b = find_loop ?out ?b"
      using Some by (subst find_loop.simps) (simp add: Let_def PlaceholderLen_eq)
    note IH = "1.IH" [OF Some refl, unfolded PlaceholderLen_eq]
    have p: "?p \<in> set (find_loop ?out ?b)" using IH by (auto split: if_splits)
    have rest: "\<exists>i'. placeholder_at b i' \<and> take 35 (drop i' b) \<in> set (find_loop out b) \<and> (i' = j \<or> i' + 29 \<le> j \<and> j < i' + 35)"
      if j: "placeholder_at b j" for j
    proof (cases "j < i + 35")
      case True
      with placeholder_overlap [OF at j] first [OF j] have "i = j \<or> i + 29 \<le> j \<and> j < i + 35"
        by (metis le_neq_implies_less)
      with at p show ?thesis unfolding eq by blast
    next
      case False
      then have "placeholder_at ?b (j - (i + 35))" using j len by (simp add: placeholder_at_drop)
      then obtain k where k: "placeholder_at ?b k" "take 35 (drop k ?b) \<in> set (find_loop ?out ?b)"
        "k = j - (i + 35) \<or> k + 29 \<le> j - (i + 35) \<and> j - (i + 35) < k + 35"
        using IH by blast
      then show ?thesis using False len unfolding eq
        by (intro exI [of _ "i + 35 + k"]) (auto simp: placeholder_at_drop add.commute add.left_commute)
    qed
    have sub: "p \<in> set out \<or> (\<exists>i. placeholder_at b i \<and> p = take 35 (drop i b))"
      if "p \<in> set (find_loop ?out ?b)" for p
    proof -
      from IH that consider "p \<in> set ?out" | k where "placeholder_at ?b k" "p = take 35 (drop k ?b)" by blast
      then show ?thesis
      proof cases
        case 1
        with at show ?thesis by (auto split: if_splits)
      next
        case 2
        with len show ?thesis by (intro disjI2 exI [of _ "i + 35 + k"]) (simp add: placeholder_at_drop add.commute)
      qed
    qed
    have "set out \<subseteq> set (find_loop ?out ?b)" "distinct out \<longrightarrow> distinct (find_loop ?out ?b)"
      using IH by (auto split: if_splits)
    with sub rest show ?thesis unfolding eq by blast
  qed
qed

lemma FindPlaceholders_empty_iff: "FindPlaceholders b = [] \<longleftrightarrow> \<not> ContainsPlaceholder b"
  using find_loop_props [of "[]" b] by (auto simp: FindPlaceholders_def ContainsPlaceholder_iff)

lemma FindPlaceholders_sound: "p \<in> set (FindPlaceholders b) \<Longrightarrow> IsPlaceholder p \<and> contains b p"
  using find_loop_props [of "[]" b]
  by (auto simp: FindPlaceholders_def contains_iff intro: placeholder_at_take) (metis append_take_drop_id)

section \<open>Minted placeholders\<close>

lemma bits_val_less: "length bs \<le> 5 \<Longrightarrow> bits_val bs < 32"
proof -
  have "foldl (\<lambda>n b. 2 * n + of_bool b) m bs < (m + 1) * 2 ^ length bs" for m :: nat
  proof (induction bs arbitrary: m)
    case (Cons b bs)
    have "(2 * m + of_bool b + 1) * 2 ^ length bs \<le> (m + 1) * 2 ^ length (b # bs)"
      by (auto simp: algebra_simps)
    with Cons [of "2 * m + of_bool b"] show ?case by simp
  qed simp
  from this [of 0] have "bits_val bs < 2 ^ length bs" by (simp add: bits_val_def)
  moreover assume "length bs \<le> 5"
  then have "(2::nat) ^ length bs \<le> 2 ^ 5" by (intro power_increasing) auto
  ultimately show ?thesis by simp
qed

lemma bits_val5_inj: "bits_val [a, b, c, d, e] = bits_val [a', b', c', d', e'] \<longleftrightarrow> [a, b, c, d, e] = [a', b', c', d', e']"
  by (cases a; cases b; cases c; cases d; cases e; cases a'; cases b'; cases c'; cases d'; cases e')
    (simp_all add: bits_val_def)

lemma alphabet_chars: "\<forall>n < 32. isPlaceholderChar (base32_alphabet ! n)"
proof -
  have "list_all isPlaceholderChar base32_alphabet" "length base32_alphabet = 32" by code_simp+
  then show ?thesis by (simp add: list_all_length)
qed

lemma alphabet_inj: "n < 32 \<Longrightarrow> m < 32 \<Longrightarrow> base32_alphabet ! n = base32_alphabet ! m \<longleftrightarrow> n = m"
proof -
  have "distinct base32_alphabet" "length base32_alphabet = 32" by code_simp+
  then show "n < 32 \<Longrightarrow> m < 32 \<Longrightarrow> base32_alphabet ! n = base32_alphabet ! m \<longleftrightarrow> n = m"
    by (simp add: nth_eq_iff_index_eq)
qed

lemma base32_groups_props:
  "length bs = 5 * k \<Longrightarrow> length (base32_groups bs) = k \<and> list_all isPlaceholderChar (base32_groups bs)"
proof (induction k arbitrary: bs)
  case (Suc k)
  obtain a b c d e bs' where "bs = a # b # c # d # e # bs'" "length bs' = 5 * k"
    using Suc.prems by (auto simp: length_Suc_conv numeral_eq_Suc)
  with Suc.IH [of bs'] alphabet_chars bits_val_less [of "[a, b, c, d, e]"] show ?case by simp
qed simp

lemma base32_groups_inj:
  "length bs = 5 * k \<Longrightarrow> length cs = 5 * k \<Longrightarrow> base32_groups bs = base32_groups cs \<Longrightarrow> bs = cs"
proof (induction k arbitrary: bs cs)
  case (Suc k)
  obtain a b c d e bs' where bs: "bs = a # b # c # d # e # bs'" "length bs' = 5 * k"
    using Suc.prems(1) by (auto simp: length_Suc_conv numeral_eq_Suc)
  obtain a' b' c' d' e' cs' where cs: "cs = a' # b' # c' # d' # e' # cs'" "length cs' = 5 * k"
    using Suc.prems(2) by (auto simp: length_Suc_conv numeral_eq_Suc)
  have "base32_alphabet ! bits_val [a, b, c, d, e] = base32_alphabet ! bits_val [a', b', c', d', e']"
    and "base32_groups bs' = base32_groups cs'"
    using Suc.prems(3) by (simp_all only: bs cs base32_groups.simps list.inject)
  then have "bits_val [a, b, c, d, e] = bits_val [a', b', c', d', e']" and "bs' = cs'"
    using alphabet_inj bits_val_less [of "[a, b, c, d, e]"] bits_val_less [of "[a', b', c', d', e']"]
      Suc.IH [OF bs(2) cs(2)] by simp_all
  then show ?case by (simp only: bits_val5_inj bs cs list.inject)
qed simp

lemma length_byte_bits [simp]: "length (byte_bits b) = 8"
  by (simp add: byte_bits_def)

lemma byte_bits_inj: "byte_bits b = byte_bits c \<Longrightarrow> b = c"
proof -
  assume "byte_bits b = byte_bits c"
  then have "\<forall>n \<in> set [7, 6, 5, 4, 3, 2, 1, 0]. bit b n = bit c n" by (simp add: byte_bits_def)
  moreover have "n \<in> set [7, 6, 5, 4, 3, 2, 1, 0]" if "n < 8" for n :: nat using that by auto
  ultimately show "b = c" by (intro bit_word_eqI) auto
qed

lemma bytes_bits_inj:
  "length bs = length cs \<Longrightarrow> concat (map byte_bits bs) = concat (map byte_bits cs) \<Longrightarrow> bs = cs"
  by (induction bs cs rule: list_induct2) (auto dest: byte_bits_inj)

lemma length_bytes_bits: "length (concat (map byte_bits bs)) = 8 * length bs"
  by (induction bs) auto

text \<open>
  Every minted placeholder is one, and no randomness is lost. From fifteen random bytes
  \<open>NewPlaceholder\<close> makes a string that \<open>IsPlaceholder\<close> accepts, and two different draws give two
  different placeholders.
\<close>

theorem minted_placeholders:
  assumes "length r = 15" and "length r' = 15"
  shows "\<exists>p. NewPlaceholder (Some r) = Some p \<and> IsPlaceholder p \<and>
     (NewPlaceholder (Some r') = Some p \<longleftrightarrow> r' = r)"
proof -
  have len: "length (concat (map byte_bits x)) = 5 * 24" if "length x = 15" for x
    using that by (simp add: length_bytes_bits)
  have shape: "length (base32_encode x) = 24 \<and> list_all isPlaceholderChar (base32_encode x)" if "length x = 15" for x
    unfolding base32_encode_def by (rule base32_groups_props [OF len [OF that]])
  have "IsPlaceholder (PlaceholderPrefix @ base32_encode r)"
    using shape [OF assms(1)] by (simp add: IsPlaceholder_iff placeholder_at_def)
  moreover have "base32_encode r' = base32_encode r \<longleftrightarrow> r' = r"
    using base32_groups_inj [OF len [OF assms(2)] len [OF assms(1)]] bytes_bits_inj [of r' r] assms
    by (auto simp: base32_encode_def)
  ultimately show ?thesis by (auto simp: NewPlaceholder_def)
qed

lemma minted_placeholders_witness:
  "\<exists>p. NewPlaceholder (Some (replicate 15 7)) = Some p \<and> IsPlaceholder p \<and>
     (NewPlaceholder (Some (replicate 15 8)) = Some p \<longleftrightarrow> replicate 15 (8::byte) = replicate 15 7)"
  by (rule minted_placeholders) simp_all

text \<open>
  The scanner sees every placeholder. The offset loop of \<open>indexPlaceholder\<close> returns the first
  offset where a placeholder starts, and -1 only when there is none; what
  \<open>FindPlaceholders\<close> returns is distinct, consists of placeholders of the input, and misses
  an occurrence only if it starts in the last six bytes of one it reports (the six bytes
  \<open>bhatti\<close> ending one placeholder and starting the next).
\<close>

theorem FindPlaceholders_complete:
  "(indexPlaceholder b = Some i \<longleftrightarrow> placeholder_at b i \<and> (\<forall>j<i. \<not> placeholder_at b j)) \<and>
   (indexPlaceholder b = None \<longleftrightarrow> (\<forall>j. \<not> placeholder_at b j)) \<and>
   distinct (FindPlaceholders b) \<and>
   (\<forall>p \<in> set (FindPlaceholders b). IsPlaceholder p \<and> contains b p) \<and>
   (\<forall>j. placeholder_at b j \<longrightarrow>
      (\<exists>i. placeholder_at b i \<and> take PlaceholderLen (drop i b) \<in> set (FindPlaceholders b) \<and>
         (i = j \<or> i + 29 \<le> j \<and> j < i + PlaceholderLen)))"
  using find_loop_props [of "[]" b] FindPlaceholders_sound [of _ b]
  by (simp add: indexPlaceholder_Some_iff indexPlaceholder_None_iff FindPlaceholders_def PlaceholderLen_eq)

definition example_placeholder :: string where
  "example_placeholder = ''bhatti_sec_abcdefghijklmnopqrstuvwx''"

lemma FindPlaceholders_complete_witness:
  "(let b = ''Bearer '' @ example_placeholder in
    (indexPlaceholder b = Some 7 \<longleftrightarrow> placeholder_at b 7 \<and> (\<forall>j<7. \<not> placeholder_at b j)) \<and>
    FindPlaceholders b = [example_placeholder])"
proof -
  have "FindPlaceholders (''Bearer '' @ example_placeholder) = [example_placeholder]" by code_simp
  then show ?thesis
    using FindPlaceholders_complete [of "''Bearer '' @ example_placeholder" 7] by (simp add: Let_def)
qed

end
