(* ===== verification/Broker.thy ===== *)
theory Broker
  imports Grants Guard Placeholder
begin

text \<open>
  The credential broker, \<^verbatim>\<open>src/pkg/broker/broker.go\<close>, with the request and response of
  \<^verbatim>\<open>src/pkg/gateway/broker.go\<close>. It is written over the \<open>Store\<close> interface (\<open>store_api\<close>), as the
  code is; decryption (age) and the issuing of a leaf certificate (\<open>crypto/x509\<close>) are the functions of
  \<open>broker_cfg\<close>. A request is answered at one instant \<open>now\<close>, where the code reads the clock
  again to audit. Durations are int64 nanoseconds: \<open>time.Time.Sub\<close> saturates and \<open>+\<close> wraps.
  The event limiter counts tokens in \<open>float64\<close>; here a token is \<open>10^9\<close> units of an
  exact \<open>int\<close>, so that one nanosecond refills \<open>5\<close> units, and rounding is not modelled.
\<close>

section \<open>Messages and configuration\<close>

definition BrokerResolve :: string where "BrokerResolve = ''resolve''"
definition BrokerCert :: string where "BrokerCert = ''cert''"
definition BrokerReport :: string where "BrokerReport = ''report''"

record broker_request =
  q_Op :: string
  q_Sandbox :: string
  q_Placeholder :: string
  q_Host :: string
  q_Reason :: string

record broker_response =
  p_Value :: string
  p_TTLSeconds :: int
  p_CertPEM :: string
  p_KeyPEM :: string
  p_Error :: string

record audit_event =
  ev_Type :: string
  ev_UserID :: string
  ev_SandboxID :: string
  ev_Host :: string
  ev_Grant :: "(string \<times> string) option"
  ev_Reason :: string
  ev_Dropped :: nat

record broker_cfg =
  cfg_Decrypt :: "bytes \<Rightarrow> string option"
  cfg_issueLeaf :: "string \<Rightarrow> string \<Rightarrow> string \<Rightarrow> time \<Rightarrow> int \<Rightarrow> (string \<times> string) option"

definition leafLife :: int where "leafLife = 24 * 3600 * second"
definition maxReason :: nat where "maxReason = 200"

section \<open>The event limiter\<close>

definition eventBurst :: int where "eventBurst = 50"
definition eventRate :: int where "eventRate = 5"
definition bucketLimit :: nat where "bucketLimit = 4096"

record bucket =
  bk_tokens :: int
  bk_last :: time
  bk_dropped :: nat

type_synonym limiter = "(string \<times> bucket) list"

text \<open>One token, in the units the bucket counts.\<close>

definition token :: int where "token = second"

definition allow :: "string \<Rightarrow> time \<Rightarrow> limiter \<Rightarrow> bool \<times> nat \<times> limiter" where
  "allow key now l =
     (let l1 = (case map_of l key of
                  Some _ \<Rightarrow> l
                | None \<Rightarrow>
                    AList.update key \<lparr>bk_tokens = eventBurst * token, bk_last = now, bk_dropped = 0\<rparr>
                      (if length l \<ge> bucketLimit then filter (\<lambda>(k, old). \<not> now - bk_last old > 60 * second) l else l));
          bk = the (map_of l1 key);
          tokens = min (eventBurst * token) (bk_tokens bk + (now - bk_last bk) * eventRate) in
      if tokens < token
      then (False, 0, AList.update key \<lparr>bk_tokens = tokens, bk_last = now, bk_dropped = bk_dropped bk + 1\<rparr> l1)
      else (True, bk_dropped bk, AList.update key \<lparr>bk_tokens = tokens - token, bk_last = now, bk_dropped = 0\<rparr> l1))"

section \<open>The broker\<close>

record broker =
  events :: limiter
  audit_log :: "audit_event list"

definition refuse :: "string \<Rightarrow> broker_response" where
  "refuse reason = \<lparr>p_Value = [], p_TTLSeconds = 0, p_CertPEM = [], p_KeyPEM = [], p_Error = reason\<rparr>"

definition sandboxFor :: "store_api \<Rightarrow> string \<Rightarrow> string \<Rightarrow> string" where
  "sandboxFor api userID ref =
     (case api_by_engine_id api ref of
        Inr sb \<Rightarrow> if sb_CreatedBy sb = userID then sb_ID sb else ref
      | Inl _ \<Rightarrow> ref)"

definition normalizeHost :: "string \<Rightarrow> string" where
  "normalizeHost h = to_lower (trim_suffix (trim_space h) ''.'')"

definition hostGranted :: "string list \<Rightarrow> string \<Rightarrow> bool" where
  "hostGranted patterns host =
     list_ex (\<lambda>s. case ParseHostPattern s of Inl _ \<Rightarrow> False | Inr p \<Rightarrow> Match p host) patterns"

definition ldh_char :: "char \<Rightarrow> bool" where
  "ldh_char c \<longleftrightarrow> (let n = of_char c :: nat in
     (97 \<le> n \<and> n \<le> 122) \<or> (48 \<le> n \<and> n \<le> 57) \<or> c = CHR ''-'' \<or> c = CHR ''_'')"

definition validHostname :: "string \<Rightarrow> bool" where
  "validHostname h \<longleftrightarrow> h \<noteq> [] \<and> length h \<le> 253 \<and>
     list_all (\<lambda>label. label \<noteq> [] \<and> length label \<le> 63 \<and> list_all ldh_char label) (split_on (CHR ''.'') h)"

text \<open>\<open>record\<close> audits within the sandbox's budget.\<close>

definition record_event ::
  "string \<Rightarrow> time \<Rightarrow> string \<Rightarrow> string \<Rightarrow> string \<Rightarrow> SecretGrant option \<Rightarrow> string \<Rightarrow> broker \<Rightarrow> broker" where
  "record_event typ now userID sandboxID host g reason b =
     (case allow sandboxID now (events b) of
        (ok, dropped, l) \<Rightarrow>
          if \<not> ok then b\<lparr>events := l\<rparr>
          else b\<lparr>events := l,
                 audit_log := audit_log b @
                   [\<lparr>ev_Type = typ, ev_UserID = userID, ev_SandboxID = sandboxID, ev_Host = host,
                     ev_Grant = map_option (\<lambda>g. (g_SecretName g, g_ID g)) g,
                     ev_Reason = reason, ev_Dropped = dropped\<rparr>]\<rparr>)"

definition deny ::
  "time \<Rightarrow> string \<Rightarrow> string \<Rightarrow> string \<Rightarrow> SecretGrant option \<Rightarrow> string \<Rightarrow> broker \<Rightarrow> broker_response \<times> broker" where
  "deny now userID sandboxID host g reason b =
     (refuse reason, record_event ''secret.denied'' now userID sandboxID host g reason b)"

text \<open>\<open>grantFor\<close>: the sandbox's own grant (\<open>True\<close>), another one of the owner's (\<open>False\<close>), none, or an error.\<close>

definition grantFor :: "store_api \<Rightarrow> string \<Rightarrow> string \<Rightarrow> string \<Rightarrow> sql_error + (SecretGrant \<times> bool) option" where
  "grantFor api userID sandboxID placeholder =
     (let second_look =
        (case api_by_owner api userID placeholder of
           Inr g \<Rightarrow> Inr (Some (g, False))
         | Inl e \<Rightarrow> if e = ErrNoRows then Inr None else Inl e) in
      case api_by_sandbox api sandboxID placeholder of
        Inr g \<Rightarrow> if g_UserID g = userID then Inr (Some (g, True)) else second_look
      | Inl e \<Rightarrow> if e \<noteq> ErrNoRows then Inl e else second_look)"

text \<open>\<open>g.ExpiresAt.Sub(now)\<close>, rounded up to seconds in int64 arithmetic.\<close>

definition wrap64 :: "int \<Rightarrow> int" where
  "wrap64 x = (x + 2 ^ 63) mod 2 ^ 64 - 2 ^ 63"

definition time_sub :: "time \<Rightarrow> time \<Rightarrow> int" where
  "time_sub a b = max (- (2 ^ 63)) (min (2 ^ 63 - 1) (a - b))"

definition go_div :: "int \<Rightarrow> int \<Rightarrow> int" where
  "go_div a b = (if a < 0 then - ((- a) div b) else a div b)"

definition resolve_ttl :: "time \<Rightarrow> time \<Rightarrow> int" where
  "resolve_ttl expires now = go_div (wrap64 (wrap64 (time_sub expires now + second) - 1)) second"

definition resolve ::
  "broker_cfg \<Rightarrow> store_api \<Rightarrow> time \<Rightarrow> string \<Rightarrow> broker_request \<Rightarrow> broker \<Rightarrow> broker_response \<times> broker" where
  "resolve cfg api now userID req b =
     (let sandboxID = sandboxFor api userID (q_Sandbox req);
          host = normalizeHost (q_Host req) in
      if \<not> IsPlaceholder (q_Placeholder req) \<or> host = []
      then deny now userID sandboxID host None ''malformed request'' b
      else
        (case grantFor api userID sandboxID (q_Placeholder req) of
           Inl _ \<Rightarrow> (refuse ''broker error'', b)
         | Inr None \<Rightarrow> deny now userID sandboxID host None ''unknown placeholder'' b
         | Inr (Some (g, own)) \<Rightarrow>
             if \<not> own then deny now userID sandboxID host (Some g) ''placeholder was granted to another sandbox'' b
             else if g_RevokedAt g \<noteq> None then deny now userID sandboxID host (Some g) ''grant revoked'' b
             else if (case g_ExpiresAt g of None \<Rightarrow> False | Some e \<Rightarrow> \<not> now < e)
             then deny now userID sandboxID host (Some g) ''grant expired'' b
             else if \<not> hostGranted (g_Hosts g) host then deny now userID sandboxID host (Some g) ''host not granted'' b
             else
               (case api_secret_value api (g_UserID g) (g_SecretName g) of
                  Inl _ \<Rightarrow> deny now userID sandboxID host (Some g) ''secret not found'' b
                | Inr ciphertext \<Rightarrow>
                    (case cfg_Decrypt cfg ciphertext of
                       None \<Rightarrow> deny now userID sandboxID host (Some g) ''secret unreadable'' b
                     | Some val \<Rightarrow>
                         (\<lparr>p_Value = val,
                           p_TTLSeconds = (case g_ExpiresAt g of None \<Rightarrow> 0 | Some e \<Rightarrow> resolve_ttl e now),
                           p_CertPEM = [], p_KeyPEM = [], p_Error = []\<rparr>,
                          record_event ''secret.used'' now userID sandboxID host (Some g) [] b)))))"

definition cert :: "broker_cfg \<Rightarrow> store_api \<Rightarrow> time \<Rightarrow> string \<Rightarrow> broker_request \<Rightarrow> broker_response" where
  "cert cfg api now userID req =
     (let sandboxID = sandboxFor api userID (q_Sandbox req);
          host = normalizeHost (q_Host req) in
      if \<not> validHostname host then refuse ''invalid host''
      else
        (case api_of_sandbox api sandboxID of
           Inl _ \<Rightarrow> refuse ''broker error''
         | Inr grants \<Rightarrow>
             if \<not> list_ex (\<lambda>g. g_UserID g = userID \<and> Live now g \<and> hostGranted (g_Hosts g) host) grants
             then refuse ''no live grant covers host''
             else
               (case api_sandbox_ca api sandboxID of
                  Inl _ \<Rightarrow> refuse ''sandbox has no CA''
                | Inr ca \<Rightarrow>
                    if ca_UserID ca \<noteq> userID then refuse ''sandbox has no CA''
                    else
                      (case cfg_Decrypt cfg (ca_KeyEnc ca) of
                         None \<Rightarrow> refuse ''broker error''
                       | Some caKey \<Rightarrow>
                           (case cfg_issueLeaf cfg (ca_CertPEM ca) caKey host now leafLife of
                              None \<Rightarrow> refuse ''broker error''
                            | Some (certPEM, keyPEM) \<Rightarrow>
                                \<lparr>p_Value = [], p_TTLSeconds = 0, p_CertPEM = certPEM, p_KeyPEM = keyPEM, p_Error = []\<rparr>)))))"

definition report :: "store_api \<Rightarrow> time \<Rightarrow> string \<Rightarrow> broker_request \<Rightarrow> broker \<Rightarrow> broker" where
  "report api now userID req b =
     (let sandboxID = sandboxFor api userID (q_Sandbox req);
          g = (if IsPlaceholder (q_Placeholder req)
               then (case grantFor api userID sandboxID (q_Placeholder req) of Inl _ \<Rightarrow> None | Inr r \<Rightarrow> map_option fst r)
               else None);
          reason = take maxReason (q_Reason req);
          reason = (if reason = [] then ''refused by netd'' else reason) in
      snd (deny now userID sandboxID (normalizeHost (q_Host req)) g reason b))"

definition handle ::
  "broker_cfg \<Rightarrow> store_api \<Rightarrow> time \<Rightarrow> string \<Rightarrow> broker_request \<Rightarrow> broker \<Rightarrow> broker_response \<times> broker" where
  "handle cfg api now userID req b =
     (if userID = [] \<or> q_Sandbox req = [] then (refuse ''no owner'', b)
      else if q_Op req = BrokerResolve then resolve cfg api now userID req b
      else if q_Op req = BrokerCert then (cert cfg api now userID req, b)
      else if q_Op req = BrokerReport then (refuse [], report api now userID req b)
      else (refuse ''unknown op'', b))"

section \<open>Authorization\<close>

text \<open>
  The grant of the owner and the sandbox that authorizes a placeholder toward a host at \<open>now\<close>.
\<close>

definition authorizes :: "time \<Rightarrow> string \<Rightarrow> string \<Rightarrow> string \<Rightarrow> string \<Rightarrow> SecretGrant \<Rightarrow> bool" where
  "authorizes now userID sandboxID placeholder host g \<longleftrightarrow>
     g_UserID g = userID \<and> g_SandboxID g = sandboxID \<and> g_Placeholder g = placeholder \<and>
     Live now g \<and> hostGranted (g_Hosts g) host"

lemma refuse_error [simp]: "p_Error (refuse r) = r" "p_Value (refuse r) = []" "p_CertPEM (refuse r) = []"
  by (simp_all add: refuse_def)

lemma deny_error [simp]: "fst (deny now u s h g r b) = refuse r"
  by (simp add: deny_def)

lemma resolve_Inr:
  assumes "p_Error (fst (resolve cfg api now u req b)) = []"
  obtains g ct where "IsPlaceholder (q_Placeholder req)" "normalizeHost (q_Host req) \<noteq> []"
    "api_by_sandbox api (sandboxFor api u (q_Sandbox req)) (q_Placeholder req) = Inr g"
    "g_UserID g = u" "Live now g" "hostGranted (g_Hosts g) (normalizeHost (q_Host req))"
    "api_secret_value api u (g_SecretName g) = Inr ct" "cfg_Decrypt cfg ct = Some (p_Value (fst (resolve cfg api now u req b)))"
    "p_TTLSeconds (fst (resolve cfg api now u req b)) = (case g_ExpiresAt g of None \<Rightarrow> 0 | Some e \<Rightarrow> resolve_ttl e now)"
proof -
  let ?s = "sandboxFor api u (q_Sandbox req)" and ?h = "normalizeHost (q_Host req)" and ?p = "q_Placeholder req"
  have mine: "api_by_sandbox api ?s ?p = Inr g \<and> g_UserID g = u" if "grantFor api u ?s ?p = Inr (Some (g, True))" for g
    using that by (auto simp: grantFor_def Let_def split: sum.splits if_splits)
  have shape: "IsPlaceholder ?p" "?h \<noteq> []"
    using assms by (auto simp: resolve_def Let_def split: if_splits)
  from assms shape obtain g own where g: "grantFor api u ?s ?p = Inr (Some (g, own))"
    by (auto simp: resolve_def Let_def split: sum.splits option.splits)
  with assms shape have own: "own" and live: "Live now g" and hosts: "hostGranted (g_Hosts g) ?h"
    by (auto simp: resolve_def Let_def Live_def split: if_splits option.splits)
  then have Live: "g_RevokedAt g = None" "(case g_ExpiresAt g of None \<Rightarrow> False | Some e \<Rightarrow> \<not> now < e) = False"
    by (auto simp: Live_def split: option.splits)
  obtain ct where ct: "api_secret_value api (g_UserID g) (g_SecretName g) = Inr ct"
    using assms shape g own Live hosts by (auto simp: resolve_def Let_def split: sum.splits)
  obtain val where val: "cfg_Decrypt cfg ct = Some val"
    using assms shape g own Live hosts ct by (auto simp: resolve_def Let_def split: option.splits)
  have "fst (resolve cfg api now u req b) = \<lparr>p_Value = val,
      p_TTLSeconds = (case g_ExpiresAt g of None \<Rightarrow> 0 | Some e \<Rightarrow> resolve_ttl e now), p_CertPEM = [], p_KeyPEM = [], p_Error = []\<rparr>"
    using shape g own Live hosts ct val by (simp add: resolve_def Let_def)
  with that [OF shape, of g ct] mine [of g] g own live hosts ct val
  show thesis by simp
qed

lemma cert_Inr:
  assumes "p_CertPEM (cert cfg api now u req) \<noteq> []"
  obtains gs g where "api_of_sandbox api (sandboxFor api u (q_Sandbox req)) = Inr gs" "g \<in> set gs"
    "g_UserID g = u" "Live now g" "hostGranted (g_Hosts g) (normalizeHost (q_Host req))"
    "validHostname (normalizeHost (q_Host req))"
proof -
  have "validHostname (normalizeHost (q_Host req))"
    using assms by (auto simp: cert_def Let_def split: if_splits)
  moreover with assms obtain gs where "api_of_sandbox api (sandboxFor api u (q_Sandbox req)) = Inr gs"
    by (auto simp: cert_def Let_def split: sum.splits)
  moreover with assms calculation
  have "list_ex (\<lambda>g. g_UserID g = u \<and> Live now g \<and> hostGranted (g_Hosts g) (normalizeHost (q_Host req))) gs"
    by (auto simp: cert_def Let_def split: if_splits)
  ultimately show thesis using that by (auto simp: list_ex_iff)
qed

text \<open>The client's side of the interface: whatever store implements it, only a live grant authorizes.\<close>

context grant_store
begin

lemma resolve_authorized:
  assumes "p_Error (fst (resolve cfg api now u req b)) = []"
  shows "\<exists>g \<in> rows. authorizes now u (sandboxFor api u (q_Sandbox req)) (q_Placeholder req) (normalizeHost (q_Host req)) g \<and>
    (\<exists>ct. api_secret_value api u (g_SecretName g) = Inr ct \<and> cfg_Decrypt cfg ct = Some (p_Value (fst (resolve cfg api now u req b)))) \<and>
    p_TTLSeconds (fst (resolve cfg api now u req b)) = (case g_ExpiresAt g of None \<Rightarrow> 0 | Some e \<Rightarrow> resolve_ttl e now)"
proof -
  from assms obtain g ct where g: "api_by_sandbox api (sandboxFor api u (q_Sandbox req)) (q_Placeholder req) = Inr g"
    "g_UserID g = u" "Live now g" "hostGranted (g_Hosts g) (normalizeHost (q_Host req))"
    "api_secret_value api u (g_SecretName g) = Inr ct" "cfg_Decrypt cfg ct = Some (p_Value (fst (resolve cfg api now u req b)))"
    "p_TTLSeconds (fst (resolve cfg api now u req b)) = (case g_ExpiresAt g of None \<Rightarrow> 0 | Some e \<Rightarrow> resolve_ttl e now)"
    by (rule resolve_Inr)
  with by_sandbox_row [OF g(1)] show ?thesis by (auto simp: authorizes_def)
qed

lemma cert_authorized:
  assumes "p_CertPEM (cert cfg api now u req) \<noteq> []"
  shows "\<exists>g \<in> rows. \<exists>p. authorizes now u (sandboxFor api u (q_Sandbox req)) p (normalizeHost (q_Host req)) g"
proof -
  from assms obtain gs g where "api_of_sandbox api (sandboxFor api u (q_Sandbox req)) = Inr gs" "g \<in> set gs"
    "g_UserID g = u" "Live now g" "hostGranted (g_Hosts g) (normalizeHost (q_Host req))"
    by (rule cert_Inr)
  with of_sandbox_rows show ?thesis by (fastforce simp: authorizes_def)
qed

end

context complete_grant_store
begin

lemma resolve_granted:
  assumes "g \<in> rows" and "authorizes now u (sandboxFor api u (q_Sandbox req)) (q_Placeholder req) (normalizeHost (q_Host req)) g"
    and alone: "\<And>g'. g' \<in> rows \<Longrightarrow> g_SandboxID g' = g_SandboxID g \<Longrightarrow> g_Placeholder g' = g_Placeholder g \<Longrightarrow> g' = g"
    and "IsPlaceholder (q_Placeholder req)" "normalizeHost (q_Host req) \<noteq> []"
    and "api_secret_value api u (g_SecretName g) = Inr ct" "cfg_Decrypt cfg ct = Some v"
  shows "p_Error (fst (resolve cfg api now u req b)) = [] \<and> p_Value (fst (resolve cfg api now u req b)) = v"
proof -
  have "api_by_sandbox api (g_SandboxID g) (g_Placeholder g) = Inr g"
    by (rule by_sandbox_complete [OF assms(1)]) (rule alone)
  then have g: "grantFor api u (sandboxFor api u (q_Sandbox req)) (q_Placeholder req) = Inr (Some (g, True))"
    using assms(2) unfolding authorizes_def by (elim conjE) (simp add: grantFor_def)
  have live: "g_RevokedAt g = None" "(case g_ExpiresAt g of None \<Rightarrow> False | Some e \<Rightarrow> \<not> now < e) = False"
    "hostGranted (g_Hosts g) (normalizeHost (q_Host req))" "g_UserID g = u"
    using assms(2) by (auto simp: authorizes_def Live_def split: option.splits)
  show ?thesis using assms(4-7) g live by (simp add: resolve_def Let_def)
qed

end

text \<open>
  C2: the broker gives out a secret exactly when a live grant says so. A \<open>resolve\<close> request of the owner's
  netd is answered without an error if and only if the placeholder is one, the host is not empty, and
  the store holds a grant of this owner for this sandbox and this placeholder that is neither revoked
  nor expired and whose hosts cover the host; the value is then the decryption of the secret
  that grant names, and of no other.
\<close>

theorem broker_resolve_exact:
  assumes "table_ok secret_grants_cs (secret_grants d)" and "u \<noteq> []" "q_Sandbox req \<noteq> []" "q_Op req = BrokerResolve"
  shows "let resp = fst (handle cfg (db_api d) now u req b);
             s = sandboxFor (db_api d) u (q_Sandbox req); h = normalizeHost (q_Host req) in
    (p_Error resp = [] \<and> p_Value resp = v \<longleftrightarrow>
      IsPlaceholder (q_Placeholder req) \<and> h \<noteq> [] \<and>
      (\<exists>g \<in> set (secret_grants d). authorizes now u s (q_Placeholder req) h g \<and>
         (\<exists>ct. GetSecretValue u (g_SecretName g) d = Inr ct \<and> cfg_Decrypt cfg ct = Some v)))"
proof -
  let ?s = "sandboxFor (db_api d) u (q_Sandbox req)" and ?h = "normalizeHost (q_Host req)"
  let ?r = "fst (resolve cfg (db_api d) now u req b)"
  have val: "api_secret_value (db_api d) x y = GetSecretValue x y d" for x y by (simp add: db_api_def)
  have "p_Error ?r = [] \<Longrightarrow> IsPlaceholder (q_Placeholder req) \<and> ?h \<noteq> []" by (erule resolve_Inr) blast
  moreover have "p_Error ?r = [] \<and> p_Value ?r = v"
    if "IsPlaceholder (q_Placeholder req)" "?h \<noteq> []" "g \<in> set (secret_grants d)" "authorizes now u ?s (q_Placeholder req) ?h g"
      "GetSecretValue u (g_SecretName g) d = Inr ct" "cfg_Decrypt cfg ct = Some v" for g ct
  proof (rule db.resolve_granted [OF that(3,4) _ that(1,2) _ that(6)])
    fix g' assume "g' \<in> set (secret_grants d)" "g_SandboxID g' = g_SandboxID g" "g_Placeholder g' = g_Placeholder g"
    with grants_placeholder_unique [OF assms(1) _ that(3)] show "g' = g" by blast
  qed (use that(5) val in simp)
  moreover have "\<exists>g \<in> set (secret_grants d). authorizes now u ?s (q_Placeholder req) ?h g \<and>
      (\<exists>ct. GetSecretValue u (g_SecretName g) d = Inr ct \<and> cfg_Decrypt cfg ct = Some (p_Value ?r))"
    if "p_Error ?r = []"
    using db.resolve_authorized [OF that] unfolding val by blast
  ultimately have "p_Error ?r = [] \<and> p_Value ?r = v \<longleftrightarrow>
      IsPlaceholder (q_Placeholder req) \<and> ?h \<noteq> [] \<and>
      (\<exists>g \<in> set (secret_grants d). authorizes now u ?s (q_Placeholder req) ?h g \<and>
         (\<exists>ct. GetSecretValue u (g_SecretName g) d = Inr ct \<and> cfg_Decrypt cfg ct = Some v))"
    by metis
  then show ?thesis using assms(2-4) by (simp add: handle_def Let_def)
qed

definition example_cfg :: broker_cfg where
  "example_cfg = \<lparr>cfg_Decrypt = (\<lambda>ct. if ct = [7, 7] then Some ''sk_live'' else None), cfg_issueLeaf = (\<lambda>c k h t l. Some (h, k))\<rparr>"

definition example_req :: broker_request where
  "example_req = \<lparr>q_Op = ''resolve'', q_Sandbox = ''sb1'', q_Placeholder = ''bhatti_sec_abcdefghijklmnopqrstuvwx'',
     q_Host = ''API.stripe.com.'', q_Reason = []\<rparr>"

lemma broker_resolve_exact_witness:
  "fst (handle example_cfg (db_api example_db) 200 ''alice'' example_req \<lparr>events = [], audit_log = []\<rparr>) =
     \<lparr>p_Value = ''sk_live'', p_TTLSeconds = 5, p_CertPEM = [], p_KeyPEM = [], p_Error = []\<rparr> \<and>
   (\<exists>g \<in> set (secret_grants example_db). authorizes 200 ''alice'' ''sb1'' (q_Placeholder example_req) ''api.stripe.com'' g)"
proof -
  have ok: "table_ok secret_grants_cs (secret_grants example_db)" by code_simp
  have s: "sandboxFor (db_api example_db) ''alice'' (q_Sandbox example_req) = ''sb1''" by code_simp
  have h: "normalizeHost (q_Host example_req) = ''api.stripe.com''" by code_simp
  have r: "fst (handle example_cfg (db_api example_db) 200 ''alice'' example_req \<lparr>events = [], audit_log = []\<rparr>) =
     \<lparr>p_Value = ''sk_live'', p_TTLSeconds = 5, p_CertPEM = [], p_KeyPEM = [], p_Error = []\<rparr>" by code_simp
  show ?thesis
    using broker_resolve_exact [OF ok, of "''alice''" example_req example_cfg 200 "\<lparr>events = [], audit_log = []\<rparr>" "''sk_live''"] r
    unfolding Let_def s h by (auto simp: example_req_def BrokerResolve_def)
qed

text \<open>
  A certificate is issued only under a live grant. The broker returns a leaf for a host only if the store
  holds a live grant of this owner for this sandbox whose hosts cover it, and the host is a well-formed DNS name.
\<close>

theorem broker_cert_authorized:
  assumes "p_CertPEM (fst (handle cfg (db_api d) now u req b)) \<noteq> []"
  shows "validHostname (normalizeHost (q_Host req)) \<and>
    (\<exists>g \<in> set (secret_grants d). \<exists>p. authorizes now u (sandboxFor (db_api d) u (q_Sandbox req)) p (normalizeHost (q_Host req)) g)"
proof -
  have "p_CertPEM (fst (resolve cfg (db_api d) now u req b)) = []"
    by (auto simp: resolve_def Let_def refuse_def deny_def split: sum.splits option.splits)
  with assms have "p_CertPEM (cert cfg (db_api d) now u req) \<noteq> []"
    by (auto simp: handle_def split: if_splits)
  with db.cert_authorized show ?thesis by (auto elim: cert_Inr)
qed

lemma broker_cert_authorized_witness:
  "\<exists>g \<in> set (secret_grants (PutSandboxCA 1 \<lparr>ca_SandboxID = ''sb1'', ca_UserID = ''alice'', ca_CertPEM = ''ca'', ca_KeyEnc = [7, 7], ca_CreatedAt = 1\<rparr> example_db)).
     \<exists>p. authorizes 200 ''alice'' ''sb1'' p ''api.stripe.com'' g"
proof -
  let ?d = "PutSandboxCA 1 \<lparr>ca_SandboxID = ''sb1'', ca_UserID = ''alice'', ca_CertPEM = ''ca'', ca_KeyEnc = [7, 7], ca_CreatedAt = 1\<rparr> example_db"
  let ?req = "example_req\<lparr>q_Op := ''cert''\<rparr>"
  have s: "sandboxFor (db_api ?d) ''alice'' (q_Sandbox ?req) = ''sb1''" by code_simp
  have h: "normalizeHost (q_Host ?req) = ''api.stripe.com''" by code_simp
  have r: "p_CertPEM (fst (handle example_cfg (db_api ?d) 200 ''alice'' ?req \<lparr>events = [], audit_log = []\<rparr>)) \<noteq> []" by code_simp
  show ?thesis using broker_cert_authorized [OF r] unfolding s h by blast
qed

section \<open>Lifetime of a value\<close>

text \<open>
  The lifetime netd is given. For a grant with an expiry less than 292 years away, the seconds
  returned with the value are at least one, last until the grant expires and end less
  than a second after it; they never are 0, which would mean unlimited.
\<close>

theorem resolve_ttl_bounds:
  assumes "now < e" and "e - now + second \<le> 2 ^ 63"
  shows "1 \<le> resolve_ttl e now \<and> e \<le> now + resolve_ttl e now * second \<and> now + resolve_ttl e now * second < e + second"
proof -
  let ?x = "e - now"
  have sub: "time_sub e now = ?x" using assms by (simp add: time_sub_def second_def)
  have w1: "wrap64 y = y" if "- (2 ^ 63) \<le> y" "y < 2 ^ 63" for y
    using that by (simp add: wrap64_def)
  have w: "wrap64 (wrap64 (?x + second) - 1) = ?x + second - 1"
  proof (cases "?x + second < 2 ^ 63")
    case True
    then show ?thesis using assms w1 [of "?x + second"] w1 [of "?x + second - 1"] by (simp add: second_def)
  next
    case False
    with assms(2) have "?x + second = 2 ^ 63" by simp
    then show ?thesis by (simp add: wrap64_def)
  qed
  have ttl: "resolve_ttl e now = (?x + second - 1) div second"
    unfolding resolve_ttl_def sub w go_div_def using assms by (simp add: second_def)
  have "(?x + second - 1) div second * second + (?x + second - 1) mod second = ?x + second - 1"
    "0 \<le> (?x + second - 1) mod second" "(?x + second - 1) mod second < second"
    by (simp_all add: second_def)
  moreover have "1 \<le> (?x + second - 1) div second"
    using assms(1) zdiv_mono1 [of second "?x + second - 1" second] by (simp add: second_def)
  ultimately show ?thesis unfolding ttl by linarith
qed

lemma resolve_ttl_bounds_witness:
  "1 \<le> resolve_ttl 1500000000 0 \<and> 1500000000 \<le> 0 + resolve_ttl 1500000000 0 * second \<and>
   0 + resolve_ttl 1500000000 0 * second < 1500000000 + second"
  by (rule resolve_ttl_bounds) (simp_all add: second_def)

section \<open>Other owners do not matter\<close>

text \<open>The store without the grants and secrets of other owners.\<close>

definition only_owner :: "string \<Rightarrow> db \<Rightarrow> db" where
  "only_owner u d = d\<lparr>secret_grants := filter (\<lambda>g. g_UserID g = u) (secret_grants d),
                      secrets := filter (\<lambda>s. sec_UserID s = u) (secrets d)\<rparr>"

lemma find_filter: "find p (filter q t) = find (\<lambda>x. q x \<and> p x) t"
  by (induction t) auto

lemma only_owner_api:
  "api_by_owner (db_api (only_owner u d)) u p = api_by_owner (db_api d) u p"
  "api_secret_value (db_api (only_owner u d)) u n = api_secret_value (db_api d) u n"
  "sandboxFor (db_api (only_owner u d)) u ref = sandboxFor (db_api d) u ref"
  "api_sandbox_ca (db_api (only_owner u d)) s = api_sandbox_ca (db_api d) s"
proof -
  have "filter (\<lambda>g. g_UserID g = u \<and> g_Placeholder g = p) (filter (\<lambda>g. g_UserID g = u) (secret_grants d)) =
      filter (\<lambda>g. g_UserID g = u \<and> g_Placeholder g = p) (secret_grants d)"
    by (simp add: conj_ac)
  then show "api_by_owner (db_api (only_owner u d)) u p = api_by_owner (db_api d) u p"
    by (simp add: db_api_def only_owner_def FindSecretGrantByPlaceholder_def query_all_def)
  have "find (\<lambda>s. sec_Name s = n \<and> sec_UserID s = u) (filter (\<lambda>s. sec_UserID s = u) (secrets d)) =
      find (\<lambda>s. sec_Name s = n \<and> sec_UserID s = u) (secrets d)"
    unfolding find_filter by (rule find_cong) auto
  then show "api_secret_value (db_api (only_owner u d)) u n = api_secret_value (db_api d) u n"
    by (simp add: db_api_def only_owner_def GetSecretValue_def query_row_def)
qed (simp_all add: db_api_def only_owner_def sandboxFor_def GetSandboxByEngineID_def GetSandboxCA_def)

lemma only_owner_grantFor:
  assumes "table_ok secret_grants_cs (secret_grants d)"
  shows "grantFor (db_api (only_owner u d)) u s p = grantFor (db_api d) u s p"
proof -
  let ?q = "\<lambda>g. g_SandboxID g = s \<and> g_Placeholder g = p"
  have by_sb: "api_by_sandbox (db_api x) s p = (case find ?q (secret_grants x) of None \<Rightarrow> Inl ErrNoRows | Some g \<Rightarrow> Inr g)" for x
    by (simp add: db_api_def GetSandboxSecretGrantByPlaceholder_def query_row_def)
  have own: "find ?q (secret_grants (only_owner u d)) = find (\<lambda>g. g_UserID g = u \<and> ?q g) (secret_grants d)"
    by (simp add: only_owner_def find_filter)
  show ?thesis
  proof (cases "find ?q (secret_grants d)")
    case None
    then have "find (\<lambda>g. g_UserID g = u \<and> ?q g) (secret_grants d) = None" by (auto simp: find_None_iff)
    with None own show ?thesis by (simp add: grantFor_def by_sb only_owner_api)
  next
    case (Some g)
    note g = find_Some_D [OF Some]
    have only: "x = g" if "x \<in> set (secret_grants d)" "?q x" for x
      using grants_placeholder_unique [OF assms that(1)] g that(2) by auto
    show ?thesis
    proof (cases "g_UserID g = u")
      case True
      then obtain x where x: "find (\<lambda>g. g_UserID g = u \<and> ?q g) (secret_grants d) = Some x"
        using g by (cases "find (\<lambda>g. g_UserID g = u \<and> ?q g) (secret_grants d)") (auto simp: find_None_iff)
      then have "x = g" using only find_Some_D [OF x] by blast
      with x Some own True show ?thesis by (simp add: grantFor_def by_sb)
    next
      case False
      then have "find (\<lambda>g. g_UserID g = u \<and> ?q g) (secret_grants d) = None"
        using only by (auto simp: find_None_iff)
      with Some own False show ?thesis by (simp add: grantFor_def by_sb only_owner_api)
    qed
  qed
qed

lemma only_owner_cert: "cert cfg (db_api (only_owner u d)) now u req = cert cfg (db_api d) now u req"
proof -
  have "list_ex (\<lambda>g. g_UserID g = u \<and> Live now g \<and> hostGranted (g_Hosts g) h) (ListSandboxSecretGrants s (only_owner u d)) =
      list_ex (\<lambda>g. g_UserID g = u \<and> Live now g \<and> hostGranted (g_Hosts g) h) (ListSandboxSecretGrants s d)" for h s
    by (auto simp: list_ex_iff ListSandboxSecretGrants_def only_owner_def)
  moreover have "api_of_sandbox (db_api x) s = Inr (ListSandboxSecretGrants s x)" for x s by (simp add: db_api_def)
  ultimately show ?thesis by (simp add: cert_def only_owner_api Let_def)
qed

text \<open>
  C29: an owner's netd learns nothing about other owners. Whatever an owner's netd asks, the answer, the audit
  log and the event budget are the same as if the store held no other owner's grants and
  secrets: another owner's placeholder is as unknown as a made-up one.
\<close>

theorem broker_noninterference:
  assumes "table_ok secret_grants_cs (secret_grants d)"
  shows "handle cfg (db_api (only_owner u d)) now u req b = handle cfg (db_api d) now u req b"
proof -
  have "resolve cfg (db_api (only_owner u d)) now u req b = resolve cfg (db_api d) now u req b"
  proof -
    have "grantFor (db_api d) u s p = Inr (Some (g, True)) \<Longrightarrow> g_UserID g = u" for s p g
      by (auto simp: grantFor_def Let_def split: sum.splits if_splits)
    then show ?thesis
      unfolding resolve_def only_owner_api only_owner_grantFor [OF assms] Let_def
      by (auto simp: only_owner_api split: sum.splits option.splits)
  qed
  moreover have "report (db_api (only_owner u d)) now u req b = report (db_api d) now u req b"
    unfolding report_def Let_def only_owner_api only_owner_grantFor [OF assms] ..
  ultimately show ?thesis by (simp add: handle_def only_owner_cert)
qed

lemma broker_noninterference_witness:
  "handle example_cfg (db_api (only_owner ''bob'' example_db)) 200 ''bob'' example_req \<lparr>events = [], audit_log = []\<rparr> =
   handle example_cfg (db_api example_db) 200 ''bob'' example_req \<lparr>events = [], audit_log = []\<rparr>"
proof (rule broker_noninterference)
  show "table_ok secret_grants_cs (secret_grants example_db)" by code_simp
qed

section \<open>The audit budget\<close>

text \<open>
  What a key can still spend at \<open>now\<close>: the refilled tokens of its bucket, or a full one when it has
  none. Evicting an idle bucket does not change it, because sixty seconds refill a bucket completely.
\<close>

definition budget :: "string \<Rightarrow> time \<Rightarrow> limiter \<Rightarrow> int" where
  "budget k now l =
     (case map_of l k of
        None \<Rightarrow> eventBurst * token
      | Some bk \<Rightarrow> min (eventBurst * token) (bk_tokens bk + (now - bk_last bk) * eventRate))"

definition limiter_ok :: "time \<Rightarrow> limiter \<Rightarrow> bool" where
  "limiter_ok now l \<longleftrightarrow> distinct (map fst l) \<and> (\<forall>(k, bk) \<in> set l. 0 \<le> bk_tokens bk \<and> bk_last bk \<le> now)"

lemmas limiter_consts = eventBurst_def token_def eventRate_def second_def

lemma map_of_filter_distinct:
  "distinct (map fst l) \<Longrightarrow> map_of (filter (\<lambda>(k, v). P v) l) k = (case map_of l k of Some v \<Rightarrow> if P v then Some v else None | None \<Rightarrow> None)"
  by (induction l) (auto split: option.splits simp: image_iff dest: map_of_SomeD)

lemma budget_evict:
  assumes "limiter_ok t l" "t \<le> now"
  shows "budget k now (filter (\<lambda>(k, old). \<not> now - bk_last old > 60 * second) l) = budget k now l"
proof (cases "map_of l k")
  case None
  then show ?thesis using assms(1) by (simp add: budget_def limiter_ok_def map_of_filter_distinct)
next
  case (Some bk)
  have "0 \<le> bk_tokens bk" using assms(1) map_of_SomeD [OF Some] by (auto simp: limiter_ok_def)
  then have "min (eventBurst * token) (bk_tokens bk + (now - bk_last bk) * eventRate) = eventBurst * token"
    if "now - bk_last bk > 60 * second"
    using that by (simp add: limiter_consts min_def)
  with Some assms(1) show ?thesis by (simp add: budget_def limiter_ok_def map_of_filter_distinct)
qed

lemma limiter_ok_filter: "limiter_ok t l \<Longrightarrow> limiter_ok t (filter P l)"
  by (auto simp: limiter_ok_def distinct_map_filter)

lemma update_subset: "set (AList.update k v l) \<subseteq> insert (k, v) (set l)"
  by (induction l) auto

lemma limiter_ok_update:
  assumes "limiter_ok t l" "t \<le> now" "0 \<le> bk_tokens bk" "bk_last bk \<le> now"
  shows "limiter_ok now (AList.update k bk l)"
  using assms update_subset [of k bk l] by (fastforce simp: limiter_ok_def distinct_update)

text \<open>The bucket \<open>allow\<close> works on, after the lookup and the eviction.\<close>

definition admit :: "string \<Rightarrow> time \<Rightarrow> limiter \<Rightarrow> limiter" where
  "admit key now l =
     (case map_of l key of
        Some _ \<Rightarrow> l
      | None \<Rightarrow>
          AList.update key \<lparr>bk_tokens = eventBurst * token, bk_last = now, bk_dropped = 0\<rparr>
            (if length l \<ge> bucketLimit then filter (\<lambda>(k, old). \<not> now - bk_last old > 60 * second) l else l))"

lemma allow_admit:
  "allow key now l =
     (let bk = the (map_of (admit key now l) key);
          tokens = min (eventBurst * token) (bk_tokens bk + (now - bk_last bk) * eventRate) in
      if tokens < token
      then (False, 0, AList.update key \<lparr>bk_tokens = tokens, bk_last = now, bk_dropped = bk_dropped bk + 1\<rparr> (admit key now l))
      else (True, bk_dropped bk, AList.update key \<lparr>bk_tokens = tokens - token, bk_last = now, bk_dropped = 0\<rparr> (admit key now l)))"
  unfolding allow_def admit_def Let_def ..

lemma admit_props:
  assumes "limiter_ok t l" "t \<le> now"
  shows "limiter_ok now (admit key now l)" and "budget k now (admit key now l) = budget k now l"
    and "\<exists>bk. map_of (admit key now l) key = Some bk"
proof -
  have up: "limiter_ok now l" using assms by (fastforce simp: limiter_ok_def)
  show "limiter_ok now (admit key now l)"
    using up assms by (auto simp: admit_def limiter_consts split: option.splits
        intro!: limiter_ok_update [where t = now] limiter_ok_filter)
  show "budget k now (admit key now l) = budget k now l"
  proof (cases "map_of l key")
    case None
    have new: "budget k now (AList.update key \<lparr>bk_tokens = eventBurst * token, bk_last = now, bk_dropped = 0\<rparr> x) =
        budget k now x" if "map_of x key = None" for x
      using that by (auto simp: budget_def update_conv' split: option.splits)
    have "map_of (filter (\<lambda>(k, old). \<not> now - bk_last old > 60 * second) l) key = None"
      using None assms(1) by (simp add: map_of_filter_distinct limiter_ok_def)
    with None new budget_evict [OF assms] show ?thesis by (simp add: admit_def)
  qed (simp add: admit_def)
  show "\<exists>bk. map_of (admit key now l) key = Some bk"
    by (auto simp: admit_def update_conv' split: option.splits)
qed

lemma allow_budget:
  assumes "limiter_ok t l" "t \<le> now" and "allow key now l = (ok, dropped, l')"
  shows "limiter_ok now l'" and "budget k now l' = budget k now l - (if ok \<and> k = key then token else 0)"
    and "0 \<le> budget k now l'" and "ok \<longleftrightarrow> token \<le> budget key now l"
proof -
  note adm = admit_props [OF assms(1,2), where key = key]
  obtain bk where bk: "map_of (admit key now l) key = Some bk" using adm(3) by blast
  let ?tokens = "min (eventBurst * token) (bk_tokens bk + (now - bk_last bk) * eventRate)"
  have b: "budget key now l = ?tokens" using adm(2) [where k = key] bk by (simp add: budget_def)
  have pos: "0 \<le> ?tokens"
    using adm(1) map_of_SomeD [OF bk] by (auto simp: limiter_ok_def limiter_consts)
  have ok: "ok \<longleftrightarrow> token \<le> ?tokens"
    and l': "\<exists>n. l' = AList.update key \<lparr>bk_tokens = (if ok then ?tokens - token else ?tokens), bk_last = now, bk_dropped = n\<rparr> (admit key now l)"
    using assms(3) bk by (auto simp: allow_admit Let_def split: if_splits)
  from l' obtain n where l': "l' = AList.update key \<lparr>bk_tokens = (if ok then ?tokens - token else ?tokens), bk_last = now, bk_dropped = n\<rparr> (admit key now l)" ..
  show "limiter_ok now l'"
    unfolding l' using ok pos by (intro limiter_ok_update [OF adm(1)]) auto
  have token: "0 < token" by (simp add: limiter_consts)
  show eq: "budget k now l' = budget k now l - (if ok \<and> k = key then token else 0)" for k
  proof (cases "k = key")
    case True
    then show ?thesis using b token by (auto simp: l' budget_def update_conv')
  next
    case False
    then show ?thesis using adm(2) [where k = k] by (simp add: l' budget_def update_conv')
  qed
  show "0 \<le> budget k now l'"
    using \<open>limiter_ok now l'\<close> by (auto simp: budget_def limiter_ok_def limiter_consts dest!: map_of_SomeD split: option.splits)
  show "ok \<longleftrightarrow> token \<le> budget key now l" using ok b by simp
qed

lemma budget_refill:
  assumes "limiter_ok t l" "t \<le> now"
  shows "budget k now l \<le> budget k t l + (now - t) * eventRate"
  using assms by (auto simp: budget_def limiter_consts split: option.splits)

text \<open>A run of the limiter over calls \<open>(key, time)\<close>: how many of the key's events got through.\<close>

fun admitted :: "string \<Rightarrow> (string \<times> time) list \<Rightarrow> limiter \<Rightarrow> int" where
  "admitted k [] l = 0"
| "admitted k ((key, now) # cs) l =
     (case allow key now l of (ok, _, l') \<Rightarrow> (if ok \<and> key = k then 1 else 0) + admitted k cs l')"

lemma admitted_bound:
  assumes "limiter_ok t l" "sorted (t # map snd cs)" "last (t # map snd cs) = t'"
  shows "token * admitted k cs l \<le> budget k t l + (t' - t) * eventRate"
  using assms
proof (induction cs arbitrary: t l)
  case Nil
  then show ?case by (auto simp: budget_def limiter_ok_def limiter_consts dest!: map_of_SomeD split: option.splits)
next
  case (Cons c cs)
  obtain key now where c: "c = (key, now)" by (cases c)
  obtain ok dr l' where a: "allow key now l = (ok, dr, l')" by (cases "allow key now l")
  have tn: "t \<le> now" using Cons.prems(2) c by simp
  note ab = allow_budget [OF Cons.prems(1) tn a]
  have "token * admitted k cs l' \<le> budget k now l' + (t' - now) * eventRate"
    using Cons.prems c by (intro Cons.IH [OF ab(1)]) auto
  moreover have "token * admitted k (c # cs) l = (if ok \<and> k = key then token else 0) + token * admitted k cs l'"
    using a by (auto simp: c algebra_simps)
  ultimately show ?case
    using ab(2) [of k] budget_refill [OF Cons.prems(1) tn, of k] by (simp add: algebra_simps)
qed

text \<open>
  A guest cannot flood the audit log. Over calls in order of time, from an empty limiter, the events of one sandbox
  that get through number at most the burst of 50 plus 5 for every second from the first call to the
  last, whatever the other sandboxes do and whichever idle buckets are evicted.
\<close>

theorem audit_rate_bound:
  assumes "sorted (map snd cs)" "cs \<noteq> []"
  shows "token * admitted k cs [] \<le> eventBurst * token + (snd (last cs) - snd (hd cs)) * eventRate"
proof -
  have "limiter_ok (snd (hd cs)) []" by (simp add: limiter_ok_def)
  moreover have "sorted (snd (hd cs) # map snd cs)" using assms by (cases cs) auto
  moreover have "last (snd (hd cs) # map snd cs) = snd (last cs)" using assms(2) by (simp add: last_map)
  ultimately show ?thesis using admitted_bound [of "snd (hd cs)" "[]" cs "snd (last cs)" k] by (simp add: budget_def)
qed

lemma audit_rate_bound_witness:
  "token * admitted ''a'' (replicate 60 (''a'', 7)) [] \<le> eventBurst * token + (7 - 7) * eventRate"
  using audit_rate_bound [of "replicate 60 (''a'', 7)" "''a''"] by simp

end
