(* ===== verification/Streams.thy ===== *)
theory Streams
  imports Placeholder
begin

text \<open>
  The stream wrappers of \<^verbatim>\<open>src/cmd/bhatti-netd/intercept.go\<close>: \<open>bodyGuard\<close>, which passes a request body
  through and stops before a placeholder, \<open>headBudget\<close>, which bounds a request head, and
  \<open>peekConn\<close>, which records a ClientHello for replay. The underlying \<open>io.Reader\<close> is the list of the results its
  \<open>Read\<close> calls will give; a result longer than the buffer passed is delivered in pieces.
\<close>

datatype read_err = NoErr | EOF | Err

type_synonym source = "(string \<times> read_err) list"

definition src_read :: "nat \<Rightarrow> source \<Rightarrow> string \<times> read_err \<times> source" where
  "src_read k src =
     (case src of
        [] \<Rightarrow> ([], EOF, [])
      | (bs, e) # rest \<Rightarrow>
          if length bs \<le> k then (bs, e, rest) else (take k bs, NoErr, (drop k bs, e) # rest))"

section \<open>bodyGuard\<close>

text \<open>A nil \<open>buf\<close> and an empty one behave alike, because its capacity is fixed when first used.\<close>

record body_guard =
  bg_buf :: string
  bg_off :: nat
  bg_eof :: bool
  bg_found :: string

definition new_guard :: body_guard where
  "new_guard = \<lparr>bg_buf = [], bg_off = 0, bg_eof = False, bg_found = []\<rparr>"

definition hold :: nat where "hold = PlaceholderLen - 1"

definition bodyGuardChunk :: nat where "bodyGuardChunk = 32768"

datatype read_result = Data string | ReadEOF | PlaceholderInBody | ReadErr

text \<open>The size of the unread source, for the termination of the loop.\<close>

definition src_size :: "source \<Rightarrow> nat" where
  "src_size src = sum_list (map (\<lambda>(bs, e). length bs + 1) src)"

lemma src_read_size: "0 < k \<Longrightarrow> src_read k src = (bs, e, src') \<Longrightarrow> src \<noteq> [] \<Longrightarrow> src_size src' < src_size src"
  by (auto simp: src_read_def src_size_def split: list.splits if_splits)

lemma src_read_shrinks:
  "(bs, NoErr, src') = src_read k src \<Longrightarrow> 0 < k \<longrightarrow> src_size src' < src_size src"
  using src_read_size [of k src bs NoErr src'] by (cases src) (auto simp: src_read_def)

function guard_read :: "nat \<Rightarrow> body_guard \<Rightarrow> source \<Rightarrow> read_result \<times> body_guard \<times> source" where
  "guard_read plen g src =
     (if bg_found g \<noteq> [] then (PlaceholderInBody, g, src)
      else
        (let avail = length (bg_buf g) - bg_off g;
             release = (if bg_eof g then avail else avail - hold) in
         if release > 0
         then (let n = min plen release in
               (Data (take n (drop (bg_off g) (bg_buf g))), g\<lparr>bg_off := bg_off g + n\<rparr>, src))
         else if bg_eof g then (ReadEOF, g, src)
         else
           (let buf = drop (bg_off g) (bg_buf g);
                scan = length buf - hold in
            case src_read (bodyGuardChunk + hold - length buf) src of
              (bs, e, src') \<Rightarrow>
                (let g1 = g\<lparr>bg_buf := buf @ bs, bg_off := 0\<rparr> in
                 case FindPlaceholders (drop scan (buf @ bs)) of
                   p # _ \<Rightarrow> (PlaceholderInBody, g1\<lparr>bg_found := p\<rparr>, src')
                 | [] \<Rightarrow>
                     (case e of
                        EOF \<Rightarrow> guard_read plen (g1\<lparr>bg_eof := True\<rparr>) src'
                      | Err \<Rightarrow> (ReadErr, g1, src')
                      | NoErr \<Rightarrow> guard_read plen g1 src')))))"
  by pat_completeness auto
termination
proof (relation "measure (\<lambda>(plen, g, src). if bg_eof g then 0 else Suc (src_size src))")
  show "wf (measure (\<lambda>(plen::nat, g, src). if bg_eof g then 0 else Suc (src_size src)))" by simp
qed (auto dest!: src_read_shrinks simp: bodyGuardChunk_def)

declare guard_read.simps [simp del]

text \<open>The caller: reads with buffers of the given sizes, until a read does not return data.\<close>

fun guard_run :: "nat list \<Rightarrow> body_guard \<Rightarrow> source \<Rightarrow> string \<times> read_result option \<times> body_guard" where
  "guard_run [] g src = ([], None, g)"
| "guard_run (plen # ps) g src =
     (case guard_read plen g src of
        (Data bs, g', src') \<Rightarrow> (case guard_run ps g' src' of (out, r) \<Rightarrow> (bs @ out, r))
      | (r, g', src') \<Rightarrow> ([], Some r, g'))"

text \<open>The body the source carries: its bytes up to the end or the first error.\<close>

fun body_of :: "source \<Rightarrow> string" where
  "body_of [] = []"
| "body_of ((bs, NoErr) # src) = bs @ body_of src"
| "body_of ((bs, e) # src) = bs"

lemma src_read_body:
  assumes "src_read k src = (bs, e, src')"
  shows "body_of src = bs @ (if e = NoErr then body_of src' else [])"
  using assms by (cases src rule: body_of.cases) (auto simp: src_read_def split: if_splits)

subsection \<open>The invariant\<close>

text \<open>
  \<open>out\<close> has been released, \<open>seen\<close> read. What is held back is the rest of \<open>seen\<close>; it is at least
  \<open>hold\<close> bytes once anything was released, so an occurrence completed by the next read cannot start
  in a released byte.
\<close>

definition guard_inv :: "string \<Rightarrow> string \<Rightarrow> body_guard \<Rightarrow> bool" where
  "guard_inv out seen g \<longleftrightarrow>
     seen = out @ drop (bg_off g) (bg_buf g) \<and> bg_off g \<le> length (bg_buf g) \<and>
     (out \<noteq> [] \<and> \<not> bg_eof g \<longrightarrow> 34 \<le> length (bg_buf g) - bg_off g) \<and>
     bg_found g = [] \<and> \<not> ContainsPlaceholder seen"

lemma guard_inv_new [invariants]: "guard_inv [] [] new_guard"
  by (simp add: guard_inv_def new_guard_def ContainsPlaceholder_iff placeholder_at_def)

lemma hold_eq: "hold = 34"
  by (simp add: hold_def PlaceholderLen_eq)

lemma placeholder_at_append: "placeholder_at a j \<Longrightarrow> placeholder_at (a @ b) j"
  by (auto simp: placeholder_at_def)

lemma placeholder_at_prefix: "placeholder_at (a @ b) j \<Longrightarrow> j + 35 \<le> length a \<Longrightarrow> placeholder_at a j"
  by (auto simp: placeholder_at_def)

lemma placeholder_at_shift: "length a \<le> j \<Longrightarrow> placeholder_at (a @ b) j \<longleftrightarrow> placeholder_at b (j - length a)"
  using placeholder_at_drop [of "length a" "a @ b" "j - length a"] by simp

text \<open>A new occurrence starts in what is held back.\<close>

lemma new_occurrence:
  assumes "\<not> ContainsPlaceholder (out @ kept)" and "out = [] \<or> 34 \<le> length kept"
    and "placeholder_at (out @ kept @ bs) j"
  shows "length out \<le> j \<and> placeholder_at (kept @ bs) (j - length out)"
proof -
  have "\<not> j + 35 \<le> length (out @ kept)"
    using assms(1,3) placeholder_at_prefix [of "out @ kept" bs j] by (auto simp: ContainsPlaceholder_iff)
  with assms(2) have "length out \<le> j" by auto
  with assms(3) show ?thesis by (simp add: placeholder_at_shift)
qed

text \<open>
  One read from a state in the invariant: the bytes released extend \<open>out\<close> within the body; the
  invariant holds again; the end is reported only at the end of a body without
  placeholder; and the refusal only when the body has one, at or after what was released.
\<close>

definition read_post :: "string \<Rightarrow> string \<Rightarrow> read_result \<times> body_guard \<times> source \<Rightarrow> bool" where
  "read_post out body r =
     (case r of (res, g', src') \<Rightarrow>
        (case res of
           Data bs \<Rightarrow> (\<exists>seen. guard_inv (out @ bs) seen g' \<and> body = seen @ (if bg_eof g' then [] else body_of src'))
         | ReadEOF \<Rightarrow> out = body \<and> \<not> ContainsPlaceholder body
         | PlaceholderInBody \<Rightarrow> (\<exists>rest. body = out @ rest) \<and> ContainsPlaceholder body \<and>
             (\<forall>j. placeholder_at body j \<longrightarrow> length out \<le> j)
         | ReadErr \<Rightarrow> (\<exists>rest. body = out @ rest) \<and> \<not> ContainsPlaceholder body))"

lemma guard_read_release:
  assumes "guard_inv out seen g" "0 < (if bg_eof g then length (bg_buf g) - bg_off g else length (bg_buf g) - bg_off g - hold)"
  shows "guard_read plen g src =
      (let n = min plen (if bg_eof g then length (bg_buf g) - bg_off g else length (bg_buf g) - bg_off g - hold) in
       (Data (take n (drop (bg_off g) (bg_buf g))), g\<lparr>bg_off := bg_off g + n\<rparr>, src))" (is "_ = ?r")
    and "n = min plen (if bg_eof g then length (bg_buf g) - bg_off g else length (bg_buf g) - bg_off g - hold) \<Longrightarrow>
      guard_inv (out @ take n (drop (bg_off g) (bg_buf g))) seen (g\<lparr>bg_off := bg_off g + n\<rparr>)"
proof -
  show "guard_read plen g src = ?r"
    using assms by (subst guard_read.simps) (simp add: guard_inv_def Let_def)
  have "out @ drop (bg_off g) (bg_buf g) =
      (out @ take n (drop (bg_off g) (bg_buf g))) @ drop (bg_off g + n) (bg_buf g)"
    by (metis append.assoc append_take_drop_id drop_drop add.commute)
  then show "guard_inv (out @ take n (drop (bg_off g) (bg_buf g))) seen (g\<lparr>bg_off := bg_off g + n\<rparr>)"
    if "n = min plen (if bg_eof g then length (bg_buf g) - bg_off g else length (bg_buf g) - bg_off g - hold)"
    using assms that by (auto simp: guard_inv_def hold_eq)
qed

lemma guard_read_post:
  assumes "guard_inv out seen g" and "body = seen @ (if bg_eof g then [] else body_of src)"
  shows "read_post out body (guard_read plen g src)"
  using assms
proof (induction plen g src arbitrary: seen rule: guard_read.induct)
  case (1 plen g src)
  let ?avail = "length (bg_buf g) - bg_off g" and ?buf = "drop (bg_off g) (bg_buf g)"
  let ?release = "if bg_eof g then ?avail else ?avail - hold"
  note inv = "1.prems"(1)
  have nf: "\<not> bg_found g \<noteq> []" and seen: "seen = out @ ?buf" and clean: "\<not> ContainsPlaceholder seen"
    using inv by (auto simp: guard_inv_def)
  show ?case
  proof (cases "0 < ?release")
    case True
    from guard_read_release [OF inv True] "1.prems"(2) show ?thesis
      by (auto simp: read_post_def Let_def)
  next
    case no: False
    show ?thesis
    proof (cases "bg_eof g")
      case True
      then have "guard_read plen g src = (ReadEOF, g, src)"
        using nf no by (subst guard_read.simps) (simp add: Let_def)
      moreover have "?buf = []" using no True inv by (simp add: guard_inv_def)
      ultimately show ?thesis using "1.prems"(2) True seen clean by (simp add: read_post_def)
    next
      case False
      obtain bs e src' where rd: "src_read (bodyGuardChunk + hold - length ?buf) src = (bs, e, src')"
        by (metis prod_cases3)
      let ?g = "g\<lparr>bg_buf := ?buf @ bs, bg_off := 0\<rparr>"
      have short: "length ?buf \<le> 34" and kept: "out = [] \<or> 34 \<le> length ?buf"
        using no False inv by (auto simp: hold_eq guard_inv_def)
      have body: "body = out @ ?buf @ bs @ (if e = NoErr then body_of src' else [])"
        using "1.prems"(2) False seen src_read_body [OF rd] by simp
      have later: "length out \<le> j" if "placeholder_at body j" for j
        using new_occurrence [OF clean [unfolded seen] kept] that body by auto
      have step: "guard_read plen g src =
          (case FindPlaceholders (?buf @ bs) of
             p # _ \<Rightarrow> (PlaceholderInBody, ?g\<lparr>bg_found := p\<rparr>, src')
           | [] \<Rightarrow> (case e of EOF \<Rightarrow> guard_read plen (?g\<lparr>bg_eof := True\<rparr>) src' | Err \<Rightarrow> (ReadErr, ?g, src')
                  | NoErr \<Rightarrow> guard_read plen ?g src'))"
        using nf no False rd short by (subst guard_read.simps) (simp add: Let_def hold_eq)
      show ?thesis
      proof (cases "FindPlaceholders (?buf @ bs)")
        case (Cons p ps)
        then obtain j where "placeholder_at (?buf @ bs) j"
          using FindPlaceholders_empty_iff [of "?buf @ bs"] by (auto simp: ContainsPlaceholder_iff)
        then have "placeholder_at (out @ (?buf @ bs)) (length out + j)" by (simp add: placeholder_at_shift)
        then have "placeholder_at body (length out + j)"
          using placeholder_at_append [of "out @ ?buf @ bs" "length out + j"] body by simp
        with later body show ?thesis
          by (auto simp: step Cons read_post_def ContainsPlaceholder_iff)
      next
        case Nil
        then have "\<not> placeholder_at (?buf @ bs) j" for j
          using FindPlaceholders_empty_iff [of "?buf @ bs"] by (auto simp: ContainsPlaceholder_iff)
        then have clean': "\<not> ContainsPlaceholder (seen @ bs)"
          using new_occurrence [OF clean [unfolded seen] kept, of bs] seen by (auto simp: ContainsPlaceholder_iff)
        have inv': "guard_inv out (seen @ bs) ?g" "guard_inv out (seen @ bs) (?g\<lparr>bg_eof := True\<rparr>)"
          using clean' kept nf seen by (auto simp: guard_inv_def)
        show ?thesis
        proof (cases e)
          case NoErr
          from "1.IH"(1) [OF nf refl refl no False refl refl rd [symmetric] refl refl _ NoErr inv'(1)]
          show ?thesis using Nil NoErr short body seen False by (simp add: step hold_eq)
        next
          case EOF
          from "1.IH"(2) [OF nf refl refl no False refl refl rd [symmetric] refl refl _ EOF inv'(2)]
          show ?thesis using Nil EOF short body seen by (simp add: step hold_eq)
        next
          case Err
          then show ?thesis using Nil clean' body seen by (simp add: step read_post_def)
        qed
      qed
    qed
  qed
qed

lemma guard_run_post:
  assumes "guard_inv out seen g" and "body = seen @ (if bg_eof g then [] else body_of src)"
    and "guard_run ps g src = (ext, res, ge)"
  shows "(\<exists>rest. body = out @ ext @ rest) \<and> (\<forall>j. placeholder_at body j \<longrightarrow> length (out @ ext) \<le> j) \<and>
    (res = Some ReadEOF \<longrightarrow> body = out @ ext \<and> \<not> ContainsPlaceholder body) \<and>
    (res = Some PlaceholderInBody \<longrightarrow> ContainsPlaceholder body)"
  using assms
proof (induction ps g src arbitrary: out seen ext res rule: guard_run.induct)
  case (1 g src)
  have kept: "out = [] \<or> bg_eof g \<or> 34 \<le> length (drop (bg_off g) (bg_buf g))"
    and seen: "seen = out @ drop (bg_off g) (bg_buf g)" and clean: "\<not> ContainsPlaceholder seen"
    using "1.prems"(1) by (auto simp: guard_inv_def)
  have "length out \<le> j" if "placeholder_at body j" for j
  proof (cases "bg_eof g")
    case True
    with clean that "1.prems"(2) show ?thesis by (auto simp: ContainsPlaceholder_iff)
  next
    case False
    with new_occurrence [OF clean [unfolded seen], of "body_of src" j] kept that "1.prems"(2) seen show ?thesis by auto
  qed
  with "1.prems" seen show ?case by auto
next
  case (2 plen ps g src)
  obtain r g' src' where rd: "guard_read plen g src = (r, g', src')" by (metis prod_cases3)
  note post = guard_read_post [OF "2.prems"(1,2), of plen, unfolded rd read_post_def prod.case]
  show ?case
  proof (cases r)
    case (Data bs)
    with post obtain seen' where inv: "guard_inv (out @ bs) seen' g'" "body = seen' @ (if bg_eof g' then [] else body_of src')"
      by auto
    obtain ext' where run: "guard_run ps g' src' = (ext', res, ge)" "ext = bs @ ext'"
      using "2.prems"(3) rd Data by (auto split: prod.splits)
    from "2.IH" [OF rd [symmetric] Data refl inv run(1)] run(2) show ?thesis by auto
  next
    case ReadEOF
    with post "2.prems"(3) rd show ?thesis by (auto simp: ContainsPlaceholder_iff)
  next
    case PlaceholderInBody
    with post "2.prems"(3) rd show ?thesis by auto
  next
    case ReadErr
    with post "2.prems"(3) rd show ?thesis by (auto simp: ContainsPlaceholder_iff)
  qed
qed

text \<open>
  No byte of a placeholder leaves in a body. However the body arrives in pieces and however it is
  read, what the guard has released is a prefix of the body that ends before the first
  placeholder starts; the end is reported only after the whole of a body without placeholder, and the
  body is refused only if it has one.
\<close>

theorem body_guard_releases_no_placeholder:
  assumes "guard_run ps new_guard src = (out, res, g)"
  shows "(\<exists>rest. body_of src = out @ rest) \<and> (\<forall>j. placeholder_at (body_of src) j \<longrightarrow> length out \<le> j) \<and>
    (res = Some ReadEOF \<longrightarrow> out = body_of src \<and> \<not> ContainsPlaceholder (body_of src)) \<and>
    (res = Some PlaceholderInBody \<longrightarrow> ContainsPlaceholder (body_of src))"
  using guard_run_post [OF guard_inv_new _ assms] by (auto simp: new_guard_def)

lemma body_guard_releases_no_placeholder_witness:
  "\<exists>out g. guard_run [100, 100] new_guard [(''tok=bhatti_sec_abcde'', NoErr), (''fghijklmnopqrstuvwx&x'', NoErr)] = (out, Some PlaceholderInBody, g) \<and>
     (\<forall>j. placeholder_at (''tok=bhatti_sec_abcde'' @ ''fghijklmnopqrstuvwx&x'') j \<longrightarrow> length out \<le> j)"
proof -
  let ?src = "[(''tok=bhatti_sec_abcde'', NoErr), (''fghijklmnopqrstuvwx&x'', NoErr)]"
  have f: "FindPlaceholders ''tok=bhatti_sec_abcde'' = []"
    "FindPlaceholders (''tok=bhatti_sec_abcde'' @ ''fghijklmnopqrstuvwx&x'') = [''bhatti_sec_abcdefghijklmnopqrstuvwx'']"
    by code_simp+
  have "fst (guard_read 100 new_guard ?src) = PlaceholderInBody"
    using f by (subst guard_read.simps, simp add: new_guard_def hold_eq bodyGuardChunk_def src_read_def,
        subst guard_read.simps, simp add: hold_eq bodyGuardChunk_def src_read_def)
  then obtain g where run: "guard_run [100, 100] new_guard ?src = ([], Some PlaceholderInBody, g)"
    by (cases "guard_read 100 new_guard ?src") simp
  from body_guard_releases_no_placeholder [OF run] run show ?thesis by simp
qed

section \<open>headBudget\<close>

definition maxRequestHead :: int where "maxRequestHead = 256 * 1024"

datatype head_read = HeadBytes string read_err | HeadTooLarge

text \<open>\<open>headBudget.Read\<close> of \<open>plen\<close> bytes: \<open>left\<close> negative means unbounded.\<close>

definition head_read :: "nat \<Rightarrow> int \<Rightarrow> source \<Rightarrow> head_read \<times> int \<times> source" where
  "head_read plen left src =
     (if left < 0 then (case src_read plen src of (bs, e, src') \<Rightarrow> (HeadBytes bs e, left, src'))
      else if left = 0 then (HeadTooLarge, left, src)
      else (let plen' = (if int plen > left then nat left else plen) in
            case src_read plen' src of (bs, e, src') \<Rightarrow> (HeadBytes bs e, left - int (length bs), src')))"

fun head_run :: "nat list \<Rightarrow> int \<Rightarrow> source \<Rightarrow> string \<times> int" where
  "head_run [] left src = ([], left)"
| "head_run (plen # ps) left src =
     (case head_read plen left src of
        (HeadTooLarge, left', src') \<Rightarrow> ([], left')
      | (HeadBytes bs e, left', src') \<Rightarrow> (case head_run ps left' src' of (out, l) \<Rightarrow> (bs @ out, l)))"

lemma src_read_length: "src_read k src = (bs, e, src') \<Longrightarrow> length bs \<le> k"
  by (auto simp: src_read_def split: list.splits if_splits)

text \<open>
  A request head is bounded. While a head is parsed, the reads deliver at most the budget
  in all, whatever their sizes, and the budget left is what was not delivered.
\<close>

theorem head_budget_bound:
  assumes "0 \<le> left" and "head_run ps left src = (out, left')"
  shows "0 \<le> left' \<and> int (length out) = left - left'"
  using assms
proof (induction ps left src arbitrary: out left' rule: head_run.induct)
  case (2 plen ps left src)
  obtain r l1 src' where rd: "head_read plen left src = (r, l1, src')" by (metis prod_cases3)
  show ?case
  proof (cases r)
    case HeadTooLarge
    with rd "2.prems" show ?thesis by (auto simp: head_read_def Let_def split: if_splits prod.splits)
  next
    case (HeadBytes bs e)
    obtain out' where run: "head_run ps l1 src' = (out', left')" "out = bs @ out'"
      using "2.prems"(2) rd HeadBytes by (auto split: prod.splits)
    have l1: "l1 = left - int (length bs)" "int (length bs) \<le> left"
      using rd HeadBytes "2.prems"(1)
      by (auto simp: head_read_def Let_def split: if_splits prod.splits dest!: src_read_length)
    then show ?thesis using "2.IH" [OF rd [symmetric] HeadBytes refl _ run(1)] run(2) by auto
  qed
qed simp

lemma head_budget_bound_witness:
  "0 \<le> snd (head_run [4096, 4096] maxRequestHead [(''GET / HTTP/1.1'', NoErr)]) \<and>
   int (length (fst (head_run [4096, 4096] maxRequestHead [(''GET / HTTP/1.1'', NoErr)]))) =
     maxRequestHead - snd (head_run [4096, 4096] maxRequestHead [(''GET / HTTP/1.1'', NoErr)])"
  by (rule head_budget_bound [OF _ prod.collapse [symmetric]]) (simp add: maxRequestHead_def)

section \<open>peekConn\<close>

definition maxPeek :: nat where "maxPeek = 128 * 1024"

record peek_conn =
  pc_recording :: bool
  pc_committed :: bool
  pc_overflow :: bool
  pc_buf :: string
  pc_written :: string

text \<open>\<open>Read\<close>, given what the connection delivered; \<open>None\<close> is the error \<open>client hello too large\<close>.\<close>

definition peek_read :: "string \<Rightarrow> peek_conn \<Rightarrow> string option \<times> peek_conn" where
  "peek_read bs c =
     (if pc_recording c \<and> bs \<noteq> []
      then (if length (pc_buf c) + length bs > maxPeek then (None, c\<lparr>pc_overflow := True\<rparr>)
            else (Some bs, c\<lparr>pc_buf := pc_buf c @ bs\<rparr>))
      else (Some bs, c))"

text \<open>\<open>Write\<close>; \<open>pc_written\<close> is what reached the guest.\<close>

definition peek_write :: "string \<Rightarrow> peek_conn \<Rightarrow> nat \<times> peek_conn" where
  "peek_write bs c =
     (if \<not> pc_committed c then (length bs, c) else (length bs, c\<lparr>pc_written := pc_written c @ bs\<rparr>))"

definition commit :: "peek_conn \<Rightarrow> peek_conn" where
  "commit c = c\<lparr>pc_committed := True\<rparr>"

datatype peek_op = PRead string | PWrite string

fun peek_run :: "peek_op list \<Rightarrow> peek_conn \<Rightarrow> string \<times> peek_conn" where
  "peek_run [] c = ([], c)"
| "peek_run (PRead bs # ops) c =
     (case peek_read bs c of
        (None, c') \<Rightarrow> ([], c')
      | (Some got, c') \<Rightarrow> (case peek_run ops c' of (rest, d) \<Rightarrow> (got @ rest, d)))"
| "peek_run (PWrite bs # ops) c = peek_run ops (snd (peek_write bs c))"

text \<open>
  An intercepted handshake that is given up leaves no trace. Until netd commits, nothing the TLS server
  writes reaches the guest, and the recording is exactly what the guest sent, at most
  128 KiB of it, so that the upstream can be given the same bytes.
\<close>

theorem peek_replays_exactly:
  assumes "pc_recording c" "\<not> pc_committed c" "pc_buf c = []" "pc_written c = []"
    and "peek_run ops c = (got, c')"
  shows "pc_written c' = [] \<and> pc_buf c' = got \<and> length (pc_buf c') \<le> maxPeek"
proof -
  have "pc_written c' = pc_written c \<and> pc_buf c' = pc_buf c @ got \<and> length (pc_buf c') \<le> maxPeek"
    if "pc_recording c" "\<not> pc_committed c" "length (pc_buf c) \<le> maxPeek" "peek_run ops c = (got, c')" for ops c got
    using that
    by (induction ops c arbitrary: got rule: peek_run.induct)
      (fastforce simp: peek_read_def peek_write_def split: if_splits prod.splits)+
  from this [OF assms(1,2) _ assms(5)] assms(3,4) show ?thesis by auto
qed

lemma peek_replays_exactly_witness:
  "pc_written (snd (peek_run [PRead ''hello'', PWrite ''x''] \<lparr>pc_recording = True, pc_committed = False, pc_overflow = False, pc_buf = [], pc_written = []\<rparr>)) = [] \<and>
   pc_buf (snd (peek_run [PRead ''hello'', PWrite ''x''] \<lparr>pc_recording = True, pc_committed = False, pc_overflow = False, pc_buf = [], pc_written = []\<rparr>)) =
     fst (peek_run [PRead ''hello'', PWrite ''x''] \<lparr>pc_recording = True, pc_committed = False, pc_overflow = False, pc_buf = [], pc_written = []\<rparr>)"
  using peek_replays_exactly [of "\<lparr>pc_recording = True, pc_committed = False, pc_overflow = False, pc_buf = [], pc_written = []\<rparr>"
      "[PRead ''hello'', PWrite ''x'']", OF _ _ _ _ prod.collapse [symmetric]] by simp

end
