(* ===== verification/Http_Codec.thy ===== *)
theory Http_Codec
  imports Bhatti_Prelude
begin

text \<open>
  The standard library under the credential proxy: \<open>strings.ReplaceAll\<close>, \<open>url.PathUnescape\<close> and
  \<open>url.QueryUnescape\<close>, and \<open>base64.StdEncoding\<close>, on byte strings.
\<close>

section \<open>Replacement\<close>

function replace_all :: "string \<Rightarrow> string \<Rightarrow> string \<Rightarrow> string" where
  "replace_all old new s =
     (case s of
        [] \<Rightarrow> []
      | x # xs \<Rightarrow>
          if old \<noteq> [] \<and> has_prefix s old then new @ replace_all old new (drop (length old) s)
          else x # replace_all old new xs)"
  by pat_completeness auto
termination
  by (relation "measure (\<lambda>(old, new, s). length s)") (auto simp: has_prefix_def)

declare replace_all.simps [simp del]

lemma replace_all_absent: "\<not> contains s old \<Longrightarrow> replace_all old new s = s"
proof (induction s)
  case Nil
  then show ?case by (simp add: replace_all.simps)
next
  case (Cons x xs)
  have "\<not> contains xs old"
    using Cons.prems unfolding contains_iff by (metis append_Cons)
  moreover have "\<not> has_prefix (x # xs) old"
    using Cons.prems unfolding contains_iff has_prefix_iff by (metis append_Nil)
  ultimately have "\<not> contains xs old" "\<not> has_prefix (x # xs) old" .
  with Cons.IH show ?case by (subst replace_all.simps) simp
qed

section \<open>Percent decoding\<close>

definition hex_val :: "char \<Rightarrow> nat option" where
  "hex_val c = (let n = of_char c in
     if 48 \<le> n \<and> n \<le> 57 then Some (n - 48)
     else if 97 \<le> n \<and> n \<le> 102 then Some (n - 87)
     else if 65 \<le> n \<and> n \<le> 70 then Some (n - 55)
     else None)"

text \<open>\<open>unescape\<close>: a malformed \<open>%\<close> sequence is an error; \<open>query\<close> turns \<open>+\<close> into a space (query mode).\<close>

fun unescape :: "bool \<Rightarrow> string \<Rightarrow> string option" where
  "unescape query [] = Some []"
| "unescape query (c # s) =
     (if c = CHR ''%'' then
        (case s of
           a # b # rest \<Rightarrow>
             (case (hex_val a, hex_val b) of
                (Some x, Some y) \<Rightarrow> map_option (\<lambda>t. char_of (16 * x + y) # t) (unescape query rest)
              | _ \<Rightarrow> None)
         | _ \<Rightarrow> None)
      else map_option (\<lambda>t. (if query \<and> c = CHR ''+'' then CHR '' '' else c) # t) (unescape query s))"

definition PathUnescape :: "string \<Rightarrow> string option" where "PathUnescape s = unescape False s"
definition QueryUnescape :: "string \<Rightarrow> string option" where "QueryUnescape s = unescape True s"

section \<open>Base64\<close>

definition base64_alphabet :: string where
  "base64_alphabet = ''ABCDEFGHIJKLMNOPQRSTUVWXYZabcdefghijklmnopqrstuvwxyz0123456789+/''"

definition b64_val :: "char \<Rightarrow> nat option" where
  "b64_val c = (let n = of_char c in
     if 65 \<le> n \<and> n \<le> 90 then Some (n - 65)
     else if 97 \<le> n \<and> n \<le> 122 then Some (n - 71)
     else if 48 \<le> n \<and> n \<le> 57 then Some (n + 4)
     else if c = CHR ''+'' then Some 62
     else if c = CHR ''/'' then Some 63
     else None)"

fun base64_encode :: "string \<Rightarrow> string" where
  "base64_encode [] = []"
| "base64_encode [a] =
     (let x = of_char a :: nat in
      [base64_alphabet ! (x div 4), base64_alphabet ! (x mod 4 * 16), CHR ''='', CHR ''=''])"
| "base64_encode [a, b] =
     (let x = of_char a :: nat; y = of_char b in
      [base64_alphabet ! (x div 4), base64_alphabet ! (x mod 4 * 16 + y div 16),
       base64_alphabet ! (y mod 16 * 4), CHR ''=''])"
| "base64_encode (a # b # c # s) =
     (let x = of_char a :: nat; y = of_char b; z = of_char c in
      base64_alphabet ! (x div 4) # base64_alphabet ! (x mod 4 * 16 + y div 16) #
      base64_alphabet ! (y mod 16 * 4 + z div 64) # base64_alphabet ! (z mod 64) # base64_encode s)"

text \<open>Quanta of four characters, padding only at the end; the spare bits of the last one are not checked.\<close>

fun base64_quanta :: "string \<Rightarrow> string option" where
  "base64_quanta [] = Some []"
| "base64_quanta (a # b # c # d # s) =
     (case (b64_val a, b64_val b) of
        (Some w, Some x) \<Rightarrow>
          if c = CHR ''='' \<and> d = CHR ''='' \<and> s = [] then Some [char_of (w * 4 + x div 16)]
          else
            (case b64_val c of
               None \<Rightarrow> None
             | Some y \<Rightarrow>
                 if d = CHR ''='' \<and> s = [] then Some [char_of (w * 4 + x div 16), char_of (x mod 16 * 16 + y div 4)]
                 else
                   (case b64_val d of
                      None \<Rightarrow> None
                    | Some z \<Rightarrow>
                        map_option (\<lambda>t. char_of (w * 4 + x div 16) # char_of (x mod 16 * 16 + y div 4) #
                                        char_of (y mod 4 * 64 + z) # t) (base64_quanta s)))
      | _ \<Rightarrow> None)"
| "base64_quanta s = None"

definition base64_decode :: "string \<Rightarrow> string option" where
  "base64_decode s = base64_quanta (filter (\<lambda>c. c \<noteq> char_of (10::nat) \<and> c \<noteq> char_of (13::nat)) s)"

end
