(* ===== verification/Intercept.thy ===== *)
theory Intercept
  imports Broker Streams Http_Codec Netip
begin

text \<open>
  Credential substitution in netd, \<^verbatim>\<open>src/cmd/bhatti-netd/intercept.go\<close>, with the client of
  \<^verbatim>\<open>src/pkg/gateway/broker.go\<close>. The TLS handshakes are the library's; what the proxy decides around them is
  here: which certificate to present, what a request may carry, which values go into which headers.
  The broker is a function from requests to answers (at one instant); the transport to it may fail.
  Go maps (headers, values) are lists in the order they are iterated; no property
  depends on the order. \<^verbatim>\<open>%q\<close> in the Host refusal is printed without escapes, and
  \<open>httpguts.ValidHeaderFieldValue\<close> is a parameter.
\<close>

section \<open>The broker client\<close>

datatype broker_result = Answered broker_response | BrokerRefusal string | BrokerUnreachable

type_synonym ask = "broker_request \<Rightarrow> broker_result"

definition Do :: "(broker_request \<Rightarrow> broker_response option) \<Rightarrow> ask" where
  "Do transport req =
     (case transport req of
        None \<Rightarrow> BrokerUnreachable
      | Some resp \<Rightarrow> if p_Error resp \<noteq> [] then BrokerRefusal (p_Error resp) else Answered resp)"

section \<open>Certificates\<close>

definition certRefreshSlack :: int where "certRefreshSlack = 3600 * second"
definition certNegativeTTL :: int where "certNegativeTTL = 10 * second"
definition certCacheLimit :: nat where "certCacheLimit = 4096"

text \<open>A leaf as \<open>tls.X509KeyPair\<close> parses it: its encoding and its \<open>NotAfter\<close>.\<close>

record leaf =
  lf_pem :: string
  lf_NotAfter :: time

record cert_entry =
  ce_cert :: "leaf option"
  ce_until :: time

type_synonym cert_cache = "((string \<times> string) \<times> cert_entry) list"

definition fetchCert :: "(string \<Rightarrow> string \<Rightarrow> leaf option) \<Rightarrow> time \<Rightarrow> ask \<Rightarrow> string \<Rightarrow> string \<Rightarrow> cert_entry" where
  "fetchCert keyPair now ask sandbox host =
     (let miss = \<lparr>ce_cert = None, ce_until = now + certNegativeTTL\<rparr> in
      case ask \<lparr>q_Op = BrokerCert, q_Sandbox = sandbox, q_Placeholder = [], q_Host = host, q_Reason = []\<rparr> of
        Answered resp \<Rightarrow>
          (case keyPair (p_CertPEM resp) (p_KeyPEM resp) of
             None \<Rightarrow> miss
           | Some c \<Rightarrow>
               (let until = lf_NotAfter c - certRefreshSlack in
                \<lparr>ce_cert = Some c, ce_until = (if \<not> until > now then now + certNegativeTTL else until)\<rparr>))
      | _ \<Rightarrow> miss)"

definition certFor ::
  "(string \<Rightarrow> string \<Rightarrow> leaf option) \<Rightarrow> time \<Rightarrow> ask \<Rightarrow> string \<Rightarrow> string \<Rightarrow> cert_cache \<Rightarrow> leaf option \<times> cert_cache" where
  "certFor keyPair now ask sandbox host certs =
     (let k = (sandbox, host);
          fetch =
            (let e = fetchCert keyPair now ask sandbox host;
                 live = filter (\<lambda>(k, old). now < ce_until old) certs;
                 certs1 = (if length certs < certCacheLimit then certs
                           else if length live < certCacheLimit then live
                           else []) in
             (ce_cert e, AList.update k e certs1)) in
      case map_of certs k of
        Some e \<Rightarrow> if now < ce_until e then (ce_cert e, certs) else fetch
      | None \<Rightarrow> fetch)"

section \<open>Requests\<close>

record http_request =
  rq_RequestURI :: string
  rq_Host :: string
  rq_Header :: "(string \<times> string list) list"
  rq_Body :: "source option"
  rq_Close :: bool

record refusal =
  rf_status :: int
  rf_reason :: string
  rf_placeholder :: string
  rf_report :: bool

definition url_forms :: "string \<Rightarrow> string list" where
  "url_forms s = s # (case PathUnescape s of None \<Rightarrow> [] | Some u \<Rightarrow> [u]) @ (case QueryUnescape s of None \<Rightarrow> [] | Some u \<Rightarrow> [u])"

definition check_form :: "string \<Rightarrow> string \<Rightarrow> refusal option" where
  "check_form place s =
     (case concat (map FindPlaceholders (url_forms s)) of
        [] \<Rightarrow> None
      | ph # _ \<Rightarrow> Some \<lparr>rf_status = 403, rf_reason = ''placeholder in '' @ place, rf_placeholder = ph, rf_report = True\<rparr>)"

definition placeholderOutsideHeaders :: "http_request \<Rightarrow> refusal option" where
  "placeholderOutsideHeaders req =
     (case check_form ''request target'' (rq_RequestURI req) of
        Some r \<Rightarrow> Some r
      | None \<Rightarrow> check_form ''Host header'' (rq_Host req))"

definition basicCredential :: "string \<Rightarrow> string \<Rightarrow> string option" where
  "basicCredential name v =
     (if name \<noteq> ''Authorization'' \<and> name \<noteq> ''Proxy-Authorization'' then None
      else if length v \<le> 6 \<or> \<not> equal_fold (take 6 v) ''basic '' then None
      else base64_decode (trim_space (drop 6 v)))"

definition replacePlaceholders :: "string \<Rightarrow> (string \<times> string) list \<Rightarrow> string" where
  "replacePlaceholders s vals =
     (if \<not> contains s PlaceholderPrefix then s else fold (\<lambda>(ph, v) s. replace_all ph v s) vals s)"

definition netd_normalizeHost :: "string \<Rightarrow> string" where
  "netd_normalizeHost h = to_lower (trim_suffix h ''.'')"

definition stripPort :: "string \<Rightarrow> string" where
  "stripPort hostport = (case SplitHostPort hostport of Some (h, _) \<Rightarrow> h | None \<Rightarrow> hostport)"

section \<open>Values\<close>

record held_value =
  hv_value :: string
  hv_until :: "time option"

record cred_conn =
  cc_sandbox :: string
  cc_host :: string
  cc_values :: "(string \<times> held_value) list"

definition resolve_request :: "cred_conn \<Rightarrow> string \<Rightarrow> broker_request" where
  "resolve_request c ph =
     \<lparr>q_Op = BrokerResolve, q_Sandbox = cc_sandbox c, q_Placeholder = ph, q_Host = cc_host c, q_Reason = []\<rparr>"

definition hv_live :: "time \<Rightarrow> held_value \<Rightarrow> bool" where
  "hv_live now hv \<longleftrightarrow> (case hv_until hv of None \<Rightarrow> True | Some t \<Rightarrow> now < t)"

definition value_of :: "time \<Rightarrow> ask \<Rightarrow> string \<Rightarrow> cred_conn \<Rightarrow> (refusal + string) \<times> cred_conn" where
  "value_of now ask ph c =
     (let fetch =
        (case ask (resolve_request c ph) of
           BrokerRefusal reason \<Rightarrow>
             (Inl \<lparr>rf_status = 403, rf_reason = ''credential refused: '' @ reason, rf_placeholder = [], rf_report = False\<rparr>, c)
         | BrokerUnreachable \<Rightarrow>
             (Inl \<lparr>rf_status = 503, rf_reason = ''credential broker unavailable'', rf_placeholder = [], rf_report = False\<rparr>, c)
         | Answered resp \<Rightarrow>
             (let hv = \<lparr>hv_value = p_Value resp,
                        hv_until = (if p_TTLSeconds resp > 0 then Some (now + p_TTLSeconds resp * second) else None)\<rparr> in
              (Inr (p_Value resp), c\<lparr>cc_values := AList.update ph hv (cc_values c)\<rparr>))) in
      case map_of (cc_values c) ph of
        Some hv \<Rightarrow> if hv_live now hv then (Inr (hv_value hv), c) else fetch
      | None \<Rightarrow> fetch)"

section \<open>Substitution\<close>

definition found_in_header :: "string \<Rightarrow> string \<Rightarrow> string list" where
  "found_in_header name v =
     FindPlaceholders v @ (case basicCredential name v of None \<Rightarrow> [] | Some dec \<Rightarrow> FindPlaceholders dec)"

definition found_placeholders :: "(string \<times> string list) list \<Rightarrow> string list" where
  "found_placeholders hdr = concat (map (\<lambda>(name, vs). concat (map (found_in_header name) vs)) hdr)"

fun resolve_all ::
  "time \<Rightarrow> ask \<Rightarrow> string list \<Rightarrow> (string \<times> string) list \<Rightarrow> cred_conn \<Rightarrow> (refusal + (string \<times> string) list) \<times> cred_conn" where
  "resolve_all now ask [] vals c = (Inr vals, c)"
| "resolve_all now ask (ph # phs) vals c =
     (if ph \<in> fst ` set vals then resolve_all now ask phs vals c
      else
        (case value_of now ask ph c of
           (Inl r, c') \<Rightarrow> (Inl r, c')
         | (Inr v, c') \<Rightarrow> resolve_all now ask phs (vals @ [(ph, v)]) c'))"

definition substitute_value ::
  "(string \<Rightarrow> bool) \<Rightarrow> (string \<times> string) list \<Rightarrow> string \<Rightarrow> string \<Rightarrow> refusal + string" where
  "substitute_value valid vals name v =
     (let nv0 = replacePlaceholders v vals;
          nv = (case basicCredential name nv0 of
                  Some dec \<Rightarrow>
                    if ContainsPlaceholder dec then ''Basic '' @ base64_encode (replacePlaceholders dec vals) else nv0
                | None \<Rightarrow> nv0) in
      if nv = v then Inr v
      else if \<not> valid nv
      then Inl \<lparr>rf_status = 502, rf_reason = ''a secret's value is not a valid HTTP header value'', rf_placeholder = [], rf_report = False\<rparr>
      else Inr nv)"

definition substitute_headers ::
  "(string \<Rightarrow> bool) \<Rightarrow> (string \<times> string) list \<Rightarrow> (string \<times> string list) list \<Rightarrow> refusal + (string \<times> string list) list" where
  "substitute_headers valid vals hdr =
     map_res (\<lambda>(name, vs). res_bind (map_res (substitute_value valid vals name) vs) (\<lambda>vs'. Inr (name, vs'))) hdr"

definition host_mismatch :: "http_request \<Rightarrow> cred_conn \<Rightarrow> string \<Rightarrow> refusal" where
  "host_mismatch req c ph =
     \<lparr>rf_status = 403,
      rf_reason = ''Host '' @ [CHR 0x22] @ rq_Host req @ [CHR 0x22] @ '' is not the intercepted host '' @ cc_host c,
      rf_placeholder = ph, rf_report = True\<rparr>"

definition substitute ::
  "(string \<Rightarrow> bool) \<Rightarrow> time \<Rightarrow> ask \<Rightarrow> http_request \<Rightarrow> cred_conn
   \<Rightarrow> (refusal + (string \<times> string list) list) \<times> cred_conn" where
  "substitute valid now ask req c =
     (case found_placeholders (rq_Header req) of
        [] \<Rightarrow> (Inr (rq_Header req), c)
      | ph # phs \<Rightarrow>
          if \<not> equal_fold (netd_normalizeHost (stripPort (rq_Host req))) (cc_host c)
          then (Inl (host_mismatch req c ph), c)
          else
            (case resolve_all now ask (ph # phs) [] c of
               (Inl r, c') \<Rightarrow> (Inl r, c')
             | (Inr vals, c') \<Rightarrow> (substitute_headers valid vals (rq_Header req), c')))"

section \<open>One exchange\<close>

text \<open>What the proxy does on the two connections and toward the broker, in order.\<close>

datatype action =
    ReportDenial string string
  | WriteError int string
  | WriteContinue
  | SendRequest "(string \<times> string list) list" string
  | WriteResponseHead int
  | Tunnel
  | WriteResponse int

text \<open>A response of the upstream, with whether writing it to the guest succeeds.\<close>

record upstream_response =
  ur_StatusCode :: int
  ur_Close :: bool
  ur_written :: bool

definition refuse_guest :: "refusal \<Rightarrow> action list" where
  "refuse_guest r =
     (if rf_report r then [ReportDenial (rf_placeholder r) (rf_reason r)] else []) @ [WriteError (rf_status r) (rf_reason r)]"

fun relay_responses :: "bool \<Rightarrow> upstream_response list \<Rightarrow> action list \<times> bool" where
  "relay_responses reqClose [] = ([], False)"
| "relay_responses reqClose (resp # rs) =
     (if ur_StatusCode resp = 101 then
        (if ur_written resp then ([WriteResponseHead 101, Tunnel], False) else ([], False))
      else if 100 \<le> ur_StatusCode resp \<and> ur_StatusCode resp < 200 then
        (if ur_written resp
         then (case relay_responses reqClose rs of (as, k) \<Rightarrow> (WriteResponseHead (ur_StatusCode resp) # as, k))
         else ([], False))
      else ([WriteResponse (ur_StatusCode resp)], ur_written resp \<and> \<not> reqClose \<and> \<not> ur_Close resp))"

definition header_get :: "(string \<times> string list) list \<Rightarrow> string \<Rightarrow> string" where
  "header_get hdr name = (case map_of hdr name of Some (v # _) \<Rightarrow> v | _ \<Rightarrow> [])"

definition forwarded_header :: "(string \<times> string list) list \<Rightarrow> (string \<times> string list) list" where
  "forwarded_header hdr =
     (let h1 = (if equal_fold (header_get hdr ''Expect'') ''100-continue'' then filter (\<lambda>(n, _). n \<noteq> ''Expect'') hdr else hdr) in
      if map_of h1 ''User-Agent'' = None then h1 @ [(''User-Agent'', [[]])] else h1)"

text \<open>
  \<open>exchange\<close>: \<open>reads\<close> are the sizes \<open>Request.Write\<close> reads the body with, \<open>continue_ok\<close> and \<open>write_ok\<close>
  whether the writes of the 100 and of the request succeed, \<open>ups\<close> the upstream's responses.
\<close>

definition exchange ::
  "(string \<Rightarrow> bool) \<Rightarrow> time \<Rightarrow> ask \<Rightarrow> nat list \<Rightarrow> bool \<Rightarrow> bool \<Rightarrow> upstream_response list \<Rightarrow> http_request \<Rightarrow> cred_conn
   \<Rightarrow> action list \<times> bool \<times> cred_conn" where
  "exchange valid now ask reads continue_ok write_ok ups req c =
     (case placeholderOutsideHeaders req of
        Some r \<Rightarrow> (refuse_guest r, False, c)
      | None \<Rightarrow>
          (case substitute valid now ask req c of
             (Inl r, c') \<Rightarrow> (refuse_guest r, False, c')
           | (Inr hdr, c') \<Rightarrow>
               (let expects = equal_fold (header_get hdr ''Expect'') ''100-continue'';
                    pre = (if expects then [WriteContinue] else []) in
                if expects \<and> \<not> continue_ok then (pre, False, c')
                else
                  (let (body, res, guard) =
                         (case rq_Body req of None \<Rightarrow> ([], None, new_guard) | Some src \<Rightarrow> guard_run reads new_guard src);
                       sent = pre @ [SendRequest (forwarded_header hdr) body] in
                   if bg_found guard \<noteq> [] then
                     (sent @ refuse_guest \<lparr>rf_status = 403, rf_reason = ''placeholder in request body'',
                                             rf_placeholder = bg_found guard, rf_report = True\<rparr>, False, c')
                   else if \<not> write_ok then (sent, False, c')
                   else (case relay_responses (rq_Close req) ups of (as, k) \<Rightarrow> (sent @ as, k, c'))))))"

section \<open>What is forwarded\<close>

lemma check_form_None: "check_form place s = None \<longleftrightarrow> (\<forall>f \<in> set (url_forms s). \<not> ContainsPlaceholder f)"
proof -
  have "check_form place s = None \<longleftrightarrow> concat (map FindPlaceholders (url_forms s)) = []"
    unfolding check_form_def by (cases "concat (map FindPlaceholders (url_forms s))") (simp_all del: concat_eq_Nil_conv)
  then show ?thesis by (simp add: FindPlaceholders_empty_iff)
qed

lemma placeholderOutsideHeaders_None:
  "placeholderOutsideHeaders req = None \<longleftrightarrow>
     (\<forall>f \<in> set (url_forms (rq_RequestURI req)) \<union> set (url_forms (rq_Host req)). \<not> ContainsPlaceholder f)"
proof -
  have "placeholderOutsideHeaders req = None \<longleftrightarrow>
      check_form ''request target'' (rq_RequestURI req) = None \<and> check_form ''Host header'' (rq_Host req) = None"
    by (auto simp: placeholderOutsideHeaders_def split: option.splits)
  then show ?thesis by (auto simp: check_form_None)
qed

lemma substitute_cases:
  assumes "substitute valid now ask req c = (Inr hdr, c')"
  obtains (none) "found_placeholders (rq_Header req) = []" "hdr = rq_Header req" "c' = c"
  | (subst) vals where "found_placeholders (rq_Header req) \<noteq> []"
      "equal_fold (netd_normalizeHost (stripPort (rq_Host req))) (cc_host c)"
      "resolve_all now ask (found_placeholders (rq_Header req)) [] c = (Inr vals, c')"
      "substitute_headers valid vals (rq_Header req) = Inr hdr"
proof (cases "found_placeholders (rq_Header req)")
  case Nil
  then have "(Inr (rq_Header req), c) = (Inr hdr :: refusal + _, c')" using assms by (simp add: substitute_def)
  then show thesis by (intro none [OF Nil]) simp_all
next
  case (Cons ph phs)
  have host: "equal_fold (netd_normalizeHost (stripPort (rq_Host req))) (cc_host c)"
    using assms Cons by (simp add: substitute_def split: if_splits)
  obtain r c1 where r: "resolve_all now ask (ph # phs) [] c = (r, c1)" by (cases "resolve_all now ask (ph # phs) [] c")
  then obtain vals where "r = Inr vals" "c1 = c'" "substitute_headers valid vals (rq_Header req) = Inr hdr"
    using assms Cons host by (cases r) (simp_all add: substitute_def del: resolve_all.simps)
  with r show thesis by (intro subst [OF _ host]) (simp_all add: Cons del: resolve_all.simps)
qed

lemma relay_responses_no_send: "SendRequest h b \<notin> set (fst (relay_responses k rs))"
  by (induction k rs rule: relay_responses.induct) (auto split: prod.splits)

lemma refuse_guest_no_send: "SendRequest h b \<notin> set (refuse_guest r)"
  by (auto simp: refuse_guest_def)

lemma exchange_sends:
  assumes "exchange valid now ask reads ok1 ok2 ups req c = (as, k, c')" and "SendRequest h body \<in> set as"
  shows "placeholderOutsideHeaders req = None \<and>
    (\<exists>hdr. substitute valid now ask req c = (Inr hdr, c') \<and> h = forwarded_header hdr) \<and>
    (case rq_Body req of None \<Rightarrow> body = [] | Some src \<Rightarrow> body = fst (guard_run reads new_guard src))"
  using assms refuse_guest_no_send relay_responses_no_send [of h body "rq_Close req" ups]
  by (auto simp: exchange_def Let_def split: option.splits prod.splits sum.splits if_splits)

text \<open>
  C17: a request leaves the proxy only clean. If anything is sent upstream for a request, its target
  and its Host header hold no placeholder, neither as written nor percent-decoded as a path or a
  query; a request that had a placeholder in its headers names the intercepted host; and what is sent of its
  body ends before the first placeholder in it.
\<close>

theorem forwarded_request_clean:
  assumes "exchange valid now ask reads ok1 ok2 ups req c = (as, k, c')" and "SendRequest h body \<in> set as"
  shows "(\<forall>f \<in> set (url_forms (rq_RequestURI req)) \<union> set (url_forms (rq_Host req)). \<not> ContainsPlaceholder f) \<and>
    (found_placeholders (rq_Header req) \<noteq> [] \<longrightarrow> equal_fold (netd_normalizeHost (stripPort (rq_Host req))) (cc_host c)) \<and>
    (\<forall>src j. rq_Body req = Some src \<and> placeholder_at (body_of src) j \<longrightarrow>
       length body \<le> j \<and> body = take (length body) (body_of src))"
proof -
  note s = exchange_sends [OF assms]
  then obtain hdr where "substitute valid now ask req c = (Inr hdr, c')" by blast
  then have host: "found_placeholders (rq_Header req) \<noteq> [] \<longrightarrow> equal_fold (netd_normalizeHost (stripPort (rq_Host req))) (cc_host c)"
    by (cases rule: substitute_cases) auto
  have "length body \<le> j \<and> body = take (length body) (body_of src)"
    if src: "rq_Body req = Some src" and occ: "placeholder_at (body_of src) j" for src j
  proof -
    obtain res g where run: "guard_run reads new_guard src = (body, res, g)"
      using s src by (cases "guard_run reads new_guard src") simp
    from guard_run_post [OF guard_inv_new _ run] occ show ?thesis by (auto simp: new_guard_def)
  qed
  with s host show ?thesis unfolding placeholderOutsideHeaders_None by blast
qed

section \<open>Where values come from\<close>

text \<open>
  The broker as the proxy uses it over time: \<open>ask t\<close> answers at time \<open>t\<close>, and an answered
  \<open>resolve\<close> was authorized then, for the sandbox, the host and the placeholder of the request.
\<close>

locale credential_source =
  fixes ask :: "time \<Rightarrow> ask"
    and authorized :: "time \<Rightarrow> string \<Rightarrow> string \<Rightarrow> string \<Rightarrow> broker_response \<Rightarrow> bool"
  assumes answered: "ask t req = Answered resp \<Longrightarrow> q_Op req = BrokerResolve \<Longrightarrow>
      authorized t (q_Sandbox req) (q_Host req) (q_Placeholder req) resp"
begin

text \<open>A value obtained at \<open>t0\<close>, still usable at \<open>t\<close>.\<close>

definition obtained :: "time \<Rightarrow> cred_conn \<Rightarrow> string \<Rightarrow> string \<Rightarrow> bool" where
  "obtained t c ph v \<longleftrightarrow> (\<exists>t0 resp. t0 \<le> t \<and> authorized t0 (cc_sandbox c) (cc_host c) ph resp \<and> v = p_Value resp \<and>
     (p_TTLSeconds resp > 0 \<longrightarrow> t < t0 + p_TTLSeconds resp * second))"

definition conn_inv :: "time \<Rightarrow> cred_conn \<Rightarrow> bool" where
  "conn_inv t c \<longleftrightarrow> (\<forall>ph hv. map_of (cc_values c) ph = Some hv \<longrightarrow>
     (\<exists>t0 resp. t0 \<le> t \<and> authorized t0 (cc_sandbox c) (cc_host c) ph resp \<and> hv_value hv = p_Value resp \<and>
        hv_until hv = (if p_TTLSeconds resp > 0 then Some (t0 + p_TTLSeconds resp * second) else None)))"

lemma conn_inv_empty: "cc_values c = [] \<Longrightarrow> conn_inv t c"
  by (simp add: conn_inv_def)

lemma conn_inv_mono: "conn_inv t c \<Longrightarrow> t \<le> t' \<Longrightarrow> conn_inv t' c"
  unfolding conn_inv_def by (meson order_trans)

lemma value_of_obtained:
  assumes "conn_inv t c" and "value_of t (ask t) ph c = (r, c')"
  shows "conn_inv t c' \<and> cc_sandbox c' = cc_sandbox c \<and> cc_host c' = cc_host c \<and> (\<forall>v. r = Inr v \<longrightarrow> obtained t c ph v)"
proof (cases "\<exists>hv. map_of (cc_values c) ph = Some hv \<and> hv_live t hv")
  case True
  then obtain hv where hv: "map_of (cc_values c) ph = Some hv" "hv_live t hv" by blast
  then have "r = Inr (hv_value hv)" "c' = c" using assms(2) by (auto simp: value_of_def)
  moreover obtain t0 resp where "t0 \<le> t" "authorized t0 (cc_sandbox c) (cc_host c) ph resp" "hv_value hv = p_Value resp"
    "hv_until hv = (if p_TTLSeconds resp > 0 then Some (t0 + p_TTLSeconds resp * second) else None)"
    using assms(1) hv(1) unfolding conn_inv_def by blast
  moreover from this(4) hv(2) have "p_TTLSeconds resp > 0 \<longrightarrow> t < t0 + p_TTLSeconds resp * second"
    by (auto simp: hv_live_def split: if_splits)
  ultimately show ?thesis using assms(1) unfolding obtained_def by blast
next
  case False
  show ?thesis
  proof (cases "ask t (resolve_request c ph)")
    case (Answered resp)
    then have auth: "authorized t (cc_sandbox c) (cc_host c) ph resp"
      using answered [OF Answered] by (simp add: resolve_request_def)
    from False Answered assms(2) have r: "r = Inr (p_Value resp)"
      and c': "c' = c\<lparr>cc_values := AList.update ph \<lparr>hv_value = p_Value resp,
         hv_until = (if p_TTLSeconds resp > 0 then Some (t + p_TTLSeconds resp * second) else None)\<rparr> (cc_values c)\<rparr>"
      by (auto simp: value_of_def Let_def split: option.splits if_splits)
    have "obtained t c ph (p_Value resp)"
      using auth unfolding obtained_def by (intro exI [of _ t] exI [of _ resp]) (simp add: second_def)
    moreover have "conn_inv t c'"
      using assms(1) auth unfolding c' conn_inv_def by (auto simp: update_conv')
    ultimately show ?thesis using r c' by simp
  qed (use False assms in \<open>auto simp: value_of_def Let_def split: option.splits if_splits\<close>)
qed

lemma resolve_all_obtained:
  assumes "conn_inv t c" "\<forall>(ph, v) \<in> set vals. obtained t c ph v" and "resolve_all t (ask t) phs vals c = (r, c')"
  shows "conn_inv t c' \<and> cc_sandbox c' = cc_sandbox c \<and> cc_host c' = cc_host c \<and>
    (\<forall>vals'. r = Inr vals' \<longrightarrow> (\<forall>(ph, v) \<in> set vals'. obtained t c ph v))"
  using assms
proof (induction phs arbitrary: vals c)
  case (Cons ph phs)
  show ?case
  proof (cases "ph \<in> fst ` set vals")
    case True
    with Cons.IH [OF Cons.prems(1,2)] Cons.prems(3) show ?thesis by simp
  next
    case False
    obtain r1 c1 where v: "value_of t (ask t) ph c = (r1, c1)" by (cases "value_of t (ask t) ph c")
    note step = value_of_obtained [OF Cons.prems(1) v]
    then have same: "obtained t c1 p x = obtained t c p x" for p x by (simp add: obtained_def)
    show ?thesis
    proof (cases r1)
      case (Inl e)
      with Cons.prems(3) False v step show ?thesis by auto
    next
      case (Inr x)
      have "\<forall>(p, y) \<in> set (vals @ [(ph, x)]). obtained t c1 p y"
        using Cons.prems(2) step Inr same by auto
      moreover have "resolve_all t (ask t) phs (vals @ [(ph, x)]) c1 = (r, c')"
        using Cons.prems(3) False v Inr by simp
      ultimately show ?thesis using Cons.IH [of c1 "vals @ [(ph, x)]"] step same by simp
    qed
  qed
qed auto

lemma substitute_obtained:
  assumes "conn_inv t c" and "substitute valid t (ask t) req c = (r, c')"
  shows "conn_inv t c' \<and> cc_sandbox c' = cc_sandbox c \<and> cc_host c' = cc_host c \<and>
    (\<forall>hdr. r = Inr hdr \<longrightarrow> (\<exists>vals. substitute_headers valid vals (rq_Header req) = Inr hdr \<and>
       (\<forall>(ph, v) \<in> set vals. obtained t c ph v)) \<or> found_placeholders (rq_Header req) = [] \<and> hdr = rq_Header req)"
proof (cases "found_placeholders (rq_Header req)")
  case Nil
  with assms show ?thesis by (auto simp: substitute_def)
next
  case (Cons ph phs)
  show ?thesis
  proof (cases "equal_fold (netd_normalizeHost (stripPort (rq_Host req))) (cc_host c)")
    case True
    obtain r1 c1 where ra: "resolve_all t (ask t) (ph # phs) [] c = (r1, c1)" by (cases "resolve_all t (ask t) (ph # phs) [] c")
    with assms(2) Cons True resolve_all_obtained [OF assms(1) _ ra] show ?thesis
      by (auto simp: substitute_def simp del: resolve_all.simps split: sum.splits)
  qed (use assms Cons in \<open>auto simp: substitute_def\<close>)
qed

lemma exchange_inv:
  assumes "conn_inv t c" and "exchange valid t (ask t) reads ok1 ok2 ups req c = (as, k, c')"
  shows "conn_inv t c' \<and> cc_sandbox c' = cc_sandbox c \<and> cc_host c' = cc_host c"
proof (cases "placeholderOutsideHeaders req")
  case None
  obtain r c1 where s: "substitute valid t (ask t) req c = (r, c1)" by (cases "substitute valid t (ask t) req c")
  with assms(2) None have "c' = c1"
    by (auto simp: exchange_def Let_def split: sum.splits prod.splits if_splits)
  with substitute_obtained [OF assms(1) s] show ?thesis by simp
qed (use assms in \<open>auto simp: exchange_def\<close>)

end

text \<open>The life of an intercepted connection: exchanges at times that do not go back.\<close>

inductive conn_reach :: "(time \<Rightarrow> ask) \<Rightarrow> (string \<Rightarrow> bool) \<Rightarrow> time \<Rightarrow> cred_conn \<Rightarrow> bool"
  for ask :: "time \<Rightarrow> ask" and valid :: "string \<Rightarrow> bool" where
  opened: "cc_values c = [] \<Longrightarrow> conn_reach ask valid t c"
| exchanged: "conn_reach ask valid t c \<Longrightarrow> t \<le> t' \<Longrightarrow>
    exchange valid t' (ask t') reads ok1 ok2 ups req c = (as, True, c') \<Longrightarrow> conn_reach ask valid t' c'"

context credential_source
begin

lemma reach_inv: "conn_reach ask valid t c \<Longrightarrow> conn_inv t c"
proof (induction rule: conn_reach.induct)
  case (exchanged t c t' reads ok1 ok2 ups req as c')
  from conn_inv_mono [OF exchanged.IH exchanged.hyps(2)] exchange_inv exchanged.hyps(3) show ?case by blast
qed (simp add: conn_inv_empty)

end

section \<open>From the grant to the request\<close>

text \<open>
  The daemon's broker over time: \<open>D t\<close> is the database and \<open>B t\<close> the broker's own state at \<open>t\<close>,
  \<open>up t\<close> whether the socket to it works. \<open>granted\<close> is what the answer to a resolve at \<open>t\<close> rests on.
\<close>

definition broker_at :: "broker_cfg \<Rightarrow> string \<Rightarrow> (time \<Rightarrow> db) \<Rightarrow> (time \<Rightarrow> broker) \<Rightarrow> (time \<Rightarrow> bool) \<Rightarrow> time \<Rightarrow> ask" where
  "broker_at cfg u D B up t = Do (\<lambda>req. if up t then Some (fst (handle cfg (db_api (D t)) t u req (B t))) else None)"

definition granted :: "broker_cfg \<Rightarrow> string \<Rightarrow> db \<Rightarrow> time \<Rightarrow> string \<Rightarrow> string \<Rightarrow> string \<Rightarrow> broker_response \<Rightarrow> bool" where
  "granted cfg u d t sandbox host ph resp \<longleftrightarrow>
     (\<exists>g \<in> set (secret_grants d). authorizes t u (sandboxFor (db_api d) u sandbox) ph (normalizeHost host) g \<and>
        (\<exists>ct. GetSecretValue u (g_SecretName g) d = Inr ct \<and> cfg_Decrypt cfg ct = Some (p_Value resp)) \<and>
        p_TTLSeconds resp = (case g_ExpiresAt g of None \<Rightarrow> 0 | Some e \<Rightarrow> resolve_ttl e t))"

interpretation broker: credential_source "broker_at cfg u D B up" "\<lambda>t. granted cfg u (D t) t" for cfg u D B up
proof
  fix t req resp
  assume "broker_at cfg u D B up t req = Answered resp" "q_Op req = BrokerResolve"
  then have h: "resp = fst (handle cfg (db_api (D t)) t u req (B t))" "p_Error resp = []"
    by (auto simp: broker_at_def Do_def split: if_splits)
  with \<open>q_Op req = BrokerResolve\<close> have r: "resp = fst (resolve cfg (db_api (D t)) t u req (B t))"
    by (auto simp: handle_def split: if_splits)
  with h(2) db.resolve_authorized [of cfg "D t" t u req "B t"]
  show "granted cfg u (D t) t (q_Sandbox req) (q_Host req) (q_Placeholder req) resp"
    by (simp add: granted_def db_api_def)
qed

text \<open>
  C1: a secret reaches a request only through a live grant. On an intercepted connection of an
  owner's guest, at any point of its life, let a request come through the substitution at time \<open>t\<close>. Then either it held no
  placeholder and is unchanged, or its Host is the intercepted host and every value put into its
  headers was resolved at some \<open>t0 \<le> t\<close> by a grant in the database of \<open>t0\<close> that was then live,
  belonged to the owner, to this sandbox and to this placeholder, and covered the host; the value is the
  decryption of the secret of that grant, and if the grant expires then
  \<open>t\<close> is less than a second past its expiry.
\<close>

theorem credential_end_to_end:
  assumes "conn_reach (broker_at cfg u D B up) valid now c" and "now \<le> t"
    and "substitute valid t (broker_at cfg u D B up t) req c = (Inr hdr, c')"
  shows "found_placeholders (rq_Header req) = [] \<and> hdr = rq_Header req \<or>
    equal_fold (netd_normalizeHost (stripPort (rq_Host req))) (cc_host c) \<and>
    (\<exists>vals. substitute_headers valid vals (rq_Header req) = Inr hdr \<and>
      (\<forall>(ph, v) \<in> set vals. \<exists>t0 \<le> t. \<exists>g \<in> set (secret_grants (D t0)).
         authorizes t0 u (sandboxFor (db_api (D t0)) u (cc_sandbox c)) ph (normalizeHost (cc_host c)) g \<and>
         (\<exists>ct. GetSecretValue u (g_SecretName g) (D t0) = Inr ct \<and> cfg_Decrypt cfg ct = Some v) \<and>
         (\<forall>e. g_ExpiresAt g = Some e \<and> e - t0 + second \<le> 2 ^ 63 \<longrightarrow> t < e + second)))"
  using assms(3)
proof (cases rule: substitute_cases)
  case (subst vals)
  have inv: "broker.conn_inv cfg u D t c"
    using broker.conn_inv_mono [OF broker.reach_inv [OF assms(1)] assms(2)] .
  have ttl: "t < e + second"
    if "t < t0 + resolve_ttl e t0 * second" "t0 < e" "e - t0 + second \<le> 2 ^ 63" for t0 e
    using resolve_ttl_bounds [OF that(2,3)] that(1) by linarith
  have "\<exists>t0 \<le> t. \<exists>g \<in> set (secret_grants (D t0)).
      authorizes t0 u (sandboxFor (db_api (D t0)) u (cc_sandbox c)) ph (normalizeHost (cc_host c)) g \<and>
      (\<exists>ct. GetSecretValue u (g_SecretName g) (D t0) = Inr ct \<and> cfg_Decrypt cfg ct = Some v) \<and>
      (\<forall>e. g_ExpiresAt g = Some e \<and> e - t0 + second \<le> 2 ^ 63 \<longrightarrow> t < e + second)"
    if "(ph, v) \<in> set vals" for ph v
  proof -
    have "broker.obtained cfg u D t c ph v"
      using broker.resolve_all_obtained [OF inv _ subst(3)] that by auto
    then obtain t0 resp where t0: "t0 \<le> t" and v: "v = p_Value resp" "p_TTLSeconds resp > 0 \<longrightarrow> t < t0 + p_TTLSeconds resp * second"
      and "granted cfg u (D t0) t0 (cc_sandbox c) (cc_host c) ph resp"
      unfolding broker.obtained_def by blast
    then obtain g ct where g: "g \<in> set (secret_grants (D t0))" "authorizes t0 u (sandboxFor (db_api (D t0)) u (cc_sandbox c)) ph (normalizeHost (cc_host c)) g"
        "GetSecretValue u (g_SecretName g) (D t0) = Inr ct" "cfg_Decrypt cfg ct = Some (p_Value resp)"
        "p_TTLSeconds resp = (case g_ExpiresAt g of None \<Rightarrow> 0 | Some e \<Rightarrow> resolve_ttl e t0)"
      unfolding granted_def by blast
    have "t < e + second" if e: "g_ExpiresAt g = Some e" "e - t0 + second \<le> 2 ^ 63" for e
    proof -
      have "t0 < e" using g(2) e(1) by (simp add: authorizes_def Live_def)
      with resolve_ttl_bounds [OF this e(2)] v(2) g(5) e ttl show ?thesis by simp
    qed
    with t0 g v(1) show ?thesis by blast
  qed
  with subst show ?thesis by blast
qed simp

definition example_conn :: cred_conn where
  "example_conn = \<lparr>cc_sandbox = ''sb1'', cc_host = ''api.stripe.com'', cc_values = []\<rparr>"

definition example_http :: http_request where
  "example_http = \<lparr>rq_RequestURI = ''/v1/charges'', rq_Host = ''api.stripe.com:443'',
     rq_Header = [(''Authorization'', [''Bearer '' @ example_placeholder])], rq_Body = Some [(''x=1'', EOF)], rq_Close = False\<rparr>"

definition example_ask :: "time \<Rightarrow> ask" where
  "example_ask = broker_at example_cfg ''alice'' (\<lambda>_. example_db) (\<lambda>_. \<lparr>events = [], audit_log = []\<rparr>) (\<lambda>_. True)"

lemma example_substitute:
  "fst (substitute (\<lambda>_. True) 200 (example_ask 200) example_http example_conn) =
     Inr [(''Authorization'', [''Bearer sk_live''])]"
  by code_simp

lemma forwarded_request_clean_witness:
  "\<exists>as k c' h body. exchange (\<lambda>_. True) 200 (example_ask 200) [] True True [] example_http example_conn = (as, k, c') \<and>
     SendRequest h body \<in> set as \<and>
     (\<forall>f \<in> set (url_forms (rq_RequestURI example_http)) \<union> set (url_forms (rq_Host example_http)). \<not> ContainsPlaceholder f)"
proof -
  obtain as k c' where ex: "exchange (\<lambda>_. True) 200 (example_ask 200) [] True True [] example_http example_conn = (as, k, c')"
    by (metis prod_cases3)
  have "list_ex (\<lambda>a. case a of SendRequest _ _ \<Rightarrow> True | _ \<Rightarrow> False)
      (fst (exchange (\<lambda>_. True) 200 (example_ask 200) [] True True [] example_http example_conn))" by code_simp
  then obtain x where "x \<in> set as" "case x of SendRequest _ _ \<Rightarrow> True | _ \<Rightarrow> False"
    unfolding ex by (auto simp: list_ex_iff)
  then obtain h body where "SendRequest h body \<in> set as" by (cases x rule: action.exhaust) auto
  from forwarded_request_clean [OF ex this] this ex show ?thesis by blast
qed

lemma credential_end_to_end_witness:
  "found_placeholders (rq_Header example_http) \<noteq> [] \<and>
    (\<exists>vals. substitute_headers (\<lambda>_. True) vals (rq_Header example_http) = Inr [(''Authorization'', [''Bearer sk_live''])] \<and>
      (\<forall>(ph, v) \<in> set vals. \<exists>t0 \<le> 200. \<exists>g \<in> set (secret_grants example_db).
         authorizes t0 ''alice'' (sandboxFor (db_api example_db) ''alice'' ''sb1'') ph (normalizeHost ''api.stripe.com'') g))"
proof -
  let ?D = "\<lambda>_::time. example_db" and ?B = "\<lambda>_::time. \<lparr>events = [], audit_log = []\<rparr>"
  have reach: "conn_reach (broker_at example_cfg ''alice'' ?D ?B (\<lambda>_. True)) (\<lambda>_. True) 200 example_conn"
    by (rule conn_reach.opened) (simp add: example_conn_def)
  obtain c' where s: "substitute (\<lambda>_. True) 200 (broker_at example_cfg ''alice'' ?D ?B (\<lambda>_. True) 200) example_http example_conn =
      (Inr [(''Authorization'', [''Bearer sk_live''])], c')"
    using example_substitute unfolding example_ask_def by (metis prod.collapse)
  have f: "found_placeholders (rq_Header example_http) \<noteq> []" by code_simp
  have c: "cc_sandbox example_conn = ''sb1''" "cc_host example_conn = ''api.stripe.com''" by (simp_all add: example_conn_def)
  from credential_end_to_end [OF reach order_refl s] f show ?thesis unfolding c by blast
qed

section \<open>The certificate cache\<close>

lemma length_update_le: "length (AList.update k v l) \<le> Suc (length l)"
  by (induction l) auto

lemma map_of_filter_Some:
  "distinct (map fst l) \<Longrightarrow> map_of (filter (\<lambda>(k, v). P v) l) k = Some v \<Longrightarrow> map_of l k = Some v"
  by (auto simp: map_of_filter_distinct split: option.splits if_splits)

text \<open>
  The certificate cache is bounded and never invents a certificate. The cache holds at most 4096 entries;
  what \<open>certFor\<close> returns is either an unexpired entry of the cache for this sandbox and host or the
  broker's answer now, and a refusal or a failure of the broker is remembered for ten
  seconds only, as no certificate.
\<close>

theorem cert_cache_sound:
  assumes "length certs \<le> certCacheLimit" and "certFor keyPair now ask s h certs = (r, certs')"
  shows "length certs' \<le> certCacheLimit \<and>
    ((\<exists>e. map_of certs (s, h) = Some e \<and> now < ce_until e \<and> r = ce_cert e \<and> certs' = certs) \<or>
     r = ce_cert (fetchCert keyPair now ask s h) \<and> map_of certs' (s, h) = Some (fetchCert keyPair now ask s h) \<and>
     (r = None \<longrightarrow> ce_until (fetchCert keyPair now ask s h) = now + 10 * second))"
proof (cases "\<exists>e. map_of certs (s, h) = Some e \<and> now < ce_until e")
  case True
  with assms show ?thesis by (auto simp: certFor_def Let_def)
next
  case False
  let ?e = "fetchCert keyPair now ask s h" and ?live = "filter (\<lambda>(k, old). now < ce_until old) certs"
  let ?c = "if length certs < certCacheLimit then certs else if length ?live < certCacheLimit then ?live else []"
  have r: "r = ce_cert ?e" "certs' = AList.update (s, h) ?e ?c"
    using assms(2) False by (auto simp: certFor_def Let_def split: option.splits if_splits)
  have "length ?c < certCacheLimit" by (auto simp: certCacheLimit_def)
  with length_update_le [of "(s, h)" ?e ?c] r(2) have "length certs' \<le> certCacheLimit" by simp
  moreover have "ce_cert ?e = None \<Longrightarrow> ce_until ?e = now + 10 * second"
    by (auto simp: fetchCert_def Let_def certNegativeTTL_def split: broker_result.splits option.splits)
  moreover have "map_of certs' (s, h) = Some ?e" unfolding r(2) by (simp add: update_conv')
  ultimately show ?thesis using r(1) by auto
qed

lemma cert_cache_sound_witness:
  "length (snd (certFor (\<lambda>c k. None) 5 (\<lambda>_. BrokerUnreachable) ''s'' ''h'' [])) \<le> certCacheLimit \<and>
   ce_until (fetchCert (\<lambda>c k. None) 5 (\<lambda>_. BrokerUnreachable) ''s'' ''h'') = 5 + 10 * second"
proof -
  obtain r cs where c: "certFor (\<lambda>c k. None) 5 (\<lambda>_. BrokerUnreachable) ''s'' ''h'' [] = (r, cs)"
    by (cases "certFor (\<lambda>c k. None) 5 (\<lambda>_. BrokerUnreachable) ''s'' ''h'' []")
  have "ce_cert (fetchCert (\<lambda>c k. None) 5 (\<lambda>_. BrokerUnreachable) ''s'' ''h'') = None"
    by (simp add: fetchCert_def)
  with cert_cache_sound [OF _ c] c show ?thesis by simp
qed

end
