(* ===== verification/Volumes.thy ===== *)
theory Volumes
  imports Sandboxes
begin

text \<open>
  Volumes, \<^verbatim>\<open>src/pkg/store/volume.go\<close>: the legacy named volumes and their mounts, the persistent volumes
  with their attachments, the backups, and the per-volume gate that keeps a guest from attaching
  while a volume is copied. Persistent volumes are ext4 files: two guests may share one only if
  both mount it read-only, so the attachment table is a reader/writer lock per volume. The properties
  show that it is one over every history of writes, and that the gate excludes although its
  entry in the gate map comes and goes.
\<close>

section \<open>Legacy volumes\<close>

definition CreateVolume :: "time \<Rightarrow> string \<Rightarrow> db \<Rightarrow> db" where
  "CreateVolume now name d =
     d\<lparr>volumes := sql_insert_ignore volumes_cs \<lparr>v1_Name = name, v1_CreatedAt = now\<rparr> (volumes d)\<rparr>"

definition GetVolume :: "string \<Rightarrow> db \<Rightarrow> sql_error + Volume" where
  "GetVolume name d = query_row (\<lambda>v. v1_Name v = name) (volumes d)"

definition ListVolumes :: "db \<Rightarrow> Volume list" where
  "ListVolumes d = order_by (\<lambda>v. - v1_CreatedAt v) (volumes d)"

definition DeleteVolume :: "string \<Rightarrow> db \<Rightarrow> store_error + db" where
  "DeleteVolume name d =
     (let count = length (query_all (\<lambda>sv. sv_VolumeName sv = name) (sandbox_volumes d)) in
      if count > 0 then Inl (InUse name count)
      else case sql_delete (\<lambda>v. v1_Name v = name) (volumes d) of
        (t, n) \<Rightarrow> if n = 0 then Inl (NotFound name) else Inr (d\<lparr>volumes := t\<rparr>))"

definition AttachVolume :: "string \<Rightarrow> string \<Rightarrow> string \<Rightarrow> bool \<Rightarrow> db \<Rightarrow> db" where
  "AttachVolume sandboxID volumeName target readonly d =
     d\<lparr>sandbox_volumes := sql_insert_replace sandbox_volumes_cs
         \<lparr>sv_SandboxID = sandboxID, sv_VolumeName = volumeName, sv_Target = target, sv_ReadOnly = readonly\<rparr>
         (sandbox_volumes d)\<rparr>"

definition GetSandboxVolumes :: "string \<Rightarrow> db \<Rightarrow> SandboxVolume list" where
  "GetSandboxVolumes sandboxID d = query_all (\<lambda>sv. sv_SandboxID sv = sandboxID) (sandbox_volumes d)"

definition DetachVolumes :: "string \<Rightarrow> db \<Rightarrow> db" where
  "DetachVolumes sandboxID d =
     d\<lparr>sandbox_volumes := fst (sql_delete (\<lambda>sv. sv_SandboxID sv = sandboxID) (sandbox_volumes d))\<rparr>"

section \<open>Persistent volumes\<close>

definition CreatePersistentVolume :: "PersistentVolume \<Rightarrow> db \<Rightarrow> store_error + db" where
  "CreatePersistentVolume v d =
     (case sql_insert volumes_v2_cs v (volumes_v2 d) of
        Inl e \<Rightarrow> Inl (SqlErr e)
      | Inr t \<Rightarrow> Inr (d\<lparr>volumes_v2 := t\<rparr>))"

text \<open>The rows of \<open>volume_attachments\<close> of one volume.\<close>

definition attached :: "string \<Rightarrow> db \<Rightarrow> VolumeAttachment list" where
  "attached volID d = query_all (\<lambda>a. va_VolumeID a = volID) (volume_attachments d)"

definition volume_row :: "string \<Rightarrow> string \<Rightarrow> db \<Rightarrow> sql_error + PersistentVolume" where
  "volume_row userID name d = query_row (\<lambda>v. v_UserID v = userID \<and> v_Name v = name) (volumes_v2 d)"

definition GetPersistentVolume ::
  "string \<Rightarrow> string \<Rightarrow> db \<Rightarrow> sql_error + (PersistentVolume \<times> VolumeAttachment list)" where
  "GetPersistentVolume userID name d =
     (case volume_row userID name d of
        Inl e \<Rightarrow> Inl e
      | Inr v \<Rightarrow> Inr (v, attached (v_ID v) d))"

definition PersistentVolumeExists :: "string \<Rightarrow> string \<Rightarrow> db \<Rightarrow> sql_error + bool" where
  "PersistentVolumeExists userID name d =
     (case volume_row userID name d of
        Inl ErrNoRows \<Rightarrow> Inr False
      | Inl e \<Rightarrow> Inl e
      | Inr _ \<Rightarrow> Inr True)"

definition ListPersistentVolumes :: "string \<Rightarrow> db \<Rightarrow> PersistentVolume list" where
  "ListPersistentVolumes userID d =
     order_by (\<lambda>v. - v_CreatedAt v) (query_all (\<lambda>v. v_UserID v = userID) (volumes_v2 d))"

definition DeletePersistentVolume :: "string \<Rightarrow> string \<Rightarrow> db \<Rightarrow> store_error + db" where
  "DeletePersistentVolume userID name d =
     (case volume_row userID name d of
        Inl _ \<Rightarrow> Inl (NotFound name)
      | Inr v \<Rightarrow>
          (let count = length (attached (v_ID v) d) in
           if count > 0 then Inl (InUse name count)
           else Inr (d\<lparr>volumes_v2 := fst (sql_delete (\<lambda>x. v_ID x = v_ID v) (volumes_v2 d))\<rparr>)))"

text \<open>
  \<open>AttachPersistentVolume\<close> runs in one immediate transaction, so the counts and the insert see the
  same table. The gate it takes first is the subject of the last section.
\<close>

definition AttachPersistentVolume ::
  "string \<Rightarrow> string \<Rightarrow> string \<Rightarrow> string \<Rightarrow> bool \<Rightarrow> db \<Rightarrow> store_error + db" where
  "AttachPersistentVolume userID name sandboxID mount readOnly d =
     (case volume_row userID name d of
        Inl _ \<Rightarrow> Inl (NotFound name)
      | Inr v \<Rightarrow>
          if v_Status v = ''creating'' then Inl (BeingCreated name)
          else
            (let rwCount = length (filter (\<lambda>a. \<not> va_ReadOnly a) (attached (v_ID v) d));
                 roCount = length (filter va_ReadOnly (attached (v_ID v) d)) in
             if \<not> readOnly \<and> (rwCount > 0 \<or> roCount > 0) then Inl (AlreadyAttached name rwCount roCount)
             else if readOnly \<and> rwCount > 0 then Inl (ReadWriteAttached name)
             else case sql_insert volume_attachments_cs
                    \<lparr>va_VolumeID = v_ID v, va_SandboxID = sandboxID, va_Mount = mount, va_ReadOnly = readOnly\<rparr>
                    (volume_attachments d) of
                Inl e \<Rightarrow> Inl (SqlErr e)
              | Inr t \<Rightarrow> Inr (d\<lparr>volume_attachments := t\<rparr>)))"

definition detach_where :: "(VolumeAttachment \<Rightarrow> bool) \<Rightarrow> db \<Rightarrow> db" where
  "detach_where p d = d\<lparr>volume_attachments := fst (sql_delete p (volume_attachments d))\<rparr>"

definition DetachPersistentVolume :: "string \<Rightarrow> string \<Rightarrow> string \<Rightarrow> db \<Rightarrow> store_error + db" where
  "DetachPersistentVolume userID name sandboxID d =
     (case volume_row userID name d of
        Inl _ \<Rightarrow> Inl (NotFound name)
      | Inr v \<Rightarrow> Inr (detach_where (\<lambda>a. va_VolumeID a = v_ID v \<and> va_SandboxID a = sandboxID) d))"

definition DetachAllPersistentVolumesForSandbox :: "string \<Rightarrow> db \<Rightarrow> db" where
  "DetachAllPersistentVolumesForSandbox sandboxID d = detach_where (\<lambda>a. va_SandboxID a = sandboxID) d"

text \<open>The join of the attachments with their volumes: name, file, mount point, read-only.\<close>

definition AttachedPersistentVolumesForSandbox ::
  "string \<Rightarrow> db \<Rightarrow> (string \<times> string \<times> string \<times> bool) list" where
  "AttachedPersistentVolumesForSandbox sandboxID d =
     [(v_Name v, v_FilePath v, va_Mount a, va_ReadOnly a).
        a \<leftarrow> volume_attachments d, v \<leftarrow> volumes_v2 d, va_SandboxID a = sandboxID \<and> v_ID v = va_VolumeID a]"

text \<open>The left join: an attachment is orphaned when no sandbox has its id, or one that is gone.\<close>

definition orphaned :: "db \<Rightarrow> string \<Rightarrow> bool" where
  "orphaned d i \<longleftrightarrow> \<not> list_ex (\<lambda>sb. sb_ID sb = i) (sandboxes d) \<or>
     list_ex (\<lambda>sb. sb_ID sb = i \<and> (sb_Status sb = ''destroyed'' \<or> sb_Status sb = ''unknown'')) (sandboxes d)"

definition DetachOrphanedPersistentVolumes :: "db \<Rightarrow> db \<times> nat" where
  "DetachOrphanedPersistentVolumes d =
     (detach_where (\<lambda>a. orphaned d (va_SandboxID a)) d,
      length (filter (\<lambda>a. orphaned d (va_SandboxID a)) (volume_attachments d)))"

definition update_volume :: "string \<Rightarrow> string \<Rightarrow> (PersistentVolume \<Rightarrow> PersistentVolume) \<Rightarrow> db \<Rightarrow> store_error + (db \<times> nat)" where
  "update_volume userID name f d =
     (case sql_update volumes_v2_cs (\<lambda>v. v_UserID v = userID \<and> v_Name v = name) f (volumes_v2 d) of
        Inl e \<Rightarrow> Inl (SqlErr e)
      | Inr (t, n) \<Rightarrow> Inr (d\<lparr>volumes_v2 := t\<rparr>, n))"

definition UpdatePersistentVolumeSize :: "string \<Rightarrow> string \<Rightarrow> int \<Rightarrow> db \<Rightarrow> store_error + db" where
  "UpdatePersistentVolumeSize userID name sizeMB d =
     (case update_volume userID name (\<lambda>v. v\<lparr>v_SizeMB := sizeMB\<rparr>) d of
        Inl e \<Rightarrow> Inl e
      | Inr (d', n) \<Rightarrow> if n = 0 then Inl (NotFound name) else Inr d')"

definition UpdatePersistentVolumeStatus :: "string \<Rightarrow> string \<Rightarrow> string \<Rightarrow> db \<Rightarrow> store_error + db" where
  "UpdatePersistentVolumeStatus userID name status d =
     map_sum id fst (update_volume userID name (\<lambda>v. v\<lparr>v_Status := status\<rparr>) d)"

text \<open>
  \<open>SELECT SUM\<close>: no value over no rows, and an error of the statement when a partial sum leaves the
  64-bit range. A Go \<open>int\<close> has 64 bits on the supported platforms, so the conversion test in the
  code never fails.
\<close>

fun sql_sum :: "int \<Rightarrow> int list \<Rightarrow> sql_error + int" where
  "sql_sum acc [] = Inr acc"
| "sql_sum acc (x # xs) =
     (if acc + x < - (2 ^ 63) \<or> acc + x \<ge> 2 ^ 63 then Inl ErrDriver else sql_sum (acc + x) xs)"

definition UserVolumeStorageUsed :: "string \<Rightarrow> db \<Rightarrow> store_error + int" where
  "UserVolumeStorageUsed userID d =
     (case query_all (\<lambda>v. v_UserID v = userID) (volumes_v2 d) of
        [] \<Rightarrow> Inr 0
      | vs \<Rightarrow> (case sql_sum 0 (map v_SizeMB vs) of
          Inl e \<Rightarrow> Inl (SqlErr e)
        | Inr s \<Rightarrow> if s < 0 then Inl (InvalidTotal s) else Inr s))"

section \<open>Backups\<close>

definition CreateVolumeBackup :: "VolumeBackup \<Rightarrow> db \<Rightarrow> store_error + db" where
  "CreateVolumeBackup b d =
     (let b' = (if b_ConsistencyMode b = [] then b\<lparr>b_ConsistencyMode := ''unverified''\<rparr> else b) in
      case sql_insert volume_backups_cs b' (volume_backups d) of
        Inl e \<Rightarrow> Inl (SqlErr e)
      | Inr t \<Rightarrow> Inr (d\<lparr>volume_backups := t\<rparr>))"

definition ListVolumeBackups :: "string \<Rightarrow> string \<Rightarrow> db \<Rightarrow> VolumeBackup list" where
  "ListVolumeBackups userID volumeName d =
     order_by (\<lambda>b. - b_CreatedAt b)
       (query_all (\<lambda>b. b_UserID b = userID \<and> b_VolumeName b = volumeName) (volume_backups d))"

definition GetVolumeBackup :: "string \<Rightarrow> string \<Rightarrow> db \<Rightarrow> sql_error + VolumeBackup" where
  "GetVolumeBackup userID backupID d = query_row (\<lambda>b. b_ID b = backupID \<and> b_UserID b = userID) (volume_backups d)"

definition DeleteVolumeBackup :: "string \<Rightarrow> string \<Rightarrow> db \<Rightarrow> db" where
  "DeleteVolumeBackup userID backupID d =
     d\<lparr>volume_backups := fst (sql_delete (\<lambda>b. b_ID b = backupID \<and> b_UserID b = userID) (volume_backups d))\<rparr>"

text \<open>\<open>LIMIT -1 OFFSET ?\<close>: all rows after the first \<open>keepCount\<close>; a negative offset is none.\<close>

definition OldestVolumeBackups :: "string \<Rightarrow> string \<Rightarrow> int \<Rightarrow> db \<Rightarrow> VolumeBackup list" where
  "OldestVolumeBackups userID volumeName keepCount d = drop (nat keepCount) (ListVolumeBackups userID volumeName d)"

section \<open>Histories of writes\<close>

text \<open>
  Every write that touches volumes or attachments, and the writes of the sandboxes table between
  them, which decide what is orphaned.
\<close>

datatype volume_op =
    VCreate PersistentVolume
  | VDelete string string
  | VAttach string string string string bool
  | VDetach string string string
  | VDetachAll string
  | VDetachOrphaned
  | VSize string string int
  | VStatus string string string
  | VSandbox sandbox_op

fun volume_exec :: "volume_op \<Rightarrow> db \<Rightarrow> store_error + db" where
  "volume_exec (VCreate v) d = CreatePersistentVolume v d"
| "volume_exec (VDelete u n) d = DeletePersistentVolume u n d"
| "volume_exec (VAttach u n s m ro) d = AttachPersistentVolume u n s m ro d"
| "volume_exec (VDetach u n s) d = DetachPersistentVolume u n s d"
| "volume_exec (VDetachAll s) d = Inr (DetachAllPersistentVolumesForSandbox s d)"
| "volume_exec VDetachOrphaned d = Inr (fst (DetachOrphanedPersistentVolumes d))"
| "volume_exec (VSize u n mb) d = UpdatePersistentVolumeSize u n mb d"
| "volume_exec (VStatus u n st) d = UpdatePersistentVolumeStatus u n st d"
| "volume_exec (VSandbox op) d = sandbox_exec op d"

definition volume_run :: "volume_op list \<Rightarrow> db \<Rightarrow> db" where
  "volume_run ops d = fold (\<lambda>op d. after d (volume_exec op d)) ops d"

text \<open>Attachments that may coexist: all read-only, or a single one.\<close>

definition compatible :: "VolumeAttachment list \<Rightarrow> bool" where
  "compatible as \<longleftrightarrow> list_all va_ReadOnly as \<or> length as = 1"

definition of_volume :: "string \<Rightarrow> VolumeAttachment list \<Rightarrow> VolumeAttachment list" where
  "of_volume i as = filter (\<lambda>a. va_VolumeID a = i) as"

definition vol_ok :: "PersistentVolume list \<Rightarrow> VolumeAttachment list \<Rightarrow> bool" where
  "vol_ok vs as \<longleftrightarrow> table_ok volumes_v2_cs vs \<and> table_ok volume_attachments_cs as \<and>
     (\<forall>i. compatible (of_volume i as)) \<and> va_VolumeID ` set as \<subseteq> v_ID ` set vs"

definition volumes_inv :: "db \<Rightarrow> bool" where
  "volumes_inv d \<longleftrightarrow> vol_ok (volumes_v2 d) (volume_attachments d)"

lemma attached_of_volume: "attached i d = of_volume i (volume_attachments d)"
  by (simp add: attached_def of_volume_def query_all_def)

lemma compatible_Nil [simp]: "compatible []"
  by (simp add: compatible_def)

lemma compatible_filter: "compatible as \<Longrightarrow> compatible (filter p as)"
  by (cases as) (auto simp: compatible_def list_all_iff)

lemma of_volume_filter: "of_volume i (filter p as) = filter p (of_volume i as)"
  by (simp add: of_volume_def conj_commute)

lemma vol_ok_filter_attachments: "vol_ok vs as \<Longrightarrow> vol_ok vs (filter p as)"
  by (auto simp: vol_ok_def of_volume_filter compatible_filter intro: volume_attachments.filter_ok)

lemma vol_ok_ids: "vol_ok vs as \<Longrightarrow> table_ok volumes_v2_cs ws \<Longrightarrow> v_ID ` set vs \<subseteq> v_ID ` set ws \<Longrightarrow> vol_ok ws as"
  unfolding vol_ok_def by (meson order_trans)

lemma vol_ok_drop_volume:
  assumes "vol_ok vs as" and "of_volume i as = []"
  shows "vol_ok (filter (\<lambda>x. v_ID x \<noteq> i) vs) as"
proof -
  have "i \<notin> va_VolumeID ` set as"
    using assms(2) by (auto simp: of_volume_def filter_empty_conv)
  moreover have "v_ID ` set (filter (\<lambda>x. v_ID x \<noteq> i) vs) = v_ID ` set vs - {i}" by auto
  ultimately show ?thesis using assms(1) by (simp add: vol_ok_def volumes_v2.filter_ok subset_Diff_insert)
qed

lemma vol_ok_attach:
  assumes "vol_ok vs as" and "sql_insert volume_attachments_cs a as = Inr as'"
    and "va_VolumeID a \<in> v_ID ` set vs"
    and "list_all va_ReadOnly (of_volume (va_VolumeID a) as)"
    and "va_ReadOnly a \<or> of_volume (va_VolumeID a) as = []"
  shows "vol_ok vs as'"
proof -
  have as': "table_ok volume_attachments_cs as'" "as' = as @ [a]"
    using volume_attachments.insert_ok [OF _ assms(2)] assms(1) by (auto simp: vol_ok_def)
  have "compatible (of_volume i (as @ [a]))" for i
    using assms(1,4,5) by (auto simp: of_volume_def vol_ok_def compatible_def)
  with as' assms(1,3) show ?thesis by (simp add: vol_ok_def)
qed

lemma detach_where_inv: "volumes_inv d \<Longrightarrow> volumes_inv (detach_where p d)"
  by (simp add: volumes_inv_def detach_where_def sql_delete_def vol_ok_filter_attachments)

text \<open>The only volume a row lookup can return.\<close>

lemma volume_row_Inr: "volume_row u n d = Inr v \<Longrightarrow> v \<in> set (volumes_v2 d) \<and> v_UserID v = u \<and> v_Name v = n"
  by (auto simp: volume_row_def dest: query_row_Inr)

lemma update_volume_Inr:
  assumes "update_volume u n f d = Inr (d', k)" and "\<And>v. v_ID (f v) = v_ID v" and "volumes_inv d"
  shows "volumes_inv d'"
proof -
  obtain t where t: "sql_update volumes_v2_cs (\<lambda>v. v_UserID v = u \<and> v_Name v = n) f (volumes_v2 d) = Inr (t, k)"
    and d': "d' = d\<lparr>volumes_v2 := t\<rparr>"
    using assms(1) by (auto simp: update_volume_def split: sum.splits prod.splits)
  from volumes_v2.update_ok [OF t] have tok: "table_ok volumes_v2_cs t"
    and "t = update_rows (\<lambda>v. v_UserID v = u \<and> v_Name v = n) f (volumes_v2 d)" by auto
  then have ids: "v_ID ` set t = v_ID ` set (volumes_v2 d)"
    by (simp only: set_update_rows image_image if_distrib [of v_ID] assms(2) if_cancel)
  from vol_ok_ids [OF assms(3) [unfolded volumes_inv_def] tok] ids show ?thesis
    by (simp add: volumes_inv_def d')
qed

text \<open>
  The reader/writer lock an attach takes: free of writers for a reader, free of everyone for a
  writer. \<open>AttachPersistentVolume\<close> succeeds exactly under these conditions and then adds the row.
\<close>

definition new_attachment :: "string \<Rightarrow> string \<Rightarrow> string \<Rightarrow> bool \<Rightarrow> VolumeAttachment" where
  "new_attachment volID s m ro = \<lparr>va_VolumeID = volID, va_SandboxID = s, va_Mount = m, va_ReadOnly = ro\<rparr>"

lemma counts_zero:
  "filter (\<lambda>a. \<not> va_ReadOnly a) as = [] \<longleftrightarrow> list_all va_ReadOnly as"
  "filter (\<lambda>a. \<not> va_ReadOnly a) as = [] \<and> filter va_ReadOnly as = [] \<longleftrightarrow> as = []"
  by (induction as) (auto simp: list_all_iff filter_empty_conv)

lemma AttachPersistentVolume_iff:
  "AttachPersistentVolume u n s m ro d = Inr d' \<longleftrightarrow>
     (\<exists>v as. volume_row u n d = Inr v \<and> v_Status v \<noteq> ''creating'' \<and>
        list_all va_ReadOnly (attached (v_ID v) d) \<and> (ro \<or> attached (v_ID v) d = []) \<and>
        sql_insert volume_attachments_cs (new_attachment (v_ID v) s m ro) (volume_attachments d) = Inr as \<and>
        d' = d\<lparr>volume_attachments := as\<rparr>)"
  using counts_zero
  by (cases ro) (auto simp: AttachPersistentVolume_def new_attachment_def Let_def split: sum.splits)

lemma volumes_inv_create:
  assumes "volumes_inv d" and "CreatePersistentVolume v d = Inr d'"
  shows "volumes_inv d'"
proof -
  obtain t where t: "sql_insert volumes_v2_cs v (volumes_v2 d) = Inr t" and d': "d' = d\<lparr>volumes_v2 := t\<rparr>"
    using assms(2) by (auto simp: CreatePersistentVolume_def split: sum.splits)
  have ok: "vol_ok (volumes_v2 d) (volume_attachments d)" using assms(1) by (simp add: volumes_inv_def)
  then have "table_ok volumes_v2_cs t \<and> t = volumes_v2 d @ [v]"
    using volumes_v2.insert_ok [OF _ t] unfolding vol_ok_def by blast
  then have "vol_ok t (volume_attachments d)" by (intro vol_ok_ids [OF ok]) auto
  then show ?thesis by (simp add: volumes_inv_def d')
qed

lemma volumes_inv_delete:
  assumes "volumes_inv d" and "DeletePersistentVolume u n d = Inr d'"
  shows "volumes_inv d'"
proof -
  obtain i where "attached i d = []"
    and "d' = d\<lparr>volumes_v2 := filter (\<lambda>x. v_ID x \<noteq> i) (volumes_v2 d)\<rparr>"
    using assms(2)
    by (cases "volume_row u n d") (auto simp: DeletePersistentVolume_def sql_delete_def Let_def split: if_splits)
  with assms(1) show ?thesis by (simp add: volumes_inv_def attached_of_volume vol_ok_drop_volume)
qed

lemma volumes_inv_attach:
  assumes "volumes_inv d" and "AttachPersistentVolume u n s m ro d = Inr d'"
  shows "volumes_inv d'"
proof -
  from assms(2) obtain v as where v: "volume_row u n d = Inr v"
      "list_all va_ReadOnly (attached (v_ID v) d)" "ro \<or> attached (v_ID v) d = []"
      "sql_insert volume_attachments_cs (new_attachment (v_ID v) s m ro) (volume_attachments d) = Inr as"
      "d' = d\<lparr>volume_attachments := as\<rparr>"
    by (auto simp: AttachPersistentVolume_iff)
  have "vol_ok (volumes_v2 d) as"
    by (rule vol_ok_attach [OF _ v(4)])
      (use assms(1) v(2,3) volume_row_Inr [OF v(1)] in \<open>auto simp: volumes_inv_def attached_of_volume new_attachment_def\<close>)
  then show ?thesis by (simp add: volumes_inv_def v(5))
qed

lemma sandbox_exec_frame:
  assumes "sandbox_exec op d = Inr d'"
  shows "volumes_v2 d' = volumes_v2 d \<and> volume_attachments d' = volume_attachments d"
  using assms
  by (cases op) (auto simp: sandbox_op_defs update_sandbox_def map_sum_fst_Inr Let_def
      split: sum.splits prod.splits if_splits)

lemma volume_exec_inv:
  assumes "volumes_inv d" and "volume_exec op d = Inr d'"
  shows "volumes_inv d'"
proof (cases op)
  case (VSize u n mb)
  with assms show ?thesis
    by (auto simp: UpdatePersistentVolumeSize_def split: sum.splits prod.splits if_splits
        intro: update_volume_Inr)
next
  case (VStatus u n st)
  with assms show ?thesis
    by (auto simp: UpdatePersistentVolumeStatus_def map_sum_fst_Inr intro: update_volume_Inr)
next
  case (VSandbox x)
  with assms sandbox_exec_frame [of x d d'] show ?thesis by (simp add: volumes_inv_def)
next
  case (VDetach u n s)
  with assms show ?thesis by (auto simp: DetachPersistentVolume_def split: sum.splits intro: detach_where_inv)
qed (use assms in \<open>auto simp: DetachAllPersistentVolumesForSandbox_def DetachOrphanedPersistentVolumes_def
    intro: detach_where_inv volumes_inv_create volumes_inv_delete volumes_inv_attach\<close>)

lemma volume_run_inv: "volumes_inv d \<Longrightarrow> volumes_inv (volume_run ops d)"
proof (induction ops arbitrary: d)
  case (Cons op ops)
  then have "volumes_inv (after d (volume_exec op d))"
    using volume_exec_inv [of d op] by (cases "volume_exec op d") (auto simp: after_def)
  with Cons.IH show ?case by (simp add: volume_run_def)
qed (simp add: volume_run_def)

lemma volumes_inv_empty: "volumes_inv empty_db"
  by (simp add: volumes_inv_def vol_ok_def empty_db_def of_volume_def)


section \<open>The attachments as a reader/writer lock\<close>

datatype vlock = Free | Shared "string set" | Exclusive string

definition vlock_of :: "VolumeAttachment list \<Rightarrow> vlock" where
  "vlock_of as = (if as = [] then Free
     else if list_all va_ReadOnly as then Shared (va_SandboxID ` set as)
     else Exclusive (va_SandboxID (hd as)))"

fun acquire :: "bool \<Rightarrow> string \<Rightarrow> vlock \<Rightarrow> vlock option" where
  "acquire ro s Free = Some (if ro then Shared {s} else Exclusive s)"
| "acquire ro s (Shared S) = (if ro \<and> s \<notin> S then Some (Shared (insert s S)) else None)"
| "acquire ro s (Exclusive w) = None"

fun release :: "string \<Rightarrow> vlock \<Rightarrow> vlock" where
  "release s Free = Free"
| "release s (Shared S) = (if S \<subseteq> {s} then Free else Shared (S - {s}))"
| "release s (Exclusive w) = (if w = s then Free else Exclusive w)"

lemma insert_attachment:
  "sql_insert volume_attachments_cs a as =
     (if va_SandboxID a \<in> va_SandboxID ` set (of_volume (va_VolumeID a) as)
      then Inl (ErrUnique ''volume_attachments.volume_id, volume_attachments.sandbox_id'') else Inr (as @ [a]))"
  by (auto simp: sql_insert_def volume_attachments_cs_def same_def of_volume_def list_ex_iff image_iff)

lemma vlock_attach:
  assumes "list_all va_ReadOnly as" and "va_ReadOnly a \<or> as = []" and "va_SandboxID a \<notin> va_SandboxID ` set as"
  shows "acquire (va_ReadOnly a) (va_SandboxID a) (vlock_of as) = Some (vlock_of (as @ [a]))"
  using assms by (auto simp: vlock_of_def insert_commute)

lemma vlock_refuse:
  assumes "\<not> (list_all va_ReadOnly as \<and> (ro \<or> as = []) \<and> s \<notin> va_SandboxID ` set as)"
  shows "acquire ro s (vlock_of as) = None"
  using assms by (auto simp: vlock_of_def)

lemma vlock_release:
  assumes "compatible as"
  shows "release s (vlock_of as) = vlock_of (filter (\<lambda>a. va_SandboxID a \<noteq> s) as)"
proof (cases "list_all va_ReadOnly as")
  case True
  then show ?thesis by (auto simp: vlock_of_def list_all_iff filter_empty_conv)
next
  case False
  with assms obtain a where "as = [a]" "\<not> va_ReadOnly a"
    by (auto simp: compatible_def length_Suc_conv)
  then show ?thesis by (simp add: vlock_of_def)
qed

lemma attached_after_attach:
  assumes "AttachPersistentVolume u n s m ro d = Inr d'" and "volume_row u n d = Inr v"
  shows "attached i d' = attached i d @ (if i = v_ID v then [new_attachment (v_ID v) s m ro] else [])"
  using assms by (auto simp: AttachPersistentVolume_iff attached_of_volume of_volume_def new_attachment_def
      dest: sql_insert_Inr)

text \<open>
  C7: attachments of a persistent volume are a reader/writer lock. After any sequence of volume, attachment and
  sandbox writes on an empty database, every volume is attached either read-only throughout or to a
  single sandbox; every attachment belongs to a volume that exists, so deleting
  a volume never strands one; a sandbox appears at most once per volume.
\<close>

theorem volume_exclusion:
  "let d = volume_run ops empty_db in
     (list_all va_ReadOnly (attached i d) \<or> length (attached i d) = 1) \<and>
     va_VolumeID ` set (volume_attachments d) \<subseteq> v_ID ` set (volumes_v2 d) \<and>
     table_ok volume_attachments_cs (volume_attachments d)"
proof -
  have "vol_ok (volumes_v2 (volume_run ops empty_db)) (volume_attachments (volume_run ops empty_db))"
    using volume_run_inv [OF volumes_inv_empty] by (simp add: volumes_inv_def)
  then show ?thesis by (simp add: Let_def vol_ok_def compatible_def attached_of_volume)
qed

text \<open>
  C27: \<open>AttachPersistentVolume\<close> and \<open>DetachPersistentVolume\<close> implement the lock. On the database after any history, for
  a volume that is there and ready, an attach succeeds exactly when the lock can be acquired in the
  mode asked for, and a detach always succeeds; the lock of the volume is then the
  acquired or the released one, and the locks of the other volumes are as before.
\<close>

theorem volume_lock_refinement:
  assumes "d = volume_run ops empty_db" and "volume_row u n d = Inr v" and "v_Status v \<noteq> ''creating''"
  shows "(case AttachPersistentVolume u n s m ro d of
       Inl _ \<Rightarrow> acquire ro s (vlock_of (attached (v_ID v) d)) = None
     | Inr d' \<Rightarrow> acquire ro s (vlock_of (attached (v_ID v) d)) = Some (vlock_of (attached (v_ID v) d')) \<and>
         (\<forall>i. i \<noteq> v_ID v \<longrightarrow> attached i d' = attached i d)) \<and>
     (\<exists>d'. DetachPersistentVolume u n s d = Inr d' \<and>
        release s (vlock_of (attached (v_ID v) d)) = vlock_of (attached (v_ID v) d') \<and>
        (\<forall>i. i \<noteq> v_ID v \<longrightarrow> attached i d' = attached i d))"
proof (intro conjI)
  let ?as = "attached (v_ID v) d"
  have ok: "compatible ?as"
    using volume_run_inv [OF volumes_inv_empty, of ops] assms(1)
    by (simp add: volumes_inv_def vol_ok_def attached_of_volume)
  show "case AttachPersistentVolume u n s m ro d of
       Inl _ \<Rightarrow> acquire ro s (vlock_of ?as) = None
     | Inr d' \<Rightarrow> acquire ro s (vlock_of ?as) = Some (vlock_of (attached (v_ID v) d')) \<and>
         (\<forall>i. i \<noteq> v_ID v \<longrightarrow> attached i d' = attached i d)"
  proof (cases "AttachPersistentVolume u n s m ro d")
    case (Inl e)
    have "\<not> (list_all va_ReadOnly ?as \<and> (ro \<or> ?as = []) \<and> s \<notin> va_SandboxID ` set ?as)"
    proof
      assume "list_all va_ReadOnly ?as \<and> (ro \<or> ?as = []) \<and> s \<notin> va_SandboxID ` set ?as"
      with assms(2,3) have "\<exists>d'. AttachPersistentVolume u n s m ro d = Inr d'"
        by (simp add: AttachPersistentVolume_iff insert_attachment attached_of_volume new_attachment_def)
      with Inl show False by simp
    qed
    then show ?thesis using Inl vlock_refuse by simp
  next
    case (Inr d')
    then have "list_all va_ReadOnly ?as" "ro \<or> ?as = []" "s \<notin> va_SandboxID ` set ?as"
      using assms(2)
      by (auto simp: AttachPersistentVolume_iff insert_attachment attached_of_volume new_attachment_def split: if_splits)
    then show ?thesis
      using Inr attached_after_attach [OF Inr assms(2)] vlock_attach [of ?as "new_attachment (v_ID v) s m ro"]
      by (simp add: new_attachment_def)
  qed
  let ?d = "detach_where (\<lambda>a. va_VolumeID a = v_ID v \<and> va_SandboxID a = s) d"
  have "DetachPersistentVolume u n s d = Inr ?d" using assms(2) by (simp add: DetachPersistentVolume_def)
  moreover have "attached (v_ID v) ?d = filter (\<lambda>a. va_SandboxID a \<noteq> s) ?as"
    "\<forall>i. i \<noteq> v_ID v \<longrightarrow> attached i ?d = attached i d"
    by (auto simp: attached_of_volume of_volume_def detach_where_def sql_delete_def intro!: filter_cong)
  ultimately show "\<exists>d'. DetachPersistentVolume u n s d = Inr d' \<and>
        release s (vlock_of ?as) = vlock_of (attached (v_ID v) d') \<and>
        (\<forall>i. i \<noteq> v_ID v \<longrightarrow> attached i d' = attached i d)"
    using vlock_release [OF ok] by metis
qed

definition example_volume :: PersistentVolume where
  "example_volume = \<lparr>v_ID = ''v1'', v_UserID = ''alice'', v_Name = ''data'', v_SizeMB = 64, v_Status = ''ready'',
     v_FilePath = ''/v/data'', v_CreatedAt = 5\<rparr>"

lemma volume_lock_refinement_witness:
  "\<exists>d d'. d = volume_run [VCreate example_volume, VAttach ''alice'' ''data'' ''sb1'' ''/mnt'' True] empty_db \<and>
     vlock_of (attached ''v1'' d) = Shared {''sb1''} \<and>
     DetachPersistentVolume ''alice'' ''data'' ''sb1'' d = Inr d' \<and> vlock_of (attached ''v1'' d') = Free"
proof -
  let ?d = "volume_run [VCreate example_volume, VAttach ''alice'' ''data'' ''sb1'' ''/mnt'' True] empty_db"
  have row: "volume_row ''alice'' ''data'' ?d = Inr example_volume" by code_simp
  have lock: "vlock_of (attached ''v1'' ?d) = Shared {''sb1''}" by code_simp
  have v: "v_Status example_volume \<noteq> ''creating''" "v_ID example_volume = ''v1''" by (simp_all add: example_volume_def)
  obtain d' where "DetachPersistentVolume ''alice'' ''data'' ''sb1'' ?d = Inr d'"
    "release ''sb1'' (vlock_of (attached ''v1'' ?d)) = vlock_of (attached ''v1'' d')"
    using volume_lock_refinement [where s = "''sb1''", OF refl row v(1), THEN conjunct2] v(2) by metis
  then show ?thesis using lock by auto
qed

text \<open>Detaching orphans leaves exactly the attachments of sandboxes that are there and alive.\<close>

lemma DetachOrphaned_exact:
  "set (volume_attachments (fst (DetachOrphanedPersistentVolumes d))) =
     {a \<in> set (volume_attachments d). \<not> orphaned d (va_SandboxID a)}"
  by (simp add: DetachOrphanedPersistentVolumes_def detach_where_def sql_delete_def)

text \<open>Retention: the backups beyond the newest \<open>keep\<close> are the rest of the list, none of them newer than a kept one.\<close>

lemma OldestVolumeBackups_retention:
  assumes "0 \<le> keep" and "b \<in> set (OldestVolumeBackups u n keep d)"
    and "k \<in> set (take (nat keep) (ListVolumeBackups u n d))"
  shows "b_CreatedAt b \<le> b_CreatedAt k"
proof -
  let ?l = "ListVolumeBackups u n d"
  have "sorted (map (\<lambda>b. - b_CreatedAt b) (take (nat keep) ?l @ drop (nat keep) ?l))"
    by (simp add: ListVolumeBackups_def order_by_def)
  then show ?thesis using assms(2,3)
    by (auto simp: sorted_append OldestVolumeBackups_def simp del: append_take_drop_id)
qed

section \<open>The attachment gate\<close>

text \<open>
  \<open>LockPersistentVolumeAttachments\<close> finds or makes the gate of a key under \<open>volumeGateMu\<close>, counts itself
  in, and only then waits for the gate's own mutex; the function it returns releases the mutex, counts itself out
  under \<open>volumeGateMu\<close> again and removes the gate from the map when nobody is left. The four atomic
  steps interleave between threads. Gates are heap objects with an address each; a thread remembers
  the address it found.
\<close>

record gate =
  gt_refs :: nat
  gt_mu :: "nat option"

datatype phase = Outside | Waiting string nat | Holding string nat | Leaving string nat

record gate_state =
  volumeGates :: "string \<rightharpoonup> nat"
  gate_heap :: "nat \<Rightarrow> gate"
  next_addr :: nat
  threads :: "nat \<Rightarrow> phase"

definition gate_key :: "string \<Rightarrow> string \<Rightarrow> string" where
  "gate_key userID name = userID @ [CHR 0x00] @ name"

definition no_gates :: gate_state where
  "no_gates = \<lparr>volumeGates = Map.empty, gate_heap = (\<lambda>_. \<lparr>gt_refs = 0, gt_mu = None\<rparr>), next_addr = 0, threads = (\<lambda>_. Outside)\<rparr>"

definition gate_enter :: "nat \<Rightarrow> string \<Rightarrow> gate_state \<Rightarrow> gate_state" where
  "gate_enter t key s =
     (let (a, s') = (case volumeGates s key of
          Some a \<Rightarrow> (a, s)
        | None \<Rightarrow> (next_addr s, s\<lparr>volumeGates := (volumeGates s)(key \<mapsto> next_addr s),
              gate_heap := (gate_heap s)(next_addr s := \<lparr>gt_refs = 0, gt_mu = None\<rparr>), next_addr := Suc (next_addr s)\<rparr>));
          g = gate_heap s' a in
      s'\<lparr>gate_heap := (gate_heap s')(a := g\<lparr>gt_refs := Suc (gt_refs g)\<rparr>), threads := (threads s)(t := Waiting key a)\<rparr>)"

definition gate_lock :: "nat \<Rightarrow> string \<Rightarrow> nat \<Rightarrow> gate_state \<Rightarrow> gate_state" where
  "gate_lock t key a s =
     s\<lparr>gate_heap := (gate_heap s)(a := (gate_heap s a)\<lparr>gt_mu := Some t\<rparr>), threads := (threads s)(t := Holding key a)\<rparr>"

definition gate_unlock :: "nat \<Rightarrow> string \<Rightarrow> nat \<Rightarrow> gate_state \<Rightarrow> gate_state" where
  "gate_unlock t key a s =
     s\<lparr>gate_heap := (gate_heap s)(a := (gate_heap s a)\<lparr>gt_mu := None\<rparr>), threads := (threads s)(t := Leaving key a)\<rparr>"

definition gate_leave :: "nat \<Rightarrow> string \<Rightarrow> nat \<Rightarrow> gate_state \<Rightarrow> gate_state" where
  "gate_leave t key a s =
     (let n = gt_refs (gate_heap s a) - 1 in
      s\<lparr>gate_heap := (gate_heap s)(a := (gate_heap s a)\<lparr>gt_refs := n\<rparr>),
        volumeGates := (if n = 0 then (volumeGates s)(key := None) else volumeGates s),
        threads := (threads s)(t := Outside)\<rparr>)"

inductive gate_step :: "gate_state \<Rightarrow> gate_state \<Rightarrow> bool" where
  enter: "threads s t = Outside \<Longrightarrow> gate_step s (gate_enter t key s)"
| lock: "threads s t = Waiting key a \<Longrightarrow> gt_mu (gate_heap s a) = None \<Longrightarrow> gate_step s (gate_lock t key a s)"
| unlock: "threads s t = Holding key a \<Longrightarrow> gate_step s (gate_unlock t key a s)"
| leave: "threads s t = Leaving key a \<Longrightarrow> gate_step s (gate_leave t key a s)"

text \<open>A thread uses the gate it counted itself into.\<close>

fun uses :: "phase \<Rightarrow> (string \<times> nat) option" where
  "uses Outside = None"
| "uses (Waiting k a) = Some (k, a)"
| "uses (Holding k a) = Some (k, a)"
| "uses (Leaving k a) = Some (k, a)"

definition users_of :: "gate_state \<Rightarrow> string \<Rightarrow> nat \<Rightarrow> nat set" where
  "users_of s k a = {t. uses (threads s t) = Some (k, a)}"

definition gate_inv :: "gate_state \<Rightarrow> bool" where
  "gate_inv s \<longleftrightarrow>
     (\<forall>t k a. uses (threads s t) = Some (k, a) \<longrightarrow> volumeGates s k = Some a) \<and>
     (\<forall>k a. volumeGates s k = Some a \<longrightarrow> a < next_addr s \<and> finite (users_of s k a) \<and>
        gt_refs (gate_heap s a) = card (users_of s k a) \<and> users_of s k a \<noteq> {}) \<and>
     (\<forall>k k' a. volumeGates s k = Some a \<and> volumeGates s k' = Some a \<longrightarrow> k = k') \<and>
     (\<forall>k a t. volumeGates s k = Some a \<longrightarrow> (gt_mu (gate_heap s a) = Some t \<longleftrightarrow> threads s t = Holding k a))"

lemma users_of_threads:
  "users_of (s\<lparr>threads := f\<rparr>) k a = {t. uses (f t) = Some (k, a)}"
  by (simp add: users_of_def)

lemma gate_inv_start: "gate_inv no_gates"
  by (simp add: gate_inv_def no_gates_def)

lemma gate_invD:
  assumes "gate_inv s"
  shows "uses (threads s t) = Some (k, a) \<Longrightarrow> volumeGates s k = Some a"
    and "volumeGates s k = Some a \<Longrightarrow> a < next_addr s \<and> finite (users_of s k a) \<and>
        gt_refs (gate_heap s a) = card (users_of s k a) \<and> users_of s k a \<noteq> {}"
    and "volumeGates s k = Some a \<Longrightarrow> volumeGates s k' = Some a \<Longrightarrow> k = k'"
    and "volumeGates s k = Some a \<Longrightarrow> gt_mu (gate_heap s a) = Some t \<longleftrightarrow> threads s t = Holding k a"
  using assms unfolding gate_inv_def by blast+

lemma gate_invI:
  assumes "\<And>t k a. uses (threads s t) = Some (k, a) \<Longrightarrow> volumeGates s k = Some a"
    and "\<And>k a. volumeGates s k = Some a \<Longrightarrow> a < next_addr s \<and> finite (users_of s k a) \<and>
        gt_refs (gate_heap s a) = card (users_of s k a) \<and> users_of s k a \<noteq> {}"
    and "\<And>k k' a. volumeGates s k = Some a \<Longrightarrow> volumeGates s k' = Some a \<Longrightarrow> k = k'"
    and "\<And>k a t. volumeGates s k = Some a \<Longrightarrow> gt_mu (gate_heap s a) = Some t \<longleftrightarrow> threads s t = Holding k a"
  shows "gate_inv s"
  using assms unfolding gate_inv_def by blast

lemma gate_addr_iff:
  "gate_inv s \<Longrightarrow> volumeGates s key = Some a \<Longrightarrow> volumeGates s k = Some b \<Longrightarrow> b = a \<longleftrightarrow> k = key"
  using gate_invD(3) by fastforce

text \<open>
  The two mutex steps change only the mutex and the phase of a thread within the gate it uses, so
  only the last clause of the invariant is at stake.
\<close>

lemma gate_inv_mutex:
  assumes inv: "gate_inv s" and same: "uses (threads s t) = uses p" "uses p = Some (key, a)"
    and mu: "\<And>t'. m = Some t' \<longleftrightarrow> ((threads s)(t := p)) t' = Holding key a"
    and other: "\<And>k b t'. (k, b) \<noteq> (key, a) \<Longrightarrow> ((threads s)(t := p)) t' = Holding k b \<longleftrightarrow> threads s t' = Holding k b"
  shows "gate_inv (s\<lparr>gate_heap := (gate_heap s)(a := (gate_heap s a)\<lparr>gt_mu := m\<rparr>), threads := (threads s)(t := p)\<rparr>)"
    (is "gate_inv ?s")
proof (rule gate_invI)
  have usr: "users_of ?s k b = users_of s k b" for k b using same by (auto simp: users_of_def)
  have uses: "uses (threads ?s t') = uses (threads s t')" for t' using same by simp
  fix t' k b
  show "uses (threads ?s t') = Some (k, b) \<Longrightarrow> volumeGates ?s k = Some b"
    using gate_invD(1) [OF inv, of t'] uses by simp
  assume g: "volumeGates ?s k = Some b"
  show "b < next_addr ?s \<and> finite (users_of ?s k b) \<and>
      gt_refs (gate_heap ?s b) = card (users_of ?s k b) \<and> users_of ?s k b \<noteq> {}"
    using gate_invD(2) [OF inv, of k b] g unfolding usr by auto
  show "volumeGates ?s k' = Some b \<Longrightarrow> k = k'" for k' using gate_invD(3) [OF inv, of k b k'] g by simp
  have "volumeGates s key = Some a" using gate_invD(1) [OF inv, of t] same by simp
  then have "b = a \<longleftrightarrow> k = key" using g by (intro gate_addr_iff [OF inv]) simp_all
  then show "gt_mu (gate_heap ?s b) = Some t' \<longleftrightarrow> threads ?s t' = Holding k b"
    using gate_invD(4) [OF inv, of k b t'] g mu [of t'] other [of k b t'] by (auto simp del: fun_upd_apply simp: fun_upd_same fun_upd_other)
qed

lemma gate_lock_inv:
  assumes inv: "gate_inv s" and "threads s t = Waiting key a" and "gt_mu (gate_heap s a) = None"
  shows "gate_inv (gate_lock t key a s)"
proof -
  have "volumeGates s key = Some a" using gate_invD(1) [OF inv, of t] assms(2) by simp
  then have "threads s t' \<noteq> Holding key a" for t' using gate_invD(4) [OF inv, of key a t'] assms(3) by simp
  then show ?thesis unfolding gate_lock_def using assms(2) by (intro gate_inv_mutex [OF inv]) auto
qed

lemma gate_unlock_inv:
  assumes inv: "gate_inv s" and "threads s t = Holding key a"
  shows "gate_inv (gate_unlock t key a s)"
proof -
  have "volumeGates s key = Some a" using gate_invD(1) [OF inv, of t] assms(2) by simp
  from gate_invD(4) [OF inv this] have "t' \<noteq> t \<Longrightarrow> threads s t' \<noteq> Holding key a" for t'
    using assms(2) by (metis option.inject)
  then show ?thesis unfolding gate_unlock_def using assms(2) by (intro gate_inv_mutex [OF inv]) auto
qed

lemma gate_enter_Some:
  assumes inv: "gate_inv s" and out: "threads s t = Outside" and g: "volumeGates s key = Some a"
  shows "gate_inv (gate_enter t key s)" (is "gate_inv ?s")
proof (rule gate_invI)
  have s': "?s = s\<lparr>gate_heap := (gate_heap s)(a := (gate_heap s a)\<lparr>gt_refs := Suc (gt_refs (gate_heap s a))\<rparr>),
      threads := (threads s)(t := Waiting key a)\<rparr>" using g by (simp add: gate_enter_def Let_def)
  have usr: "users_of ?s k b = (if k = key \<and> b = a then insert t (users_of s k b) else users_of s k b)" for k b
    using out by (auto simp: users_of_def s')
  have t: "t \<notin> users_of s key a" using out by (simp add: users_of_def)
  fix t' k b
  show "uses (threads ?s t') = Some (k, b) \<Longrightarrow> volumeGates ?s k = Some b"
    using gate_invD(1) [OF inv, of t'] g by (auto simp: s' split: if_splits)
  assume "volumeGates ?s k = Some b"
  then have k: "volumeGates s k = Some b" by (simp add: s')
  have ba: "b = a \<longleftrightarrow> k = key" by (rule gate_addr_iff [OF inv g k])
  show "b < next_addr ?s \<and> finite (users_of ?s k b) \<and>
      gt_refs (gate_heap ?s b) = card (users_of ?s k b) \<and> users_of ?s k b \<noteq> {}"
    using gate_invD(2) [OF inv k] t ba unfolding usr by (auto simp: s')
  show "volumeGates ?s k' = Some b \<Longrightarrow> k = k'" for k' using gate_invD(3) [OF inv k, of k'] by (simp add: s')
  show "gt_mu (gate_heap ?s b) = Some t' \<longleftrightarrow> threads ?s t' = Holding k b"
    using gate_invD(4) [OF inv k, of t'] out by (auto simp: s')
qed

lemma gate_enter_None:
  assumes inv: "gate_inv s" and out: "threads s t = Outside" and g: "volumeGates s key = None"
  shows "gate_inv (gate_enter t key s)" (is "gate_inv ?s")
proof (rule gate_invI)
  let ?a = "next_addr s"
  have s': "?s = s\<lparr>volumeGates := (volumeGates s)(key \<mapsto> ?a),
      gate_heap := (gate_heap s)(?a := \<lparr>gt_refs = 1, gt_mu = None\<rparr>), next_addr := Suc ?a,
      threads := (threads s)(t := Waiting key ?a)\<rparr>" using g by (simp add: gate_enter_def Let_def)
  have old: "volumeGates s k \<noteq> Some ?a" for k using gate_invD(2) [OF inv, of k ?a] by auto
  have fresh: "uses (threads s t') \<noteq> Some (k, ?a)" "uses (threads s t') \<noteq> Some (key, b)" for t' k b
    using gate_invD(1) [OF inv, of t'] old g by fastforce+
  have usr: "users_of ?s k b = (if k = key \<and> b = ?a then {t} else users_of s k b)" for k b
    using out fresh by (auto simp: users_of_def s')
  fix t' k b
  have hold: "threads s t' \<noteq> Holding k ?a" using fresh(1) [of t' k] by auto
  show "uses (threads ?s t') = Some (k, b) \<Longrightarrow> volumeGates ?s k = Some b"
    using gate_invD(1) [OF inv, of t'] fresh(2) [of t' b] by (auto simp: s' split: if_splits)
  assume k: "volumeGates ?s k = Some b"
  show "b < next_addr ?s \<and> finite (users_of ?s k b) \<and>
      gt_refs (gate_heap ?s b) = card (users_of ?s k b) \<and> users_of ?s k b \<noteq> {}"
    using gate_invD(2) [OF inv, of k b] k unfolding usr by (auto simp: s' split: if_splits)
  show "volumeGates ?s k' = Some b \<Longrightarrow> k = k'" for k'
    using gate_invD(3) [OF inv, of k b k'] k old by (auto simp: s' split: if_splits)
  show "gt_mu (gate_heap ?s b) = Some t' \<longleftrightarrow> threads ?s t' = Holding k b"
    using gate_invD(4) [OF inv, of k b t'] k out hold old by (auto simp: s' split: if_splits)
qed

lemma gate_enter_inv: "gate_inv s \<Longrightarrow> threads s t = Outside \<Longrightarrow> gate_inv (gate_enter t key s)"
  by (cases "volumeGates s key") (auto intro: gate_enter_Some gate_enter_None)

lemma gate_leave_inv:
  assumes inv: "gate_inv s" and leaving: "threads s t = Leaving key a"
  shows "gate_inv (gate_leave t key a s)" (is "gate_inv ?s")
proof (rule gate_invI)
  have g: "volumeGates s key = Some a" using gate_invD(1) [OF inv, of t] leaving by simp
  have usr: "users_of ?s k b = (if k = key \<and> b = a then users_of s k b - {t} else users_of s k b)" for k b
    using leaving by (auto simp: users_of_def gate_leave_def Let_def)
  have t: "t \<in> users_of s key a" using leaving by (simp add: users_of_def)
  have fin: "finite (users_of s key a)" "gt_refs (gate_heap s a) = card (users_of s key a)"
    using gate_invD(2) [OF inv g] by auto
  then have n: "gt_refs (gate_heap s a) - 1 = card (users_of s key a - {t})" using t by simp
  have vg: "volumeGates ?s = (if users_of s key a - {t} = {} then (volumeGates s)(key := None) else volumeGates s)"
    using n fin by (simp add: gate_leave_def Let_def)
  fix t' k b
  show "uses (threads ?s t') = Some (k, b) \<Longrightarrow> volumeGates ?s k = Some b"
  proof -
    assume u: "uses (threads ?s t') = Some (k, b)"
    then have "t' \<noteq> t" and u': "uses (threads s t') = Some (k, b)"
      by (auto simp: gate_leave_def Let_def split: if_splits)
    moreover have "volumeGates s k = Some b" by (rule gate_invD(1) [OF inv u'])
    moreover have "k = key \<Longrightarrow> t' \<in> users_of s key a" using u' g calculation(3) by (simp add: users_of_def)
    ultimately show ?thesis by (auto simp: vg)
  qed
  assume "volumeGates ?s k = Some b"
  then have k: "volumeGates s k = Some b" and ne: "k = key \<Longrightarrow> users_of s key a - {t} \<noteq> {}"
    by (auto simp: vg split: if_splits)
  have ba: "b = a \<longleftrightarrow> k = key" by (rule gate_addr_iff [OF inv g k])
  show "b < next_addr ?s \<and> finite (users_of ?s k b) \<and>
      gt_refs (gate_heap ?s b) = card (users_of ?s k b) \<and> users_of ?s k b \<noteq> {}"
    using gate_invD(2) [OF inv k] n ne ba fin unfolding usr by (auto simp: gate_leave_def Let_def)
  show "volumeGates ?s k' = Some b \<Longrightarrow> k = k'" for k'
    using gate_invD(3) [OF inv k, of k'] by (auto simp: vg split: if_splits)
  show "gt_mu (gate_heap ?s b) = Some t' \<longleftrightarrow> threads ?s t' = Holding k b"
    using gate_invD(4) [OF inv k, of t'] leaving by (auto simp: gate_leave_def Let_def)
qed

inductive gate_reach :: "gate_state \<Rightarrow> bool" where
  start: "gate_reach no_gates"
| step: "gate_reach s \<Longrightarrow> gate_step s s' \<Longrightarrow> gate_reach s'"

lemma gate_reach_inv: "gate_reach s \<Longrightarrow> gate_inv s"
proof (induction rule: gate_reach.induct)
  case start
  show ?case by (rule gate_inv_start)
next
  case (step s s')
  from step(2) step(3) show ?case
    by (cases rule: gate_step.cases) (auto intro: gate_lock_inv gate_unlock_inv gate_leave_inv gate_enter_inv)
qed

text \<open>
  The attachment gate excludes. In every state the threads can reach, however the entries of
  the gate map came and went, no two threads hold the gate of one volume at the same time; a thread that waits
  for a gate can take it, or the thread that holds it is inside and will release it; and when all
  threads are outside no gate is left in the map.
\<close>

theorem gate_excludes:
  assumes "gate_reach s"
  shows "(threads s t = Holding k a \<and> threads s t' = Holding k a' \<longrightarrow> t = t') \<and>
    (threads s t = Waiting k a \<longrightarrow> gate_step s (gate_lock t k a s) \<or> (\<exists>t'. threads s t' = Holding k a)) \<and>
    ((\<forall>t. threads s t = Outside) \<longrightarrow> volumeGates s = Map.empty)"
proof (intro conjI impI)
  have inv: "gate_inv s" by (rule gate_reach_inv [OF assms])
  show "t = t'" if h: "threads s t = Holding k a \<and> threads s t' = Holding k a'"
  proof -
    have "volumeGates s k = Some a" "volumeGates s k = Some a'"
      using h gate_invD(1) [OF inv, of t] gate_invD(1) [OF inv, of t'] by auto
    with h show ?thesis using gate_invD(4) [OF inv, of k a] by (metis option.inject)
  qed
  show "gate_step s (gate_lock t k a s) \<or> (\<exists>t'. threads s t' = Holding k a)" if w: "threads s t = Waiting k a"
  proof (cases "gt_mu (gate_heap s a)")
    case None
    with w show ?thesis by (auto intro: gate_step.lock)
  next
    case (Some t')
    moreover have "volumeGates s k = Some a" using w gate_invD(1) [OF inv, of t] by simp
    ultimately show ?thesis using gate_invD(4) [OF inv] by blast
  qed
  show "volumeGates s = Map.empty" if "\<forall>t. threads s t = Outside"
    using gate_invD(2) [OF inv] that by (fastforce simp: users_of_def)
qed

lemma gate_excludes_witness:
  "\<exists>s. gate_reach s \<and> threads s 0 = Holding ''k'' 0 \<and> threads s 1 = Waiting ''k'' 0 \<and> threads s 1 \<noteq> Holding ''k'' 0"
proof -
  let ?s = "gate_lock 0 ''k'' 0 (gate_enter 1 ''k'' (gate_enter 0 ''k'' no_gates))"
  have ts: "threads ?s 0 = Holding ''k'' 0" "threads ?s 1 = Waiting ''k'' 0" by code_simp+
  have 1: "gate_reach (gate_enter 0 ''k'' no_gates)"
    by (rule gate_reach.step [OF gate_reach.start gate_step.enter]) code_simp
  have 2: "gate_reach (gate_enter 1 ''k'' (gate_enter 0 ''k'' no_gates))"
    by (rule gate_reach.step [OF 1 gate_step.enter]) code_simp
  have r: "gate_reach ?s"
    by (rule gate_reach.step [OF 2 gate_step.lock]; code_simp)
  have "threads ?s 1 \<noteq> Holding ''k'' 0"
    using gate_excludes [OF r, where t = 0 and t' = 1 and k = "''k''" and a = 0 and a' = 0] ts(1) by auto
  with r ts show ?thesis by blast
qed

text \<open>Two volumes of one key are the same volume, since no user id holds a NUL.\<close>

lemma gate_key_inj:
  assumes "CHR 0x00 \<notin> set u" and "CHR 0x00 \<notin> set u'"
  shows "gate_key u n = gate_key u' n' \<longleftrightarrow> u = u' \<and> n = n'"
proof -
  have "takeWhile (\<lambda>c. c \<noteq> CHR 0x00) (gate_key w m) = w" if "CHR 0x00 \<notin> set w" for w m
    using that by (subst gate_key_def, subst takeWhile_append2) auto
  with assms show ?thesis by (metis append_same_eq gate_key_def same_append_eq)
qed

end
