(* ===== verification/Catalog.thy ===== *)
theory Catalog
  imports Grants
begin

text \<open>
  The rest of the catalogue: users, images and their sharing, publish rules, background tasks and
  templates (\<^verbatim>\<open>user.go\<close>, \<^verbatim>\<open>image.go\<close>, \<^verbatim>\<open>publish.go\<close>, \<^verbatim>\<open>task.go\<close>, \<^verbatim>\<open>template.go\<close> under
  \<^verbatim>\<open>src/pkg/store\<close>). The properties: whose image a name resolves to, that every user gets a subnet
  index of their own, and that a public alias leads to one port of one sandbox.
\<close>

section \<open>Users\<close>

text \<open>
  \<open>CreateUser\<close> does not insert the three storage quotas: a new row gets the column defaults, whatever
  the struct says.
\<close>

definition CreateUser :: "User \<Rightarrow> db \<Rightarrow> store_error + db" where
  "CreateUser u d =
     (let row = u\<lparr>u_MaxVolumeStorageMB := 20480, u_MaxImages := 10, u_MaxSnapshots := 5\<rparr> in
      case sql_insert users_cs row (users d) of
        Inl e \<Rightarrow> Inl (SqlErr e)
      | Inr t \<Rightarrow> Inr (d\<lparr>users := t\<rparr>))"

definition GetUserByKeyHash :: "string \<Rightarrow> db \<Rightarrow> sql_error + User" where
  "GetUserByKeyHash hash d = query_row (\<lambda>u. u_APIKeyHash u = hash) (users d)"

definition GetUser :: "string \<Rightarrow> db \<Rightarrow> sql_error + User" where
  "GetUser i d = query_row (\<lambda>u. u_ID u = i) (users d)"

definition ListUsers :: "db \<Rightarrow> User list" where
  "ListUsers d = order_by u_CreatedAt (users d)"

definition DeleteUser :: "string \<Rightarrow> db \<Rightarrow> store_error + db" where
  "DeleteUser i d =
     (if CountUserSandboxes i d > 0 then Inl (HasSandboxes (CountUserSandboxes i d))
      else if ListUserSecrets i d \<noteq> [] then Inl (HasSecrets (length (ListUserSecrets i d)))
      else case sql_delete (\<lambda>u. u_ID u = i) (users d) of
        (t, n) \<Rightarrow> if n = 0 then Inl (NotFound i) else Inr (d\<lparr>users := t\<rparr>))"

text \<open>\<open>int64(^uint(0)>>1)\<close> is the largest 64-bit integer.\<close>

definition NextSubnetIndex :: "db \<Rightarrow> store_error + int" where
  "NextSubnetIndex d =
     (case map u_SubnetIndex (users d) of
        [] \<Rightarrow> Inr 1
      | x # xs \<Rightarrow> (let m = foldl max x xs in
          if m < 0 \<or> m \<ge> 2 ^ 63 - 1 then Inl (InvalidMaximum m) else Inr (m + 1)))"

definition RotateUserKey :: "string \<Rightarrow> string \<Rightarrow> db \<Rightarrow> store_error + db" where
  "RotateUserKey i newKeyHash d =
     (case sql_update users_cs (\<lambda>u. u_ID u = i) (\<lambda>u. u\<lparr>u_APIKeyHash := newKeyHash\<rparr>) (users d) of
        Inl e \<Rightarrow> Inl (SqlErr e)
      | Inr (t, n) \<Rightarrow> if n = 0 then Inl (NotFound i) else Inr (d\<lparr>users := t\<rparr>))"

text \<open>\<open>GetUserByName\<close> leaves the fields of the quotas it does not select at zero.\<close>

definition GetUserByName :: "string \<Rightarrow> db \<Rightarrow> store_error + User" where
  "GetUserByName name d =
     (case query_row (\<lambda>u. u_Name u = name) (users d) of
        Inl _ \<Rightarrow> Inl (NotFound name)
      | Inr u \<Rightarrow> Inr (u\<lparr>u_MaxVolumeStorageMB := 0, u_MaxImages := 0, u_MaxSnapshots := 0\<rparr>))"

section \<open>Images\<close>

definition CreateImage :: "ImageRecord \<Rightarrow> db \<Rightarrow> store_error + db" where
  "CreateImage img d =
     (case sql_insert images_cs img (images d) of
        Inl e \<Rightarrow> Inl (SqlErr e)
      | Inr t \<Rightarrow> Inr (d\<lparr>images := t\<rparr>))"

definition shared_with :: "string \<Rightarrow> ImageRecord \<Rightarrow> db \<Rightarrow> bool" where
  "shared_with userID img d \<longleftrightarrow> (img_ID img, userID) \<in> set (image_shares d)"

definition GetImage :: "string \<Rightarrow> string \<Rightarrow> db \<Rightarrow> store_error + ImageRecord" where
  "GetImage userID name d =
     (case query_row (\<lambda>i. img_UserID i = userID \<and> img_Name i = name) (images d) of
        Inr i \<Rightarrow> Inr i
      | Inl _ \<Rightarrow>
          (case query_row (\<lambda>i. shared_with userID i d \<and> img_Name i = name) (images d) of
             Inr i \<Rightarrow> Inr i
           | Inl _ \<Rightarrow>
               (case query_row (\<lambda>i. img_UserID i = [] \<and> img_Name i = name) (images d) of
                  Inr i \<Rightarrow> Inr i
                | Inl _ \<Rightarrow> Inl (NotFound name))))"

definition ListImages :: "string \<Rightarrow> db \<Rightarrow> ImageRecord list" where
  "ListImages userID d = order_by (\<lambda>i. - img_CreatedAt i)
     (query_all (\<lambda>i. img_UserID i = userID \<or> img_UserID i = [] \<or> shared_with userID i d) (images d))"

definition DeleteImage :: "string \<Rightarrow> string \<Rightarrow> db \<Rightarrow> store_error + db" where
  "DeleteImage userID name d =
     (case sql_delete (\<lambda>i. img_UserID i = userID \<and> img_Name i = name) (images d) of
        (t, n) \<Rightarrow> if n = 0 then Inl (NotFound name) else Inr (d\<lparr>images := t\<rparr>))"

definition ShareImage :: "string \<Rightarrow> string \<Rightarrow> db \<Rightarrow> db" where
  "ShareImage imageID userID d = d\<lparr>image_shares := sql_insert_ignore image_shares_cs (imageID, userID) (image_shares d)\<rparr>"

definition UnshareImage :: "string \<Rightarrow> string \<Rightarrow> db \<Rightarrow> db" where
  "UnshareImage imageID userID d =
     d\<lparr>image_shares := fst (sql_delete (\<lambda>s. fst s = imageID \<and> snd s = userID) (image_shares d))\<rparr>"

text \<open>The left join with \<open>users\<close>: the user's name, or the id of a user who is gone.\<close>

definition ListImageShares :: "string \<Rightarrow> db \<Rightarrow> string list" where
  "ListImageShares imageID d =
     map (\<lambda>(i, u). case query_row (\<lambda>x. u_ID x = u) (users d) of Inr x \<Rightarrow> u_Name x | Inl _ \<Rightarrow> u)
       (query_all (\<lambda>s. fst s = imageID) (image_shares d))"

definition GetImageByName :: "string \<Rightarrow> db \<Rightarrow> store_error + ImageRecord" where
  "GetImageByName name d =
     (case query_row (\<lambda>i. img_Name i = name) (images d) of Inl _ \<Rightarrow> Inl (NotFound name) | Inr i \<Rightarrow> Inr i)"

section \<open>Publish rules\<close>

definition CreatePublishRule :: "time \<Rightarrow> PublishRule \<Rightarrow> db \<Rightarrow> store_error + db" where
  "CreatePublishRule now rule d =
     (case sql_insert publish_rules_cs (rule\<lparr>pr_CreatedAt := now\<rparr>) (publish_rules d) of
        Inr t \<Rightarrow> Inr (d\<lparr>publish_rules := t\<rparr>)
      | Inl (ErrUnique n) \<Rightarrow>
          if contains n ''alias'' then Inl (AliasTaken (pr_Alias rule)) else Inl (PortPublished (pr_Port rule))
      | Inl e \<Rightarrow> Inl (SqlErr e))"

definition GetPublishRuleByAlias :: "string \<Rightarrow> db \<Rightarrow> store_error + PublishRule" where
  "GetPublishRuleByAlias alias d =
     (case query_row (\<lambda>r. pr_Alias r = alias) (publish_rules d) of
        Inl ErrNoRows \<Rightarrow> Inl (NotFound alias)
      | Inl e \<Rightarrow> Inl (SqlErr e)
      | Inr r \<Rightarrow> Inr r)"

definition ListPublishRules :: "string \<Rightarrow> db \<Rightarrow> PublishRule list" where
  "ListPublishRules sandboxID d = query_all (\<lambda>r. pr_SandboxID r = sandboxID) (publish_rules d)"

definition ListUserPublishRules :: "string \<Rightarrow> db \<Rightarrow> PublishRule list" where
  "ListUserPublishRules userID d = query_all (\<lambda>r. pr_UserID r = userID) (publish_rules d)"

definition DeletePublishRule :: "string \<Rightarrow> string \<Rightarrow> int \<Rightarrow> db \<Rightarrow> store_error + db" where
  "DeletePublishRule userID sandboxID port d =
     (case sql_delete (\<lambda>r. pr_UserID r = userID \<and> pr_SandboxID r = sandboxID \<and> pr_Port r = port) (publish_rules d) of
        (t, n) \<Rightarrow> if n = 0 then Inl (NotFound sandboxID) else Inr (d\<lparr>publish_rules := t\<rparr>))"

definition DeletePublishRulesForSandbox :: "string \<Rightarrow> db \<Rightarrow> db \<times> nat" where
  "DeletePublishRulesForSandbox sandboxID d =
     (case sql_delete (\<lambda>r. pr_SandboxID r = sandboxID) (publish_rules d) of (t, n) \<Rightarrow> (d\<lparr>publish_rules := t\<rparr>, n))"

definition CleanupOrphanedPublishRules :: "db \<Rightarrow> db \<times> nat" where
  "CleanupOrphanedPublishRules d =
     (let live = map sb_ID (query_all (\<lambda>sb. sb_Status sb \<noteq> ''destroyed'' \<and> sb_Status sb \<noteq> ''unknown'') (sandboxes d)) in
      case sql_delete (\<lambda>r. pr_SandboxID r \<notin> set live) (publish_rules d) of (t, n) \<Rightarrow> (d\<lparr>publish_rules := t\<rparr>, n))"

section \<open>Tasks\<close>

definition CreateTask :: "TaskRecord \<Rightarrow> db \<Rightarrow> store_error + db" where
  "CreateTask t d =
     (case sql_insert tasks_cs (t\<lparr>t_CompletedAt := None\<rparr>) (tasks d) of
        Inl e \<Rightarrow> Inl (SqlErr e)
      | Inr r \<Rightarrow> Inr (d\<lparr>tasks := r\<rparr>))"

definition GetTask :: "string \<Rightarrow> db \<Rightarrow> store_error + TaskRecord" where
  "GetTask i d = (case query_row (\<lambda>t. t_ID t = i) (tasks d) of Inl _ \<Rightarrow> Inl (NotFound i) | Inr t \<Rightarrow> Inr t)"

definition update_task :: "string \<Rightarrow> (TaskRecord \<Rightarrow> TaskRecord) \<Rightarrow> db \<Rightarrow> db" where
  "update_task i f d = d\<lparr>tasks := update_rows (\<lambda>t. t_ID t = i) f (tasks d)\<rparr>"

definition UpdateTaskProgress :: "string \<Rightarrow> string \<Rightarrow> db \<Rightarrow> db" where
  "UpdateTaskProgress i progress = update_task i (\<lambda>t. t\<lparr>t_Progress := progress\<rparr>)"

definition CompleteTask :: "time \<Rightarrow> string \<Rightarrow> string \<Rightarrow> db \<Rightarrow> db" where
  "CompleteTask now i resultJSON =
     update_task i (\<lambda>t. t\<lparr>t_Status := ''completed'', t_ResultJSON := resultJSON, t_CompletedAt := Some now\<rparr>)"

definition FailTask :: "time \<Rightarrow> string \<Rightarrow> string \<Rightarrow> db \<Rightarrow> db" where
  "FailTask now i errMsg =
     update_task i (\<lambda>t. t\<lparr>t_Status := ''failed'', t_Error := errMsg, t_CompletedAt := Some now\<rparr>)"

definition CleanupOldTasks :: "time \<Rightarrow> int \<Rightarrow> db \<Rightarrow> db \<times> nat" where
  "CleanupOldTasks now maxAge d =
     (case sql_delete (\<lambda>t. t_CreatedAt t < now - maxAge \<and> (t_Status t = ''completed'' \<or> t_Status t = ''failed'')) (tasks d) of
        (t, n) \<Rightarrow> (d\<lparr>tasks := t\<rparr>, n))"

section \<open>Templates\<close>

definition CreateTemplate :: "Template \<Rightarrow> db \<Rightarrow> store_error + db" where
  "CreateTemplate t d =
     (case sql_insert templates_cs t (templates d) of
        Inl e \<Rightarrow> Inl (SqlErr e)
      | Inr r \<Rightarrow> Inr (d\<lparr>templates := r\<rparr>))"

definition GetTemplate :: "string \<Rightarrow> db \<Rightarrow> sql_error + Template" where
  "GetTemplate i d = query_row (\<lambda>t. tpl_ID t = i) (templates d)"

definition ListTemplates :: "db \<Rightarrow> Template list" where
  "ListTemplates d = order_by (\<lambda>t. - tpl_CreatedAt t) (templates d)"

definition DeleteTemplate :: "string \<Rightarrow> db \<Rightarrow> store_error + db" where
  "DeleteTemplate i d =
     (case sql_delete (\<lambda>t. tpl_ID t = i) (templates d) of
        (r, n) \<Rightarrow> if n = 0 then Inl (NotFound i) else Inr (d\<lparr>templates := r\<rparr>))"

section \<open>Whose image a name means\<close>

text \<open>The order of preference among the images of one name: one's own, then a shared one, then the administrator's.\<close>

definition img_rank :: "string \<Rightarrow> db \<Rightarrow> ImageRecord \<Rightarrow> nat" where
  "img_rank u d i = (if img_UserID i = u then 0 else if shared_with u i d then 1 else 2)"

lemma query_row_cases:
  obtains (found) r where "query_row p t = Inr r" "r \<in> set t" "p r"
  | (none) "query_row p t = Inl ErrNoRows" "\<And>r. r \<in> set t \<Longrightarrow> \<not> p r"
proof (cases "query_row p t")
  case (Inl e)
  then have "e = ErrNoRows \<and> (\<forall>r \<in> set t. \<not> p r)" by (simp add: query_row_Inl_iff)
  with none Inl show thesis by auto
next
  case (Inr r)
  then show thesis using found query_row_Inr [of p t r] by auto
qed

text \<open>
  An image name resolves to the image its user means. \<open>GetImage\<close> finds an image exactly when the list
  of images the user may see has one of that name, and what it returns is in that list and is of the best rank there:
  one's own image shadows a shared one, and a shared one the administrator's. So a share never
  changes what the name of one's own image means, and nobody sees an image that is neither theirs, shared nor global.
\<close>

theorem image_resolution:
  "case GetImage u n d of
     Inl _ \<Rightarrow> n \<notin> img_Name ` set (ListImages u d)
   | Inr i \<Rightarrow> i \<in> set (ListImages u d) \<and> img_Name i = n \<and>
       img_rank u d i = Min (img_rank u d ` {j \<in> set (ListImages u d). img_Name j = n})"
proof -
  let ?S = "{j \<in> set (ListImages u d). img_Name j = n}"
  have fin: "finite ?S" by simp
  have best: "img_rank u d i = Min (img_rank u d ` ?S)"
    if "i \<in> ?S" "\<And>j. j \<in> ?S \<Longrightarrow> img_rank u d i \<le> img_rank u d j" for i
    by (rule sym, rule Min_eqI) (use fin that in auto)
  have mem: "j \<in> ?S \<longleftrightarrow> j \<in> set (images d) \<and> img_Name j = n \<and>
      (img_UserID j = u \<or> img_UserID j = [] \<or> shared_with u j d)" for j
    by (auto simp: ListImages_def)
  show ?thesis
  proof (cases rule: query_row_cases [of "\<lambda>i. img_UserID i = u \<and> img_Name i = n" "images d"])
    case (found i)
    then show ?thesis using best [of i] mem [of i] by (simp add: GetImage_def img_rank_def)
  next
    case none1: none
    show ?thesis
    proof (cases rule: query_row_cases [of "\<lambda>i. shared_with u i d \<and> img_Name i = n" "images d"])
      case (found i)
      with none1 have "img_rank u d i = Min (img_rank u d ` ?S)"
        by (intro best) (use mem in \<open>auto simp: img_rank_def\<close>)
      then show ?thesis using none1 found mem [of i] by (simp add: GetImage_def)
    next
      case none2: none
      show ?thesis
      proof (cases rule: query_row_cases [of "\<lambda>i. img_UserID i = [] \<and> img_Name i = n" "images d"])
        case (found i)
        with none1 none2 have "img_rank u d i = Min (img_rank u d ` ?S)"
          by (intro best) (use mem in \<open>auto simp: img_rank_def\<close>)
        then show ?thesis using none1 none2 found mem [of i] by (simp add: GetImage_def)
      next
        case none
        then show ?thesis using none1 none2 mem by (auto simp: GetImage_def)
      qed
    qed
  qed
qed

section \<open>Histories of users and of publish rules\<close>

text \<open>\<open>bhatti user create\<close> asks for the next subnet index and creates the user with it.\<close>

definition user_create :: "User \<Rightarrow> db \<Rightarrow> store_error + db" where
  "user_create u d = (case NextSubnetIndex d of Inl e \<Rightarrow> Inl e | Inr i \<Rightarrow> CreateUser (u\<lparr>u_SubnetIndex := i\<rparr>) d)"

datatype user_op = UCreate User | UDelete string | URotate string string

fun user_exec :: "user_op \<Rightarrow> db \<Rightarrow> store_error + db" where
  "user_exec (UCreate u) d = user_create u d"
| "user_exec (UDelete i) d = DeleteUser i d"
| "user_exec (URotate i h) d = RotateUserKey i h d"

definition user_run :: "user_op list \<Rightarrow> db \<Rightarrow> db" where
  "user_run ops d = fold (\<lambda>op d. after d (user_exec op d)) ops d"

definition users_inv :: "User list \<Rightarrow> bool" where
  "users_inv us \<longleftrightarrow> table_ok users_cs us \<and> distinct (map u_SubnetIndex us) \<and> list_all (\<lambda>u. u_SubnetIndex u \<ge> 1) us"

lemma foldl_max_ge: "y \<in> set (x # xs) \<Longrightarrow> y \<le> foldl max x (xs :: int list)"
proof (induction xs arbitrary: x y)
  case (Cons z zs)
  then show ?case using Cons.IH [of "max x z" "max x z"] by (auto intro: order_trans)
qed simp

lemma NextSubnetIndex_fresh:
  assumes "NextSubnetIndex d = Inr i" and "list_all (\<lambda>u. u_SubnetIndex u \<ge> 1) (users d)"
  shows "1 \<le> i \<and> i \<notin> u_SubnetIndex ` set (users d)"
proof (cases "map u_SubnetIndex (users d)")
  case (Cons x xs)
  have "y < foldl max x xs + 1" if "y \<in> u_SubnetIndex ` set (users d)" for y
    using foldl_max_ge [of y x xs] that Cons by (auto simp flip: set_map)
  moreover have "x \<ge> 1" using Cons assms(2) by (cases "users d") auto
  ultimately show ?thesis
    using assms(1) Cons foldl_max_ge [of x x xs] by (fastforce simp: NextSubnetIndex_def Let_def split: if_splits)
qed (use assms in \<open>simp add: NextSubnetIndex_def\<close>)

lemma users_inv_filter: "users_inv us \<Longrightarrow> users_inv (filter p us)"
  by (auto simp: users_inv_def list_all_iff distinct_map_filter intro: users.filter_ok)

lemma user_exec_inv:
  assumes inv: "users_inv (users d)" and ex: "user_exec op d = Inr d'"
  shows "users_inv (users d')"
proof (cases op)
  case (UCreate u)
  with ex obtain i t where i: "NextSubnetIndex d = Inr i" and d': "users d' = t"
    and ins: "sql_insert users_cs (u\<lparr>u_SubnetIndex := i, u_MaxVolumeStorageMB := 20480, u_MaxImages := 10, u_MaxSnapshots := 5\<rparr>) (users d) = Inr t"
    by (auto simp: user_create_def CreateUser_def Let_def split: sum.splits)
  have "table_ok users_cs (users d)" using inv by (simp add: users_inv_def)
  from users.insert_ok [OF this ins] NextSubnetIndex_fresh [OF i] inv show ?thesis
    by (auto simp: users_inv_def d')
next
  case (UDelete i)
  with ex have "users d' = filter (\<lambda>u. u_ID u \<noteq> i) (users d)"
    by (auto simp: DeleteUser_def sql_delete_def split: if_splits)
  with inv show ?thesis by (simp add: users_inv_filter)
next
  case (URotate i h)
  with ex obtain t n where u: "sql_update users_cs (\<lambda>u. u_ID u = i) (\<lambda>u. u\<lparr>u_APIKeyHash := h\<rparr>) (users d) = Inr (t, n)"
    and d': "users d' = t"
    by (auto simp: RotateUserKey_def split: sum.splits prod.splits if_splits)
  have t: "table_ok users_cs t" "t = update_rows (\<lambda>u. u_ID u = i) (\<lambda>u. u\<lparr>u_APIKeyHash := h\<rparr>) (users d)"
    using users.update_ok [OF u] by blast+
  have "map u_SubnetIndex t = map u_SubnetIndex (users d)" by (simp add: t(2) update_rows_def)
  moreover have "list_all (\<lambda>u. 1 \<le> u_SubnetIndex u) t"
    using inv by (auto simp: t(2) users_inv_def list_all_iff set_update_rows)
  ultimately show ?thesis using t(1) inv by (simp add: users_inv_def d')
qed

lemma user_run_inv: "users_inv (users d) \<Longrightarrow> users_inv (users (user_run ops d))"
proof (induction ops arbitrary: d)
  case (Cons op ops)
  then have "users_inv (users (after d (user_exec op d)))"
    using user_exec_inv [of d op] by (cases "user_exec op d") (auto simp: after_def)
  with Cons.IH show ?case by (simp add: user_run_def)
qed (simp add: user_run_def)

text \<open>In a table with a unique key, looking a row up by its key finds this row.\<close>

lemma lookup_by_unique_key:
  assumes "table_ok cs t" and "(n, same k) \<in> set cs"
  shows "map (\<lambda>r. query_row (\<lambda>x. k x = k r) t) t = map Inr t"
proof (rule map_cong [OF refl])
  fix r assume "r \<in> set t"
  moreover have "unique_rows (same k) t" using assms by (auto simp: table_ok_def list_all_iff)
  ultimately show "query_row (\<lambda>x. k x = k r) t = Inr r"
    by (auto intro!: query_row_unique [of "same k"] simp: same_def)
qed

text \<open>
  Every user has a subnet and a key of their own. After any sequence of user creations,
  deletions and key rotations from an empty database, no two users share a subnet index, every index is
  positive, and the hash of a user's key finds this user and no other.
\<close>

theorem users_separate:
  "let d = user_run ops empty_db in
     distinct (map u_SubnetIndex (users d)) \<and> list_all (\<lambda>u. u_SubnetIndex u \<ge> 1) (users d) \<and>
     map (\<lambda>u. GetUserByKeyHash (u_APIKeyHash u) d) (users d) = map Inr (users d)"
proof -
  have "users_inv (users (user_run ops empty_db))"
    by (rule user_run_inv) (simp add: users_inv_def empty_db_def)
  then show ?thesis
    using lookup_by_unique_key [of users_cs "users (user_run ops empty_db)" "''users.api_key_hash''" u_APIKeyHash]
    by (simp add: Let_def users_inv_def GetUserByKeyHash_def users_cs_def)
qed

datatype publish_op =
    PCreate time PublishRule
  | PDelete string string int
  | PDeleteSandbox string
  | PCleanup
  | PSandbox sandbox_op

fun publish_exec :: "publish_op \<Rightarrow> db \<Rightarrow> store_error + db" where
  "publish_exec (PCreate now r) d = CreatePublishRule now r d"
| "publish_exec (PDelete u s p) d = DeletePublishRule u s p d"
| "publish_exec (PDeleteSandbox s) d = Inr (fst (DeletePublishRulesForSandbox s d))"
| "publish_exec PCleanup d = Inr (fst (CleanupOrphanedPublishRules d))"
| "publish_exec (PSandbox op) d = sandbox_exec op d"

definition publish_run :: "publish_op list \<Rightarrow> db \<Rightarrow> db" where
  "publish_run ops d = fold (\<lambda>op d. after d (publish_exec op d)) ops d"

lemma sandbox_exec_publish: "sandbox_exec op d = Inr d' \<Longrightarrow> publish_rules d' = publish_rules d"
  by (cases op) (auto simp: sandbox_op_defs update_sandbox_def map_sum_fst_Inr Let_def
      split: sum.splits prod.splits if_splits)

lemma publish_exec_ok:
  assumes ok: "table_ok publish_rules_cs (publish_rules d)" and ex: "publish_exec op d = Inr d'"
  shows "table_ok publish_rules_cs (publish_rules d')"
proof (cases op)
  case (PCreate now r)
  with ex obtain t where "sql_insert publish_rules_cs (r\<lparr>pr_CreatedAt := now\<rparr>) (publish_rules d) = Inr t" "publish_rules d' = t"
    by (auto simp: CreatePublishRule_def split: sum.splits sql_error.splits if_splits)
  with publish_rules.insert_ok [OF ok] show ?thesis by simp
next
  case (PSandbox x)
  with assms sandbox_exec_publish show ?thesis by simp
qed (use assms in \<open>auto simp: DeletePublishRule_def DeletePublishRulesForSandbox_def CleanupOrphanedPublishRules_def
    sql_delete_def Let_def split: if_splits intro: publish_rules.filter_ok\<close>)

lemma publish_run_ok:
  "table_ok publish_rules_cs (publish_rules d) \<Longrightarrow> table_ok publish_rules_cs (publish_rules (publish_run ops d))"
proof (induction ops arbitrary: d)
  case (Cons op ops)
  then have "table_ok publish_rules_cs (publish_rules (after d (publish_exec op d)))"
    using publish_exec_ok [of d op] by (cases "publish_exec op d") (auto simp: after_def)
  with Cons.IH show ?case by (simp add: publish_run_def)
qed (simp add: publish_run_def)

text \<open>
  A public alias leads to one port of one sandbox. After any sequence of publish, unpublish, clean-up and
  sandbox writes, looking up the alias of a rule finds that rule and no other; and right after a
  clean-up every rule is for a sandbox that is there and neither destroyed nor unknown.
\<close>

theorem publish_alias_unique:
  "let d = publish_run ops empty_db; d' = fst (CleanupOrphanedPublishRules d) in
     map (\<lambda>r. GetPublishRuleByAlias (pr_Alias r) d) (publish_rules d) = map Inr (publish_rules d) \<and>
     pr_SandboxID ` set (publish_rules d') \<subseteq>
       sb_ID ` {sb \<in> set (sandboxes d'). sb_Status sb \<noteq> ''destroyed'' \<and> sb_Status sb \<noteq> ''unknown''}"
proof -
  let ?d = "publish_run ops empty_db"
  have ok: "table_ok publish_rules_cs (publish_rules ?d)" by (rule publish_run_ok) (simp add: empty_db_def)
  have "map (\<lambda>r. query_row (\<lambda>x. pr_Alias x = pr_Alias r) (publish_rules ?d)) (publish_rules ?d) = map Inr (publish_rules ?d)"
    by (rule lookup_by_unique_key [OF ok, of "''publish_rules.alias''"]) (simp add: publish_rules_cs_def)
  then have "map (\<lambda>r. GetPublishRuleByAlias (pr_Alias r) ?d) (publish_rules ?d) = map Inr (publish_rules ?d)"
    by (simp add: GetPublishRuleByAlias_def)
  then show ?thesis by (auto simp: Let_def CleanupOrphanedPublishRules_def sql_delete_def)
qed

end
