(* ===== verification/Addressing.thy ===== *)
theory Addressing
  imports Netd Sql "HOL-Library.Multiset"
begin

text \<open>
  The address plan of the engine, \<^verbatim>\<open>src/pkg/engine/krucible/engine.go\<close>: how an owner's subnet
  index and a guest's slot become the gateway address, the guest address and its MAC, and how slots are claimed,
  recovered and released. The properties: an address leads back to its slot, netd accepts every
  address the engine hands out, and no two sandboxes of one owner ever hold the same slot, across
  restarts of the daemon too.
\<close>

section \<open>Addresses as text\<close>

text \<open>\<open>%d\<close> of a non-negative number and \<open>%02x\<close> of a byte.\<close>

fun itoa :: "nat \<Rightarrow> string" where
  "itoa n = (if n < 10 then [char_of (48 + n)] else itoa (n div 10) @ [char_of (48 + n mod 10)])"

declare itoa.simps [simp del]

definition netGatewayIPFor :: "nat \<Rightarrow> string" where
  "netGatewayIPFor subnetIdx = ''100.64.'' @ itoa subnetIdx @ ''.1''"

definition netGuestIPFor :: "nat \<Rightarrow> nat \<Rightarrow> string" where
  "netGuestIPFor subnetIdx guestIdx = ''100.64.'' @ itoa subnetIdx @ ''.'' @ itoa (2 + guestIdx)"

definition netGuestCIDRFor :: "nat \<Rightarrow> nat \<Rightarrow> string" where
  "netGuestCIDRFor subnetIdx guestIdx = netGuestIPFor subnetIdx guestIdx @ ''/24''"

definition netGuestMACFor :: "nat \<Rightarrow> string" where
  "netGuestMACFor guestIdx = ''52:54:00:00:00:'' @ hex_encode [word_of_nat (2 + guestIdx)]"

definition netGuestSlots :: nat where "netGuestSlots = 253"

text \<open>The last byte of the address less two; \<open>None\<close> where the code returns false.\<close>

definition netGuestIndexFor :: "string \<Rightarrow> nat option" where
  "netGuestIndexFor ip =
     (case ParseAddr ip of
        Some (Addr4 v) \<Rightarrow>
          (let idx = int (unat (v AND 0xff)) - 2 in
           if 0 \<le> idx \<and> idx < int netGuestSlots then Some (nat idx) else None)
      | _ \<Rightarrow> None)"

definition netdKeyFor :: "string \<Rightarrow> string \<Rightarrow> string" where
  "netdKeyFor userID i = (if userID \<noteq> [] then ''u:'' @ userID else ''s:'' @ i)"

section \<open>Claiming and releasing slots\<close>









section \<open>Text and back\<close>

lemma digit_char:
  assumes "n < (10 :: nat)"
  shows "is_digit (char_of (48 + n)) \<and> digit_val (char_of (48 + n)) = int n \<and> (char_of (48 + n) = CHR ''0'' \<longleftrightarrow> n = 0)"
proof -
  from assms have "n \<in> {0, 1, 2, 3, 4, 5, 6, 7, 8, 9}" by auto
  then show ?thesis by (elim insertE emptyE; hypsubst; code_simp)
qed

lemma itoa_digits: "list_all is_digit (itoa n)"
proof (induction n rule: itoa.induct)
  case (1 n)
  then show ?case by (subst itoa.simps) (auto simp: digit_char)
qed

lemma dot_not_digit: "list_all is_digit s \<Longrightarrow> CHR ''.'' \<notin> set s \<and> CHR '':'' \<notin> set s \<and> CHR ''%'' \<notin> set s"
  by (auto simp: list_all_iff is_digit_def Let_def)

lemmas itoa_no_dot = dot_not_digit [OF itoa_digits]

lemma digits_val_append: "digits_val a (s @ [c]) = digits_val a s * 10 + digit_val c"
  by (induction a s rule: digits_val.induct) auto

lemma itoa_val: "digits_val 0 (itoa n) = int n"
proof (induction n rule: itoa.induct)
  case (1 n)
  have "int (n div 10) * 10 + int (n mod 10) = int n" by presburger
  with 1 show ?case by (subst itoa.simps) (auto simp: digits_val_append digit_char)
qed

lemma itoa_not_Nil [simp]: "itoa n \<noteq> []"
  by (subst itoa.simps) simp

lemma itoa_hd: "n > 0 \<Longrightarrow> hd (itoa n) \<noteq> CHR ''0''"
proof (induction n rule: itoa.induct)
  case (1 n)
  then show ?case by (subst itoa.simps) (auto simp: hd_append digit_char)
qed

lemma parse_dec_itoa: "parse_dec (itoa n) = Some (int n)"
proof (cases "n < 10")
  case True
  then have "itoa n = [char_of (48 + n)]" by (subst itoa.simps) simp
  then show ?thesis using itoa_digits [of n] itoa_val [of n] by (simp add: parse_dec_def)
next
  case False
  then show ?thesis using itoa_hd [of n] itoa_digits [of n] by (simp add: parse_dec_def itoa_val)
qed

lemma parse_octet_itoa: "parse_octet (itoa n) = (if n \<le> 255 then Some (int n) else None)"
  by (simp add: parse_octet_def parse_dec_itoa)

text \<open>The dotted form parses exactly when both variable bytes fit.\<close>

definition plan_addr :: "nat \<Rightarrow> nat \<Rightarrow> 32 word" where
  "plan_addr s b = word_of_int ((25664 * 256 + int s) * 256 + int b)"

lemma parse_plan_addr:
  "ParseAddr (''100.64.'' @ itoa s @ ''.'' @ itoa b) =
     (if s \<le> 255 \<and> b \<le> 255 then Some (Addr4 (plan_addr s b)) else None)"
proof -
  have sp: "split_on (CHR ''.'') (''100.64.'' @ itoa s @ ''.'' @ itoa b) = [''100'', ''64'', itoa s, itoa b]"
    using split_on_append [of "CHR ''.''" "''100''"] split_on_append [of "CHR ''.''" "''64''"]
      split_on_append [of "CHR ''.''" "itoa s"] split_on_none [of "CHR ''.''" "itoa b"] itoa_no_dot
    by simp
  have o: "parse_octet ''100'' = Some 100" "parse_octet ''64'' = Some 64" by code_simp+
  have "parseIPv4Fields (''100.64.'' @ itoa s @ ''.'' @ itoa b) =
      (if s \<le> 255 \<and> b \<le> 255 then Some (plan_addr s b) else None)"
    unfolding parseIPv4Fields_def sp by (simp add: o parse_octet_itoa plan_addr_def)
  then show ?thesis by (simp add: ParseAddr_def)
qed

lemma parse_gateway:
  "ParseAddr (netGatewayIPFor s) = (if s \<le> 255 then Some (Addr4 (plan_addr s 1)) else None)"
proof -
  have "''.1'' = ''.'' @ itoa 1" by code_simp
  then show ?thesis using parse_plan_addr [of s 1] by (simp add: netGatewayIPFor_def)
qed

lemma parse_guest:
  "ParseAddr (netGuestIPFor s i) = (if s \<le> 255 \<and> i \<le> 253 then Some (Addr4 (plan_addr s (2 + i))) else None)"
  using parse_plan_addr [of s "2 + i"] by (auto simp: netGuestIPFor_def)

lemma unat_plan_addr:
  assumes "s \<le> 255" "b \<le> 255"
  shows "unat (plan_addr s b) = (25664 * 256 + s) * 256 + b"
proof -
  have "plan_addr s b = word_of_nat ((25664 * 256 + s) * 256 + b)"
    by (simp add: plan_addr_def)
  moreover have "(25664 * 256 + s) * 256 + b < 2 ^ 32" using assms by simp
  ultimately show ?thesis by (simp only: unsigned_of_nat) (simp add: take_bit_nat_eq_self)
qed

lemma plan_addr_parts:
  assumes "s \<le> 255" "b \<le> 255"
  shows "unat (plan_addr s b AND 0xff) = b" and "unat (drop_bit 8 (plan_addr s b)) = 25664 * 256 + s"
    and "drop_bit 22 (plan_addr s b) = drop_bit 22 (0x64400000 :: 32 word)"
proof -
  have low: "(x * 256 + b) mod 256 = b" for x using assms(2) by simp
  have "plan_addr s b AND 0xff = take_bit 8 (plan_addr s b)"
    by (simp add: take_bit_eq_mask mask_eq_exp_minus_1)
  then show "unat (plan_addr s b AND 0xff) = b"
    using low [of "25664 * 256 + s"] by (simp only: take_bit_eq_mod unat_mod unat_plan_addr [OF assms]) simp
  show "unat (drop_bit 8 (plan_addr s b)) = 25664 * 256 + s"
    using assms by (simp add: drop_bit_eq_div unat_div unat_plan_addr)
  have "unat (drop_bit 22 (plan_addr s b)) = unat (drop_bit 22 (0x64400000 :: 32 word))"
    using assms by (simp add: drop_bit_eq_div unat_div unat_plan_addr)
  then show "drop_bit 22 (plan_addr s b) = drop_bit 22 (0x64400000 :: 32 word)" by (simp add: word_unat_eq_iff)
qed

lemma low_byte_network: "(push_bit 8 w :: 32 word) AND 0xff = 0"
proof -
  have "(push_bit 8 w :: 32 word) AND mask 8 = 0" by (rule bit_word_eqI) (auto simp: bit_simps)
  then show ?thesis by (simp add: mask_eq_exp_minus_1)
qed

lemma low_byte_broadcast: "unat ((w OR 0xff :: 32 word) AND 0xff) = 0xff"
proof -
  have "(w OR 0xff) AND 0xff = (0xff :: 32 word)" by (rule bit_word_eqI) (auto simp: bit_simps)
  then show ?thesis by simp
qed

lemma plan_addr_inject:
  assumes "s \<le> 255" "b \<le> 255" "s' \<le> 255" "b' \<le> 255"
  shows "plan_addr s b = plan_addr s' b' \<longleftrightarrow> s = s' \<and> b = b'"
  using plan_addr_parts(1,2) [OF assms(1,2)] plan_addr_parts(1,2) [OF assms(3,4)] by auto


lemma hex_digit_facts:
  assumes "n < (16 :: nat)"
  shows "is_hex (hex_digit n) \<and> Netip.hex_val (hex_digit n) = int n \<and> hex_digit n \<noteq> CHR '':''"
proof -
  from assms have "n \<in> {0, 1, 2, 3, 4, 5, 6, 7, 8, 9, 10, 11, 12, 13, 14, 15}" by (simp, presburger)
  then show ?thesis by (elim insertE emptyE; hypsubst; code_simp)
qed

lemma byte_lt: "unat (b :: byte) < 256"
proof -
  have "unat b < 2 ^ LENGTH(8)" by (rule unsigned_less)
  then show ?thesis by simp
qed

lemma hex_byte_encode: "hex_byte [hex_digit (unat b div 16), hex_digit (unat b mod 16)] = Some b"
proof -
  have lt: "unat b < 256" by (rule byte_lt)
  have "unat b div 16 < 16" using lt by (simp add: less_mult_imp_div_less)
  then have d: "is_hex (hex_digit (unat b div 16))" "is_hex (hex_digit (unat b mod 16))"
    "Netip.hex_val (hex_digit (unat b div 16)) = int (unat b div 16)"
    "Netip.hex_val (hex_digit (unat b mod 16)) = int (unat b mod 16)" by (simp_all add: hex_digit_facts)
  have "hexs_val 0 [hex_digit (unat b div 16), hex_digit (unat b mod 16)] =
      int (unat b div 16) * 16 + int (unat b mod 16)" using d by (simp add: mult.commute)
  also have "\<dots> = int (unat b)" by presburger
  finally show ?thesis using d by (simp add: hex_byte_def)
qed

lemma hex_encode_Cons: "hex_encode (b # bs) = hex_digit (unat b div 16) # hex_digit (unat b mod 16) # hex_encode bs"
  by (simp add: hex_encode_def)

lemma hex_roundtrip: "hex_decode (hex_encode bs) = Some bs"
  by (induction bs) (simp_all add: hex_encode_Cons hex_byte_encode, simp add: hex_encode_def)

lemma length_hex_encode: "length (hex_encode bs) = 2 * length bs"
  by (induction bs) (simp_all add: hex_encode_Cons, simp add: hex_encode_def)

lemma ParseMAC_colon:
  "14 \<le> length s \<Longrightarrow> s ! 2 = CHR '':'' \<Longrightarrow>
     ParseMAC s = mac_groups (map (\<lambda>g. map_option (\<lambda>b. [b]) (hex_byte g)) (split_on (CHR '':'') s))"
  by (simp add: ParseMAC_def)

lemma netGuestMACFor_parses:
  "ParseMAC (netGuestMACFor i) = Some [0x52, 0x54, 0, 0, 0, word_of_nat (2 + i)]"
proof -
  let ?b = "word_of_nat (2 + i) :: byte"
  let ?h = "[hex_digit (unat ?b div 16), hex_digit (unat ?b mod 16)]"
  have mac: "netGuestMACFor i = ''52:54:00:00:00:'' @ ?h"
    unfolding netGuestMACFor_def by (simp only: hex_encode_Cons) (simp add: hex_encode_def)
  have "unat ?b < 256" by (rule byte_lt)
  then have "hex_digit (unat ?b div 16) \<noteq> CHR '':''" "hex_digit (unat ?b mod 16) \<noteq> CHR '':''"
    using hex_digit_facts [of "unat ?b div 16"] hex_digit_facts [of "unat ?b mod 16"]
    by (auto simp: less_mult_imp_div_less)
  then have sp: "split_on (CHR '':'') (''52:54:00:00:00:'' @ ?h) = [''52'', ''54'', ''00'', ''00'', ''00'', ?h]"
    by simp
  have "hex_byte ''52'' = Some 0x52" "hex_byte ''54'' = Some 0x54" "hex_byte ''00'' = Some 0" by code_simp+
  then have "mac_groups (map (\<lambda>g. map_option (\<lambda>b. [b]) (hex_byte g)) [''52'', ''54'', ''00'', ''00'', ''00'', ?h]) =
      Some [0x52, 0x54, 0, 0, 0, ?b]"
    by (simp only: list.map hex_byte_encode) (simp add: mac_groups_def)
  then show ?thesis unfolding mac by (subst ParseMAC_colon; (subst sp)?) simp_all
qed

section \<open>Slots over the life of the engine\<close>

text \<open>
  What the engine does with the networks of its sandboxes: create one with a network, find the network full, destroy one,
  and restart, when the instances are rebuilt from the records of the sandboxes in some order with whatever
  search positions were on disk. \<open>sub\<close> is the subnet index of an owner, which never changes. A
  sandbox is its owner's key, the index and its address.
\<close>

type_synonym net_vm = "string \<times> nat \<times> string"



definition mine :: "string \<Rightarrow> net_vm list \<Rightarrow> net_vm list" where
  "mine k vms = filter (\<lambda>vm. fst vm = k) vms"

definition slots :: "net_vm list \<Rightarrow> nat list" where
  "slots vms = map (\<lambda>(k, s, ip). the (netGuestIndexFor ip)) vms"






lemma mine_simps [simp]:
  "mine k [] = []" "mine k (vm # vms) = (if fst vm = k then vm # mine k vms else mine k vms)"
  "mine k (xs @ ys) = mine k xs @ mine k ys"
  by (simp_all add: mine_def)


lemma slots_simps [simp]:
  "slots [] = []" "slots ((k, s, ip) # vms) = the (netGuestIndexFor ip) # slots vms" "slots (xs @ ys) = slots xs @ slots ys"
  by (simp_all add: slots_def)















text \<open>
  Netd takes every address the engine hands out. For an owner index up to 255 the gateway address parses and
  makes a gateway for the owner's own /24, and for each of the 253 slots the guest address, its MAC and a
  fresh 32-byte secret pass every check of the registration. An index of 256 or more gives a gateway address that is
  none: no gateway starts for such an owner.
\<close>

theorem address_plan_accepted:
  "(case ParseAddr (netGatewayIPFor s) of
      Some (Addr4 gw) \<Rightarrow> s \<le> 255 \<and>
        (\<exists>g. NewGateway gw 24 [0x52, 0x54, 0, 0, 0, 1] hosts svcs = Inr g \<and> drop_bit 8 (gw_ip g) = drop_bit 8 (plan_addr s 0) \<and>
           list_all (\<lambda>i. guest_identity g (netGuestIPFor s i) (netGuestMACFor i) (hex_encode secret) =
             (if length secret = 32 then Inr (plan_addr s (2 + i), [0x52, 0x54, 0, 0, 0, word_of_nat (2 + i)]) else Inl InvalidSecret))
             [0..<netGuestSlots])
    | _ \<Rightarrow> s > 255)"
proof (cases "s \<le> 255")
  case False
  then show ?thesis by (simp add: parse_gateway)
next
  case True
  let ?gw = "plan_addr s 1"
  have pool: "Contains ownerGuestPool (Addr4 ?gw)"
    using plan_addr_parts(3) [OF True, of 1] by (simp add: ownerGuestPool_def)
  obtain g where g: "NewGateway ?gw 24 [0x52, 0x54, 0, 0, 0, 1] hosts svcs = Inr g"
    using pool by (simp add: NewGateway_def Let_def)
  then have ip: "gw_ip g = ?gw" "gw_mac g = [0x52, 0x54, 0, 0, 0, 1]" "gw_subnet g = own_subnet ?gw"
    using pool by (auto simp: NewGateway_def Let_def Masked_own)
  have same: "drop_bit 8 (plan_addr s b) = drop_bit 8 ?gw" if "b \<le> 255" for b
    using plan_addr_parts(2) [OF True that] plan_addr_parts(2) [OF True, of 1] by (simp add: word_unat_eq_iff)
  have id: "guest_identity g (netGuestIPFor s i) (netGuestMACFor i) (hex_encode secret) =
      (if length secret = 32 then Inr (plan_addr s (2 + i), [0x52, 0x54, 0, 0, 0, word_of_nat (2 + i)]) else Inl InvalidSecret)"
    if i: "i < netGuestSlots" for i
  proof -
    have b: "2 + i \<le> 254" using i by (simp add: netGuestSlots_def)
    let ?v = "plan_addr s (2 + i)"
    have low: "unat (?v AND 0xff) = 2 + i" using plan_addr_parts(1) [OF True, of "2 + i"] b by simp
    have "?v \<noteq> ?gw" using plan_addr_inject [OF True _ True, of "2 + i" 1] b by simp
    moreover have "?v \<noteq> push_bit 8 (drop_bit 8 ?gw)" using low low_byte_network by (metis add_is_0 unat_0 zero_neq_numeral)
    moreover have "?v \<noteq> push_bit 8 (drop_bit 8 ?gw) OR 0xff" using low b low_byte_broadcast by fastforce
    moreover have "drop_bit 8 ?v = drop_bit 8 ?gw" using same [of "2 + i"] b by simp
    ultimately have ok: "guest_ip_ok g ?v"
      by (simp add: guest_ip_ok_def ip own_contains) (simp add: own_subnet_def)
    have "unat (word_of_nat (2 + i) :: byte) = 2 + i"
      using b by (simp only: unsigned_of_nat) (simp add: take_bit_nat_eq_self)
    then have mac: "(word_of_nat (2 + i) :: byte) \<noteq> 1" by (metis One_nat_def Suc_1 add_Suc nat.inject nat.simps(3) unsigned_1)
    show ?thesis
      using ok mac b i
      by (simp add: guest_identity_def parse_guest True netGuestMACFor_parses ip isBroadcastOrMulticast_def
          length_hex_encode hex_roundtrip GuestHelloSize_def netGuestSlots_def)
  qed
  show ?thesis using True g id same [of 0] by (simp add: parse_gateway ip list_all_iff)
qed

end
