(* ===== verification/Rate_Window.thy ===== *)
theory Rate_Window
  imports Bhatti_Prelude
begin

text \<open>
  Limits of the form \<open>at most n grants in any window of length w\<close>. The locale \<open>sliding_window\<close> is the contract of a limiter that keeps a history of grants
  and drops what has left the window; the bound follows from it. The daemon's restart limiter (\<open>Lifecycle\<close>) and the guest's
  service supervisor (\<open>Supervisor\<close>) are interpretations.
\<close>

fun window_times :: "('q \<Rightarrow> int option) \<Rightarrow> 'q list \<Rightarrow> int list" where
  "window_times clock [] = []"
| "window_times clock (q # qs) = (case clock q of None \<Rightarrow> window_times clock qs | Some now \<Rightarrow> now # window_times clock qs)"

fun window_grants :: "('q \<Rightarrow> 's \<Rightarrow> bool \<times> 's) \<Rightarrow> ('q \<Rightarrow> int option) \<Rightarrow> 'q list \<Rightarrow> 's \<Rightarrow> int list" where
  "window_grants run clock [] s = []"
| "window_grants run clock (q # qs) s =
     (case run q s of (granted, s') \<Rightarrow> (if granted then [the (clock q)] else []) @ window_grants run clock qs s')"

lemma length_filter_mono:
  "(\<And>x. x \<in> set xs \<Longrightarrow> P x \<Longrightarrow> Q x) \<Longrightarrow> length (filter P xs) \<le> length (filter Q xs)"
  by (induction xs) (auto simp: le_SucI)

locale sliding_window =
  fixes run :: "'q \<Rightarrow> 's \<Rightarrow> bool \<times> 's" and clock :: "'q \<Rightarrow> int option" and hist :: "'s \<Rightarrow> int list" and w :: int and n :: nat
  assumes untimed: "clock q = None \<Longrightarrow> run q s = (granted, s') \<Longrightarrow> \<not> granted \<and> hist s' = hist s"
    and timed: "clock q = Some now \<Longrightarrow> run q s = (granted, s') \<Longrightarrow>
      (\<not> granted \<and> hist s' = hist s) \<or> (\<not> granted \<and> hist s' = filter (\<lambda>t. t > now - w) (hist s)) \<or>
      (granted \<and> length (filter (\<lambda>t. t > now - w) (hist s)) < n \<and> hist s' = filter (\<lambda>t. t > now - w) (hist s) @ [now])"
begin

definition in_window :: "int \<Rightarrow> int list \<Rightarrow> nat" where
  "in_window t0 ts = length (filter (\<lambda>t. t0 < t \<and> t \<le> t0 + w) ts)"

text \<open>The history kept is the grants made, as far as they can still count.\<close>

definition tracks :: "int \<Rightarrow> int list \<Rightarrow> int list \<Rightarrow> bool" where
  "tracks now g h \<longleftrightarrow> (\<forall>t \<in> set g. t \<le> now) \<and> (\<forall>m \<ge> now. filter (\<lambda>t. t > m - w) g = filter (\<lambda>t. t > m - w) h)"

lemma tracks_grant:
  assumes "tracks prev g h" and "prev \<le> now"
  shows "tracks now (g @ [now]) (filter (\<lambda>t. t > now - w) h @ [now])"
  using assms by (auto simp: tracks_def intro: filter_cong order_trans)

lemma tracks_prune:
  assumes "tracks prev g h" and "prev \<le> now"
  shows "tracks now g (filter (\<lambda>t. t > now - w) h)"
  using assms by (auto simp: tracks_def intro: filter_cong order_trans)

lemma tracks_later: "tracks prev g h \<Longrightarrow> prev \<le> now \<Longrightarrow> tracks now g h"
  by (auto simp: tracks_def)

lemma grant_in_window:
  assumes tr: "tracks prev g h" and "prev \<le> now" and bound: "\<And>t0. in_window t0 g \<le> n" and few: "length (filter (\<lambda>t. t > now - w) h) < n"
  shows "in_window t0 (g @ [now]) \<le> n"
proof (cases "t0 < now \<and> now \<le> t0 + w")
  case True
  have "filter (\<lambda>t. t > now - w) g = filter (\<lambda>t. t > now - w) h" using tr assms(2) by (simp add: tracks_def)
  moreover have "length (filter (\<lambda>t. t0 < t \<and> t \<le> t0 + w) g) \<le> length (filter (\<lambda>t. t > now - w) g)"
    by (rule length_filter_mono) (use True in auto)
  ultimately show ?thesis using few True by (simp add: in_window_def)
next
  case False
  then show ?thesis using bound [of t0] by (auto simp: in_window_def)
qed

lemma grants_tracked:
  assumes "tracks prev g (hist s)" and "\<And>t0. in_window t0 g \<le> n" and "sorted (prev # window_times clock qs)"
  shows "in_window t0 (g @ window_grants run clock qs s) \<le> n"
  using assms
proof (induction qs arbitrary: prev g s)
  case (Cons q qs)
  obtain granted s' where r: "run q s = (granted, s')" by (cases "run q s")
  show ?case
  proof (cases "clock q")
    case None
    then show ?thesis using untimed [OF None r] Cons.IH [of prev g s'] Cons.prems r by simp
  next
    case (Some now)
    then have le: "prev \<le> now" and srt: "sorted (now # window_times clock qs)" using Cons.prems(3) by auto
    from timed [OF Some r] show ?thesis
    proof (elim disjE conjE)
      assume "\<not> granted" "hist s' = hist s"
      then show ?thesis using Cons.IH [of now g s'] tracks_later [OF Cons.prems(1) le] Cons.prems(2) srt r by simp
    next
      assume "\<not> granted" "hist s' = filter (\<lambda>t. t > now - w) (hist s)"
      then show ?thesis using Cons.IH [of now g s'] tracks_prune [OF Cons.prems(1) le] Cons.prems(2) srt r by simp
    next
      assume "granted" "length (filter (\<lambda>t. t > now - w) (hist s)) < n" "hist s' = filter (\<lambda>t. t > now - w) (hist s) @ [now]"
      then show ?thesis
        using Cons.IH [of now "g @ [now]" s'] tracks_grant [OF Cons.prems(1) le] grant_in_window [OF Cons.prems(1) le Cons.prems(2)] srt r Some by simp
    qed
  qed
qed simp

lemma grants_bounded:
  assumes "hist s = []" and "sorted (window_times clock qs)"
  shows "length (filter (\<lambda>t. t0 < t \<and> t \<le> t0 + w) (window_grants run clock qs s)) \<le> n"
proof -
  let ?prev = "case window_times clock qs of [] \<Rightarrow> 0 | t # _ \<Rightarrow> t"
  have "sorted (?prev # window_times clock qs)" using assms(2) by (auto split: list.splits)
  moreover have "tracks ?prev [] (hist s)" using assms(1) by (simp add: tracks_def)
  ultimately have "in_window t0 ([] @ window_grants run clock qs s) \<le> n"
    using grants_tracked [of ?prev "[]" s qs t0] by (simp add: in_window_def)
  then show ?thesis by (simp add: in_window_def)
qed

end

end
