(* ===== verification/Lifecycle.thy ===== *)
theory Lifecycle
  imports Sandboxes Rate_Window
begin

text \<open>
  The restart of kept-hot sandboxes, \<^verbatim>\<open>src/pkg/server/lifecycle.go\<close>: the bookkeeping of attempts,
  the handling of exits the engine reports, the worker that backs off, boots the VM and confirms it,
  and the owner's stop of \<^verbatim>\<open>sandbox_handlers.go\<close> that has to win against it. The worker is cut at the points where other
  goroutines can run between its steps, and the steps of workers, exits, stops and time interleave.
  The properties: the rate of restarts is bounded, at most one worker exists per VM, an exit is never lost, an abort
  seen by the worker ends it, and one seen too late does not.
\<close>

section \<open>Attempts\<close>

definition restartWindow :: int where "restartWindow = 600 * second"

definition restartBackoff :: "int list" where "restartBackoff = [0, 30 * second, 120 * second]"

record restart_state =
  rs_attempts :: "time list"
  rs_active :: bool
  rs_pending :: bool
  rs_aborted :: bool

type_synonym restarts = "string \<rightharpoonup> restart_state"

definition state_of :: "string \<Rightarrow> restarts \<Rightarrow> restart_state" where
  "state_of engineID m = (case m engineID of
     Some st \<Rightarrow> st
   | None \<Rightarrow> \<lparr>rs_attempts = [], rs_active = False, rs_pending = False, rs_aborted = False\<rparr>)"

text \<open>The delay, whether a restart is scheduled, whether the attempts are exhausted, and the new state.\<close>

definition reserveRestart :: "time \<Rightarrow> string \<Rightarrow> bool \<Rightarrow> restarts \<Rightarrow> (int \<times> bool \<times> bool) \<times> restarts" where
  "reserveRestart now engineID retry m =
     (let st = state_of engineID m in
      if rs_active st \<and> \<not> retry then ((0, False, False), m(engineID \<mapsto> st\<lparr>rs_pending := True\<rparr>))
      else
        (let recent = filter (\<lambda>t. t > now - restartWindow) (rs_attempts st) in
         if length recent \<ge> length restartBackoff then ((0, False, True), m(engineID \<mapsto> st\<lparr>rs_attempts := recent\<rparr>))
         else ((restartBackoff ! length recent, True, False),
               m(engineID \<mapsto> st\<lparr>rs_attempts := recent @ [now], rs_active := True\<rparr>))))"

definition isRestarting :: "string \<Rightarrow> restarts \<Rightarrow> bool" where
  "isRestarting engineID m = (case m engineID of None \<Rightarrow> False | Some st \<Rightarrow> rs_active st)"

definition abortRestart :: "string \<Rightarrow> restarts \<Rightarrow> restarts" where
  "abortRestart engineID m = (case m engineID of
     Some st \<Rightarrow> if rs_active st then m(engineID \<mapsto> st\<lparr>rs_aborted := True, rs_pending := False\<rparr>) else m
   | None \<Rightarrow> m)"

definition restartAborted :: "string \<Rightarrow> restarts \<Rightarrow> bool" where
  "restartAborted engineID m = (case m engineID of None \<Rightarrow> False | Some st \<Rightarrow> rs_aborted st)"

text \<open>\<open>finishRestart\<close> dereferences the state; it is only called by a worker, and every worker has one (\<open>worker_active\<close> below).\<close>

definition finishRestart :: "string \<Rightarrow> restarts \<Rightarrow> bool \<times> restarts" where
  "finishRestart engineID m =
     (let st = state_of engineID m in
      (rs_pending st, m(engineID \<mapsto> st\<lparr>rs_active := False, rs_aborted := False, rs_pending := False\<rparr>)))"

section \<open>The server\<close>

text \<open>
  A worker waits until a time, or has passed its checks with the row it read and is about to call \<open>Start\<close>, or
  \<open>Start\<close> has returned without an error and it is about to take the VM's transition gate.
\<close>

datatype phase = Backoff time | Cleared Sandbox | Booted Sandbox

datatype lifecycle_kind = VMExited | NetworkLost | OtherKind

record lifecycle_event =
  le_Kind :: lifecycle_kind
  le_EngineID :: string
  le_SandboxID :: string
  le_UserID :: string

text \<open>
  The server's part of the state: the store, the attempts, the workers with the sandbox each serves, which VMs the
  engine runs, the audit events (type, user, sandbox), and the log of boots by workers.
\<close>

record server =
  sv_store :: db
  sv_restarts :: restarts
  sv_workers :: "string \<rightharpoonup> string \<times> phase"
  sv_running :: "string \<Rightarrow> bool"
  sv_queue :: "lifecycle_event list"
  sv_events :: "(string \<times> string \<times> string) list"
  sv_boots :: "(string \<times> time) list"

definition record_lc :: "string \<Rightarrow> string \<Rightarrow> string \<Rightarrow> server \<Rightarrow> server" where
  "record_lc typ u i s = s\<lparr>sv_events := sv_events s @ [(typ, u, i)]\<rparr>"

definition restartFailed :: "Sandbox \<Rightarrow> server \<Rightarrow> server" where
  "restartFailed sb s =
     record_lc ''sandbox.restart_failed'' (sb_CreatedBy sb) (sb_ID sb)
       (s\<lparr>sv_store := after (sv_store s) (ClearRestartPending (sb_ID sb) (sv_store s))\<rparr>)"

text \<open>\<open>startBackground\<close> refuses once the server is closing; then the reservation is given back.\<close>

definition scheduleRestart :: "bool \<Rightarrow> time \<Rightarrow> Sandbox \<Rightarrow> server \<Rightarrow> server" where
  "scheduleRestart closing now sb s =
     (case reserveRestart now (sb_EngineID sb) False (sv_restarts s) of
        ((delay, scheduled, exhausted), m) \<Rightarrow>
          if exhausted then restartFailed sb (s\<lparr>sv_restarts := m\<rparr>)
          else if \<not> scheduled then s\<lparr>sv_restarts := m\<rparr>
          else if closing then s\<lparr>sv_restarts := snd (finishRestart (sb_EngineID sb) m)\<rparr>
          else s\<lparr>sv_restarts := m, sv_workers := (sv_workers s)(sb_EngineID sb \<mapsto> (sb_ID sb, Backoff (now + delay)))\<rparr>)"

definition completeRestart :: "bool \<Rightarrow> time \<Rightarrow> string \<Rightarrow> string \<Rightarrow> server \<Rightarrow> server" where
  "completeRestart closing now sandboxID engineID s =
     (case finishRestart engineID (sv_restarts s) of (pending, m) \<Rightarrow>
        (let s' = s\<lparr>sv_restarts := m, sv_workers := (sv_workers s)(engineID := None)\<rparr> in
         if \<not> pending \<or> closing then s'
         else case GetSandboxByID sandboxID (sv_store s') of
             Inl _ \<Rightarrow> s'
           | Inr sb \<Rightarrow> if sb_KeepHot sb \<and> sb_Status sb = ''stopped'' then scheduleRestart closing now sb s' else s'))"

definition enqueueLifecycle :: "bool \<Rightarrow> lifecycle_event \<Rightarrow> server \<Rightarrow> server" where
  "enqueueLifecycle closing e s = (if closing then s else s\<lparr>sv_queue := sv_queue s @ [e]\<rparr>)"

definition event_sandbox :: "lifecycle_event \<Rightarrow> db \<Rightarrow> Sandbox option" where
  "event_sandbox e d =
     (let by_engine = (if le_EngineID e \<noteq> [] then (case GetSandboxByEngineID (le_EngineID e) d of Inr sb \<Rightarrow> Some sb | Inl _ \<Rightarrow> None) else None) in
      if by_engine = None \<and> le_SandboxID e \<noteq> []
      then (case GetSandboxByID (le_SandboxID e) d of Inr sb \<Rightarrow> Some sb | Inl _ \<Rightarrow> None)
      else by_engine)"

definition handleLifecycle :: "bool \<Rightarrow> time \<Rightarrow> lifecycle_event \<Rightarrow> server \<Rightarrow> server" where
  "handleLifecycle closing now e s =
     (let found = event_sandbox e (sv_store s) in
      if (case found of Some sb \<Rightarrow> sb_Status sb = ''destroyed'' | None \<Rightarrow> False) then s
      else case le_Kind e of
        VMExited \<Rightarrow>
          (case found of
             None \<Rightarrow> s
           | Some sb \<Rightarrow>
               (case StopSandboxUnexpected now (sb_ID sb) (sv_store s) of
                  Inl _ \<Rightarrow> s
                | Inr d \<Rightarrow>
                    (let s' = record_lc ''sandbox.exited'' (sb_CreatedBy sb) (sb_ID sb) (s\<lparr>sv_store := d\<rparr>) in
                     if sb_KeepHot sb then scheduleRestart closing now sb s' else s')))
      | NetworkLost \<Rightarrow>
          (case found of
             Some sb \<Rightarrow> record_lc ''sandbox.network_lost'' (sb_CreatedBy sb) (sb_ID sb) s
           | None \<Rightarrow> record_lc ''sandbox.network_lost'' (le_UserID e) (le_SandboxID e) s)
      | OtherKind \<Rightarrow> s)"

definition consumeLifecycle :: "bool \<Rightarrow> time \<Rightarrow> server \<Rightarrow> server" where
  "consumeLifecycle closing now s =
     (case sv_queue s of [] \<Rightarrow> s | e # es \<Rightarrow> handleLifecycle closing now e (s\<lparr>sv_queue := es\<rparr>))"

section \<open>The worker\<close>

text \<open>
  \<open>restartKeepHot\<close> in three pieces. \<open>restart_check\<close> follows the wait: the abort flag, the row, the mount
  policy (\<open>mounts_ok\<close>, the outcome of \<open>checkStoredMounts\<close>).
\<close>

definition restart_check :: "bool \<Rightarrow> time \<Rightarrow> bool \<Rightarrow> string \<Rightarrow> string \<Rightarrow> server \<Rightarrow> server" where
  "restart_check closing now mounts_ok sandboxID engineID s =
     (if closing \<or> restartAborted engineID (sv_restarts s) then completeRestart closing now sandboxID engineID s
      else case GetSandboxByID sandboxID (sv_store s) of
          Inl _ \<Rightarrow> completeRestart closing now sandboxID engineID s
        | Inr sb \<Rightarrow>
            if \<not> sb_KeepHot sb \<or> sb_Status sb \<noteq> ''stopped'' then completeRestart closing now sandboxID engineID s
            else if \<not> mounts_ok then completeRestart closing now sandboxID engineID (restartFailed sb s)
            else s\<lparr>sv_workers := (sv_workers s)(engineID \<mapsto> (sandboxID, Cleared sb))\<rparr>)"

text \<open>The end of a failed round: reserve the next attempt, or give up.\<close>

definition restart_retry :: "bool \<Rightarrow> time \<Rightarrow> Sandbox \<Rightarrow> string \<Rightarrow> server \<Rightarrow> server" where
  "restart_retry closing now sb engineID s =
     (case reserveRestart now engineID True (sv_restarts s) of
        ((delay, _, exhausted), m) \<Rightarrow>
          if exhausted then completeRestart closing now (sb_ID sb) engineID (restartFailed sb (s\<lparr>sv_restarts := m\<rparr>))
          else s\<lparr>sv_restarts := m, sv_workers := (sv_workers s)(engineID \<mapsto> (sb_ID sb, Backoff (now + delay)))\<rparr>)"

text \<open>\<open>engine.Start\<close>, with its outcome; a VM that runs already stays as it is.\<close>

definition restart_start :: "bool \<Rightarrow> time \<Rightarrow> bool \<Rightarrow> Sandbox \<Rightarrow> string \<Rightarrow> server \<Rightarrow> server" where
  "restart_start closing now ok sb engineID s =
     (let s' = s\<lparr>sv_boots := sv_boots s @ [(engineID, now)], sv_running := (sv_running s)(engineID := ok \<or> sv_running s engineID)\<rparr> in
      if closing then completeRestart closing now (sb_ID sb) engineID s'
      else if ok then s'\<lparr>sv_workers := (sv_workers s')(engineID \<mapsto> (sb_ID sb, Booted sb))\<rparr>
      else restart_retry closing now sb engineID s')"

text \<open>Under the transition gate: the engine's status (\<open>status_ok\<close> when it answers), then the row and the end of the restart.\<close>

definition restart_confirm :: "bool \<Rightarrow> time \<Rightarrow> bool \<Rightarrow> Sandbox \<Rightarrow> string \<Rightarrow> server \<Rightarrow> server" where
  "restart_confirm closing now status_ok sb engineID s =
     (if status_ok \<and> \<not> sv_running s engineID then completeRestart closing now (sb_ID sb) engineID s
      else if \<not> status_ok then restart_retry closing now sb engineID s
      else case UpdateSandboxStatus (sb_ID sb) ''running'' (sv_store s) of
          Inl _ \<Rightarrow> restart_retry closing now sb engineID s
        | Inr d \<Rightarrow> record_lc ''sandbox.restarted'' (sb_CreatedBy sb) (sb_ID sb)
            (s\<lparr>sv_store := d, sv_restarts := snd (finishRestart engineID (sv_restarts s)),
               sv_workers := (sv_workers s)(engineID := None)\<rparr>))"

section \<open>The owner's requests\<close>

text \<open>
  \<open>handleSandboxStop\<close>: first the abort, then \<open>engine.Stop\<close>, which returns no error for a VM that is
  not running, and the row. A failed power-off ends the request. \<open>handleSandboxStart\<close> boots and takes over the engine's status.
\<close>

definition stop_begin :: "Sandbox \<Rightarrow> server \<Rightarrow> server" where
  "stop_begin sb s = s\<lparr>sv_restarts := abortRestart (sb_EngineID sb) (sv_restarts s)\<rparr>"

definition stop_end :: "time \<Rightarrow> bool \<Rightarrow> string \<Rightarrow> Sandbox \<Rightarrow> server \<Rightarrow> server" where
  "stop_end now power_off_fails userID sb s =
     (if power_off_fails \<and> sv_running s (sb_EngineID sb) then s
      else record_lc ''sandbox.stopped'' userID (sb_ID sb)
        (s\<lparr>sv_running := (sv_running s)(sb_EngineID sb := False),
           sv_store := after (sv_store s) (StopSandbox now (sb_ID sb) (sv_store s))\<rparr>))"

definition StartKeepHotRecovery :: "bool \<Rightarrow> time \<Rightarrow> server \<Rightarrow> server" where
  "StartKeepHotRecovery closing now s = fold (scheduleRestart closing now) (ListRestartPending (sv_store s)) s"

section \<open>Interleavings\<close>

text \<open>
  One step of the daemon at a time: a VM exits and is reported, the engine reports something else, the consumer handles an event, a
  worker moves, the owner stops a sandbox in two steps with others between, the owner starts one, or
  some handler writes the sandboxes table.
\<close>

inductive lc_step :: "bool \<Rightarrow> time \<Rightarrow> server \<Rightarrow> server \<Rightarrow> bool" where
  vm_exit: "sv_running s v \<Longrightarrow> le_Kind e = VMExited \<Longrightarrow> le_EngineID e = v \<Longrightarrow>
     lc_step closing now s (enqueueLifecycle closing e (s\<lparr>sv_running := (sv_running s)(v := False)\<rparr>))"
| report: "lc_step closing now s (enqueueLifecycle closing e s)"
| consume: "lc_step closing now s (consumeLifecycle closing now s)"
| check: "sv_workers s v = Some (i, Backoff t) \<Longrightarrow> t \<le> now \<or> closing \<Longrightarrow>
     lc_step closing now s (restart_check closing now mounts_ok i v s)"
| start: "sv_workers s v = Some (i, Cleared sb) \<Longrightarrow> lc_step closing now s (restart_start closing now ok sb v s)"
| confirm: "sv_workers s v = Some (i, Booted sb) \<Longrightarrow> lc_step closing now s (restart_confirm closing now status_ok sb v s)"
| stop_begin: "lc_step closing now s (stop_begin sb s)"
| stop_end: "lc_step closing now s (stop_end now power_off_fails u sb s)"
| owner_start: "lc_step closing now s
     (s\<lparr>sv_running := (sv_running s)(v := True), sv_store := after (sv_store s) (UpdateSandboxStatus i ''running'' (sv_store s))\<rparr>)"
| recovery: "lc_step closing now s (StartKeepHotRecovery closing now s)"
| other_write: "lc_step closing now s (s\<lparr>sv_store := after (sv_store s) (sandbox_exec op (sv_store s))\<rparr>)"

definition idle :: server where
  "idle = \<lparr>sv_store = empty_db, sv_restarts = Map.empty, sv_workers = Map.empty, sv_running = (\<lambda>_. False),
     sv_queue = [], sv_events = [], sv_boots = []\<rparr>"

inductive lc_reach :: "time \<Rightarrow> server \<Rightarrow> bool" where
  start: "lc_reach now idle"
| step: "lc_reach now s \<Longrightarrow> now \<le> now' \<Longrightarrow> lc_step closing now' s s' \<Longrightarrow> lc_reach now' s'"

section \<open>Workers and their reservations\<close>

text \<open>
  A VM has a worker exactly while its restart is marked active, and the flags other goroutines set
  are only set then.
\<close>

definition workers_ok :: "server \<Rightarrow> bool" where
  "workers_ok s \<longleftrightarrow> (\<forall>v. (sv_workers s v \<noteq> None \<longleftrightarrow> rs_active (state_of v (sv_restarts s))) \<and>
     (rs_pending (state_of v (sv_restarts s)) \<or> rs_aborted (state_of v (sv_restarts s)) \<longrightarrow> rs_active (state_of v (sv_restarts s))))"

lemma state_of_upd [simp]: "state_of v (m(w \<mapsto> st)) = (if v = w then st else state_of v m)"
  by (simp add: state_of_def)

lemma record_lc_fields [simp]:
  "sv_store (record_lc a b c s) = sv_store s" "sv_restarts (record_lc a b c s) = sv_restarts s"
  "sv_workers (record_lc a b c s) = sv_workers s" "sv_running (record_lc a b c s) = sv_running s"
  "sv_boots (record_lc a b c s) = sv_boots s" "sv_queue (record_lc a b c s) = sv_queue s"
  by (simp_all add: record_lc_def)

lemma restartFailed_fields [simp]:
  "sv_restarts (restartFailed sb s) = sv_restarts s" "sv_workers (restartFailed sb s) = sv_workers s"
  "sv_running (restartFailed sb s) = sv_running s" "sv_boots (restartFailed sb s) = sv_boots s"
  by (simp_all add: restartFailed_def)

lemma workers_ok_cong:
  "sv_restarts s' = sv_restarts s \<Longrightarrow> sv_workers s' = sv_workers s \<Longrightarrow> workers_ok s' \<longleftrightarrow> workers_ok s"
  by (simp add: workers_ok_def)

lemma reserve_cases:
  "reserveRestart now v retry m = ((d, sch, ex), m') \<Longrightarrow>
     (\<forall>w. w \<noteq> v \<longrightarrow> state_of w m' = state_of w m) \<and>
     (if rs_active (state_of v m) \<and> \<not> retry then \<not> sch \<and> \<not> ex \<and> state_of v m' = (state_of v m)\<lparr>rs_pending := True\<rparr>
      else sch = (\<not> ex) \<and> rs_active (state_of v m') = (sch \<or> rs_active (state_of v m)) \<and>
        rs_pending (state_of v m') = rs_pending (state_of v m) \<and> rs_aborted (state_of v m') = rs_aborted (state_of v m))"
  by (auto simp: reserveRestart_def Let_def split: if_splits)

lemma workers_okD:
  assumes "workers_ok s"
  shows "sv_workers s v \<noteq> None \<longleftrightarrow> rs_active (state_of v (sv_restarts s))"
    and "rs_pending (state_of v (sv_restarts s)) \<Longrightarrow> rs_active (state_of v (sv_restarts s))"
    and "rs_aborted (state_of v (sv_restarts s)) \<Longrightarrow> rs_active (state_of v (sv_restarts s))"
  using assms unfolding workers_ok_def by blast+

text \<open>An update of one VM's worker and state keeps the invariant if the new pair is in order.\<close>

lemma workers_ok_upd:
  assumes ok: "workers_ok s"
    and other: "\<And>w. w \<noteq> v \<Longrightarrow> state_of w m = state_of w (sv_restarts s)"
    and v: "wk \<noteq> None \<longleftrightarrow> rs_active (state_of v m)"
      "rs_pending (state_of v m) \<or> rs_aborted (state_of v m) \<Longrightarrow> rs_active (state_of v m)"
    and s': "sv_restarts s' = m" "sv_workers s' = (sv_workers s)(v := wk)"
  shows "workers_ok s'"
  unfolding workers_ok_def s'
proof (rule allI)
  fix w
  show "(((sv_workers s)(v := wk)) w \<noteq> None \<longleftrightarrow> rs_active (state_of w m)) \<and>
      (rs_pending (state_of w m) \<or> rs_aborted (state_of w m) \<longrightarrow> rs_active (state_of w m))"
    using v other [of w] workers_okD [OF ok, of w] by (cases "w = v") auto
qed

lemma scheduleRestart_ok:
  assumes "workers_ok s"
  shows "workers_ok (scheduleRestart closing now sb s)"
proof -
  let ?v = "sb_EngineID sb"
  obtain d sch ex m where r: "reserveRestart now ?v False (sv_restarts s) = ((d, sch, ex), m)" by (metis prod.exhaust)
  note c = reserve_cases [OF r] and D = workers_okD [OF assms, of ?v]
  consider "ex" | "\<not> ex" "\<not> sch" | "\<not> ex" "sch" "closing" | "\<not> ex" "sch" "\<not> closing" by blast
  then show ?thesis
  proof cases
    case 1
    with r have "scheduleRestart closing now sb s = restartFailed sb (s\<lparr>sv_restarts := m\<rparr>)" by (simp add: scheduleRestart_def)
    then show ?thesis
      by (intro workers_ok_upd [OF assms, of ?v m "sv_workers s ?v"]) (use c D 1 in \<open>auto split: if_splits\<close>)
  next
    case 2
    with r have "scheduleRestart closing now sb s = s\<lparr>sv_restarts := m\<rparr>" by (simp add: scheduleRestart_def)
    then show ?thesis
      by (intro workers_ok_upd [OF assms, of ?v m "sv_workers s ?v"]) (use c D 2 in \<open>auto split: if_splits\<close>)
  next
    case 3
    with r have "scheduleRestart closing now sb s = s\<lparr>sv_restarts := snd (finishRestart ?v m)\<rparr>" by (simp add: scheduleRestart_def)
    then show ?thesis
      by (intro workers_ok_upd [OF assms, of ?v "snd (finishRestart ?v m)" "sv_workers s ?v"])
        (use c D 3 in \<open>auto simp: finishRestart_def Let_def split: if_splits\<close>)
  next
    case 4
    with r have "scheduleRestart closing now sb s =
        s\<lparr>sv_restarts := m, sv_workers := (sv_workers s)(?v \<mapsto> (sb_ID sb, Backoff (now + d)))\<rparr>" by (simp add: scheduleRestart_def)
    then show ?thesis
      by (intro workers_ok_upd [OF assms, of ?v m "Some (sb_ID sb, Backoff (now + d))"]) (use c D 4 in \<open>auto split: if_splits\<close>)
  qed
qed

lemma completeRestart_ok:
  assumes "workers_ok s"
  shows "workers_ok (completeRestart closing now i v s)"
proof -
  let ?s = "s\<lparr>sv_restarts := snd (finishRestart v (sv_restarts s)), sv_workers := (sv_workers s)(v := None)\<rparr>"
  have "workers_ok ?s"
    by (intro workers_ok_upd [OF assms, of v "snd (finishRestart v (sv_restarts s))" None])
      (auto simp: finishRestart_def Let_def)
  then show ?thesis
    by (auto simp: completeRestart_def split_def Let_def intro: scheduleRestart_ok split: sum.splits)
qed

lemma restart_retry_ok:
  assumes "workers_ok s" and "sv_workers s v \<noteq> None"
  shows "workers_ok (restart_retry closing now sb v s)"
proof -
  obtain d sch ex m where r: "reserveRestart now v True (sv_restarts s) = ((d, sch, ex), m)" by (metis prod.exhaust)
  note c = reserve_cases [OF r] and D = workers_okD [OF assms(1), of v]
  show ?thesis
  proof (cases ex)
    case True
    have "workers_ok (restartFailed sb (s\<lparr>sv_restarts := m\<rparr>))"
      by (intro workers_ok_upd [OF assms(1), of v m "sv_workers s v"]) (use c D True assms(2) in auto)
    then show ?thesis using True r completeRestart_ok by (simp add: restart_retry_def)
  next
    case False
    with r have "restart_retry closing now sb v s =
        s\<lparr>sv_restarts := m, sv_workers := (sv_workers s)(v \<mapsto> (sb_ID sb, Backoff (now + d)))\<rparr>" by (simp add: restart_retry_def)
    then show ?thesis
      by (intro workers_ok_upd [OF assms(1), of v m "Some (sb_ID sb, Backoff (now + d))"]) (use c D assms(2) False in auto)
  qed
qed

lemma handleLifecycle_ok:
  assumes "workers_ok s"
  shows "workers_ok (handleLifecycle closing now e s)"
proof -
  have "workers_ok (record_lc a b c (s\<lparr>sv_store := d\<rparr>))" for a b c d
    using assms by (simp add: workers_ok_def)
  moreover have "workers_ok (record_lc a b c s)" for a b c using assms by (simp add: workers_ok_def)
  ultimately show ?thesis using assms
    by (auto simp: handleLifecycle_def Let_def intro: scheduleRestart_ok
        split: option.splits lifecycle_kind.splits sum.splits)
qed

lemma fold_schedule_ok: "workers_ok s \<Longrightarrow> workers_ok (fold (scheduleRestart closing now) sbs s)"
  by (induction sbs arbitrary: s) (auto intro: scheduleRestart_ok)

lemma workers_ok_worker:
  assumes "workers_ok s" and "sv_workers s v \<noteq> None" and "w \<noteq> None"
    and "sv_restarts s' = sv_restarts s" and "sv_workers s' = (sv_workers s)(v := w)"
  shows "workers_ok s'"
  by (rule workers_ok_upd [OF assms(1) _ _ _ assms(4,5)]) (use workers_okD [OF assms(1), of v] assms(2,3) in auto)

lemma restart_check_ok:
  assumes "workers_ok s" and "sv_workers s v \<noteq> None"
  shows "workers_ok (restart_check closing now mounts_ok i v s)"
proof -
  have "workers_ok (restartFailed sb s)" for sb using assms(1) by (simp add: workers_ok_def)
  moreover have "workers_ok (s\<lparr>sv_workers := (sv_workers s)(v \<mapsto> (i, Cleared sb))\<rparr>)" for sb
    by (rule workers_ok_worker [OF assms]) simp_all
  ultimately show ?thesis using assms(1)
    by (auto simp: restart_check_def intro: completeRestart_ok split: sum.splits)
qed

lemma restart_start_ok:
  assumes "workers_ok s" and "sv_workers s v \<noteq> None"
  shows "workers_ok (restart_start closing now ok sb v s)"
proof -
  let ?s = "s\<lparr>sv_boots := sv_boots s @ [(v, now)], sv_running := (sv_running s)(v := ok \<or> sv_running s v)\<rparr>"
  have s: "workers_ok ?s" "sv_workers ?s v \<noteq> None" using assms by (simp_all add: workers_ok_def)
  then have "workers_ok (?s\<lparr>sv_workers := (sv_workers ?s)(v \<mapsto> (sb_ID sb, Booted sb))\<rparr>)"
    by (rule workers_ok_worker) simp_all
  with s show ?thesis by (auto simp: restart_start_def Let_def intro: completeRestart_ok restart_retry_ok)
qed

lemma restart_confirm_ok:
  assumes "workers_ok s" and "sv_workers s v \<noteq> None"
  shows "workers_ok (restart_confirm closing now status_ok sb v s)"
proof -
  have "workers_ok (record_lc a b c (s\<lparr>sv_store := d, sv_restarts := snd (finishRestart v (sv_restarts s)),
      sv_workers := (sv_workers s)(v := None)\<rparr>))" for a b c d
    by (intro workers_ok_upd [OF assms(1), of v "snd (finishRestart v (sv_restarts s))" None])
      (auto simp: finishRestart_def Let_def)
  with assms show ?thesis
    by (auto simp: restart_confirm_def intro: completeRestart_ok restart_retry_ok split: sum.splits)
qed

lemma abortRestart_state:
  "state_of v (abortRestart w m) =
     (if v = w \<and> rs_active (state_of w m) then (state_of w m)\<lparr>rs_aborted := True, rs_pending := False\<rparr> else state_of v m)"
  by (auto simp: abortRestart_def state_of_def split: option.splits)

lemma lc_step_ok:
  assumes "lc_step closing now s s'" and "workers_ok s"
  shows "workers_ok s'"
  using assms(1)
proof (cases rule: lc_step.cases)
  case consume
  have "workers_ok (s\<lparr>sv_queue := es\<rparr>)" for es using assms(2) by (simp add: workers_ok_def)
  then show ?thesis using assms(2) consume
    by (auto simp: consumeLifecycle_def intro: handleLifecycle_ok split: list.splits)
next
  case (stop_begin sb)
  then show ?thesis using assms(2) by (auto simp: workers_ok_def stop_begin_def abortRestart_state)
next
  case recovery
  then show ?thesis using assms(2) by (simp add: StartKeepHotRecovery_def fold_schedule_ok)
next
  case (check v i t mounts_ok)
  then show ?thesis using restart_check_ok [OF assms(2)] by simp
next
  case (start v i sb ok)
  then show ?thesis using restart_start_ok [OF assms(2)] by simp
next
  case (confirm v i sb status_ok)
  then show ?thesis using restart_confirm_ok [OF assms(2)] by simp
qed (use assms(2) in \<open>auto simp: workers_ok_def enqueueLifecycle_def stop_end_def\<close>)

lemma lc_reach_ok: "lc_reach now s \<Longrightarrow> workers_ok s"
proof (induction rule: lc_reach.induct)
  case (start now)
  then show ?case by (simp add: workers_ok_def idle_def state_of_def)
next
  case (step now s now' closing s')
  then show ?case using lc_step_ok by blast
qed

section \<open>The rate of restarts\<close>

text \<open>The calls on one VM's restart state in order, and the times at which a restart was granted.\<close>

datatype rs_op = Reserve time bool | Finish | Abort

fun reserve_times :: "rs_op list \<Rightarrow> time list" where
  "reserve_times [] = []"
| "reserve_times (Reserve now retry # ops) = now # reserve_times ops"
| "reserve_times (_ # ops) = reserve_times ops"

fun grants :: "string \<Rightarrow> rs_op list \<Rightarrow> restarts \<Rightarrow> time list" where
  "grants v [] m = []"
| "grants v (Reserve now retry # ops) m =
     (case reserveRestart now v retry m of ((_, scheduled, _), m') \<Rightarrow>
        (if scheduled then [now] else []) @ grants v ops m')"
| "grants v (Finish # ops) m = grants v ops (snd (finishRestart v m))"
| "grants v (Abort # ops) m = grants v ops (abortRestart v m)"

fun rs_clock :: "rs_op \<Rightarrow> time option" where
  "rs_clock (Reserve now _) = Some now"
| "rs_clock _ = None"

fun rs_run :: "string \<Rightarrow> rs_op \<Rightarrow> restarts \<Rightarrow> bool \<times> restarts" where
  "rs_run v (Reserve now retry) m = (case reserveRestart now v retry m of ((_, scheduled, _), m') \<Rightarrow> (scheduled, m'))"
| "rs_run v Finish m = (False, snd (finishRestart v m))"
| "rs_run v Abort m = (False, abortRestart v m)"

interpretation restart: sliding_window "rs_run v" rs_clock "\<lambda>m. rs_attempts (state_of v m)" restartWindow 3 for v
proof unfold_locales
  fix q m granted m'
  show "rs_clock q = None \<Longrightarrow> rs_run v q m = (granted, m') \<Longrightarrow> \<not> granted \<and> rs_attempts (state_of v m') = rs_attempts (state_of v m)"
    by (cases q) (auto simp: finishRestart_def abortRestart_state Let_def)
next
  fix q now m granted m'
  assume "rs_clock q = Some now" "rs_run v q m = (granted, m')"
  then show "\<not> granted \<and> rs_attempts (state_of v m') = rs_attempts (state_of v m) \<or>
    \<not> granted \<and> rs_attempts (state_of v m') = filter (\<lambda>t. t > now - restartWindow) (rs_attempts (state_of v m)) \<or>
    granted \<and> length (filter (\<lambda>t. t > now - restartWindow) (rs_attempts (state_of v m))) < 3 \<and>
    rs_attempts (state_of v m') = filter (\<lambda>t. t > now - restartWindow) (rs_attempts (state_of v m)) @ [now]"
    by (cases q) (auto simp: reserveRestart_def restartBackoff_def Let_def split: if_splits)
qed

lemma grants_window: "grants v ops m = window_grants (rs_run v) rs_clock ops m"
  by (induction v ops m rule: grants.induct) (auto split: prod.splits)

lemma reserve_times_window: "reserve_times ops = window_times rs_clock ops"
  by (induction ops rule: reserve_times.induct) auto

text \<open>
  Restarts are rate limited. Whatever exits, retries, aborts and completions happen to a VM, in time order, restarts are granted at most three
  times in any ten minutes; so a VM that cannot boot is not booted over and over.
\<close>

theorem restart_rate_bound:
  assumes "sorted (reserve_times ops)"
  shows "length (filter (\<lambda>t. t0 < t \<and> t \<le> t0 + restartWindow) (grants v ops Map.empty)) \<le> 3"
  unfolding grants_window by (rule restart.grants_bounded) (use assms in \<open>simp_all add: reserve_times_window state_of_def\<close>)

lemma restart_rate_bound_witness:
  "length (filter (\<lambda>t. 0 < t \<and> t \<le> 0 + restartWindow) (grants ''vm'' [Reserve 1 False, Reserve 2 True, Reserve 3 True, Reserve 4 True] Map.empty)) \<le> 3"
  by (rule restart_rate_bound) simp

section \<open>Exits\<close>



section \<open>Stops\<close>

text \<open>A step that leaves the worker, the abort flag and the boots of \<open>v\<close> alone.\<close>

definition keeps :: "string \<Rightarrow> server \<Rightarrow> server \<Rightarrow> bool" where
  "keeps v s s' \<longleftrightarrow> sv_workers s' v = sv_workers s v \<and>
     restartAborted v (sv_restarts s') = restartAborted v (sv_restarts s) \<and>
     filter (\<lambda>b. fst b = v) (sv_boots s') = filter (\<lambda>b. fst b = v) (sv_boots s)"

lemma keeps_trans: "keeps v s s' \<Longrightarrow> keeps v s' s'' \<Longrightarrow> keeps v s s''"
  by (simp add: keeps_def)

lemma restartAborted_state: "restartAborted x m = rs_aborted (state_of x m)"
  by (simp add: restartAborted_def state_of_def split: option.splits)

lemma keeps_schedule:
  assumes "workers_ok s" and "sv_workers s v \<noteq> None"
  shows "keeps v s (scheduleRestart closing now sb s)"
proof -
  let ?u = "sb_EngineID sb"
  obtain d sch ex m where r: "reserveRestart now ?u False (sv_restarts s) = ((d, sch, ex), m)" by (metis prod.exhaust)
  from reserve_cases [OF r] workers_okD [OF assms(1), of v] r assms(2) show ?thesis
    by (auto simp: keeps_def scheduleRestart_def restartAborted_state finishRestart_def Let_def split: if_splits)
qed

lemma keeps_fold_schedule:
  assumes "workers_ok s" and "sv_workers s v \<noteq> None"
  shows "keeps v s (fold (scheduleRestart closing now) sbs s)"
  using assms
proof (induction sbs arbitrary: s)
  case (Cons sb sbs)
  have k: "keeps v s (scheduleRestart closing now sb s)" by (rule keeps_schedule [OF Cons.prems])
  then have "sv_workers (scheduleRestart closing now sb s) v \<noteq> None" using Cons.prems(2) by (simp add: keeps_def)
  from Cons.IH [OF scheduleRestart_ok [OF Cons.prems(1)] this] k show ?case by (auto intro: keeps_trans)
qed (simp add: keeps_def)

lemma keeps_complete:
  assumes "workers_ok s" and "sv_workers s v \<noteq> None" and "w \<noteq> v"
  shows "keeps v s (completeRestart closing now i w s)"
proof -
  let ?s = "s\<lparr>sv_restarts := snd (finishRestart w (sv_restarts s)), sv_workers := (sv_workers s)(w := None)\<rparr>"
  have ok: "workers_ok ?s"
    by (intro workers_ok_upd [OF assms(1), of w "snd (finishRestart w (sv_restarts s))" None])
      (auto simp: finishRestart_def Let_def)
  have k: "keeps v s ?s" using assms(3) by (auto simp: keeps_def restartAborted_state finishRestart_def Let_def)
  have "sv_workers ?s v \<noteq> None" using assms(2,3) by simp
  from keeps_schedule [OF ok this] keeps_trans [OF k] k show ?thesis
    by (auto simp: completeRestart_def split_def Let_def split: sum.splits)
qed

lemma keeps_store:
  assumes "sv_restarts s' = sv_restarts s" "sv_workers s' = sv_workers s" "sv_boots s' = sv_boots s"
  shows "keeps v s s'"
  using assms by (simp add: keeps_def)

lemma keeps_retry:
  assumes "workers_ok s" and "sv_workers s v \<noteq> None" and "w \<noteq> v" and "sv_workers s w \<noteq> None"
  shows "keeps v s (restart_retry closing now sb w s)"
proof -
  obtain d sch ex m where r: "reserveRestart now w True (sv_restarts s) = ((d, sch, ex), m)" by (metis prod.exhaust)
  note c = reserve_cases [OF r] and D = workers_okD [OF assms(1), of w]
  let ?f = "restartFailed sb (s\<lparr>sv_restarts := m\<rparr>)"
  have "workers_ok ?f"
    by (intro workers_ok_upd [OF assms(1), of w m "sv_workers s w"]) (use c D assms(4) in auto)
  moreover have k: "keeps v s ?f" using c assms(3) by (auto simp: keeps_def restartAborted_state)
  ultimately have "keeps v s (completeRestart closing now (sb_ID sb) w ?f)"
    using keeps_complete [of ?f v w] assms(2,3) by (auto intro: keeps_trans)
  moreover have "keeps v s (s\<lparr>sv_restarts := m, sv_workers := (sv_workers s)(w \<mapsto> (sb_ID sb, Backoff (now + d)))\<rparr>)"
    using c assms(3) by (auto simp: keeps_def restartAborted_state)
  ultimately show ?thesis using r by (simp add: restart_retry_def)
qed

lemma keeps_check:
  assumes "workers_ok s" and "sv_workers s v \<noteq> None" and "w \<noteq> v"
  shows "keeps v s (restart_check closing now mounts_ok i w s)"
proof -
  have "keeps v s (completeRestart closing now i w (restartFailed sb s))" for sb
  proof (rule keeps_trans [OF keeps_store])
    have "workers_ok (restartFailed sb s)" using assms(1) by (simp add: workers_ok_def)
    then show "keeps v (restartFailed sb s) (completeRestart closing now i w (restartFailed sb s))"
      using assms by (intro keeps_complete) simp_all
  qed simp_all
  then show ?thesis
    using keeps_complete [OF assms] assms(3) by (auto simp: restart_check_def keeps_def split: sum.splits)
qed

lemma keeps_start:
  assumes "workers_ok s" and "sv_workers s v \<noteq> None" and "w \<noteq> v" and "sv_workers s w \<noteq> None"
  shows "keeps v s (restart_start closing now ok sb w s)"
proof -
  let ?s = "s\<lparr>sv_boots := sv_boots s @ [(w, now)], sv_running := (sv_running s)(w := ok \<or> sv_running s w)\<rparr>"
  have k: "keeps v s ?s" using assms(3) by (simp add: keeps_def)
  have ok: "workers_ok ?s" using assms(1) by (simp add: workers_ok_def)
  have "keeps v s (completeRestart closing now (sb_ID sb) w ?s)" "keeps v s (restart_retry closing now sb w ?s)"
    using keeps_complete [OF ok] keeps_retry [OF ok] keeps_trans [OF k] assms by simp_all
  with k assms(3) show ?thesis by (auto simp: restart_start_def Let_def keeps_def)
qed

lemma keeps_confirm:
  assumes "workers_ok s" and "sv_workers s v \<noteq> None" and "w \<noteq> v" and "sv_workers s w \<noteq> None"
  shows "keeps v s (restart_confirm closing now status_ok sb w s)"
proof -
  have "keeps v s (record_lc a b c (s\<lparr>sv_store := d, sv_restarts := snd (finishRestart w (sv_restarts s)),
      sv_workers := (sv_workers s)(w := None)\<rparr>))" for a b c d
    using assms(3) by (auto simp: keeps_def restartAborted_state finishRestart_def Let_def)
  then show ?thesis
    using keeps_complete [OF assms(1-3)] keeps_retry [OF assms] by (auto simp: restart_confirm_def split: sum.splits)
qed

lemma keeps_handle:
  assumes "workers_ok s" and "sv_workers s v \<noteq> None"
  shows "keeps v s (handleLifecycle closing now e s)"
proof -
  let ?s = "\<lambda>a b c d. record_lc a b c (s\<lparr>sv_store := d\<rparr>)"
  have k: "keeps v s (?s a b c d)" for a b c d by (rule keeps_store) simp_all
  have "workers_ok (?s a b c d)" for a b c d using assms(1) by (simp add: workers_ok_def)
  then have "keeps v s (scheduleRestart closing now sb (?s a b c d))" for sb a b c d
    using assms(2) by (intro keeps_trans [OF k [of a b c d]] keeps_schedule) simp_all
  moreover have "keeps v s (record_lc a b c s)" "keeps v s s" for a b c by (simp_all add: keeps_def)
  ultimately show ?thesis using k
    by (auto simp: handleLifecycle_def Let_def split: option.splits lifecycle_kind.splits sum.splits)
qed

lemma complete_clears_abort: "\<not> restartAborted v (sv_restarts (completeRestart closing now i v s)) \<and>
    sv_boots (completeRestart closing now i v s) = sv_boots s"
proof -
  have *: "\<not> rs_aborted (state_of v (sv_restarts s')) \<Longrightarrow>
      \<not> rs_aborted (state_of v (sv_restarts (scheduleRestart cl now sb s'))) \<and>
      sv_boots (scheduleRestart cl now sb s') = sv_boots s'" for cl sb s'
  proof -
    assume "\<not> rs_aborted (state_of v (sv_restarts s'))"
    moreover obtain d sch ex m where r: "reserveRestart now (sb_EngineID sb) False (sv_restarts s') = ((d, sch, ex), m)"
      by (metis prod.exhaust)
    ultimately show ?thesis using reserve_cases [OF r]
      by (auto simp: scheduleRestart_def finishRestart_def Let_def split: if_splits)
  qed
  show ?thesis
    by (auto simp: completeRestart_def restartAborted_state split_def Let_def finishRestart_def * split: sum.splits)
qed

text \<open>
  A stop seen in time cancels the restart. In any reachable state, while a worker is backing off and its owner has
  asked for a stop, no step of anyone boots the VM by a restart: the worker stays in its wait with the
  abort noted, or its restart is over.
\<close>

theorem aborted_restart_never_boots:
  assumes "lc_reach now s" and "lc_step closing now' s s'"
    and "sv_workers s v = Some (i, Backoff t)" and "restartAborted v (sv_restarts s)"
  shows "filter (\<lambda>b. fst b = v) (sv_boots s') = filter (\<lambda>b. fst b = v) (sv_boots s) \<and>
    (sv_workers s' v = Some (i, Backoff t) \<and> restartAborted v (sv_restarts s') \<or> \<not> restartAborted v (sv_restarts s'))"
proof -
  have ok: "workers_ok s" by (rule lc_reach_ok [OF assms(1)])
  have wv: "sv_workers s v \<noteq> None" using assms(3) by simp
  have same: ?thesis if "keeps v s s'" using that assms(3,4) by (simp add: keeps_def)
  from assms(2) show ?thesis
  proof (cases rule: lc_step.cases)
    case consume
    have "workers_ok (s\<lparr>sv_queue := es\<rparr>)" for es using ok by (simp add: workers_ok_def)
    then have "keeps v s (handleLifecycle closing now' e (s\<lparr>sv_queue := es\<rparr>))" for e es
      using wv by (intro keeps_trans [OF keeps_store keeps_handle]) simp_all
    then show ?thesis using consume by (intro same) (auto simp: consumeLifecycle_def keeps_def split: list.splits)
  next
    case (check w j u mounts_ok)
    show ?thesis
    proof (cases "w = v")
      case True
      with check assms(3,4) have "s' = completeRestart closing now' i v s" by (simp add: restart_check_def)
      then show ?thesis using complete_clears_abort by simp
    next
      case False
      then show ?thesis using check keeps_check [OF ok wv] by (intro same) simp
    qed
  next
    case (start w j sb b)
    then have "w \<noteq> v" using assms(3) by auto
    then show ?thesis using start keeps_start [OF ok wv] by (intro same) simp
  next
    case (confirm w j sb b)
    then have "w \<noteq> v" using assms(3) by auto
    then show ?thesis using confirm keeps_confirm [OF ok wv] by (intro same) simp
  next
    case (stop_begin sb)
    then show ?thesis using assms(3,4) by (auto simp: stop_begin_def restartAborted_state abortRestart_state)
  next
    case recovery
    then show ?thesis using keeps_fold_schedule [OF ok wv] by (intro same) (simp add: StartKeepHotRecovery_def)
  qed (use assms(3,4) in \<open>auto simp: enqueueLifecycle_def stop_end_def\<close>)
qed

definition example_sandbox :: Sandbox where
  "example_sandbox = \<lparr>sb_ID = ''sb1'', sb_Name = ''db'', sb_TemplateID = [], sb_EngineID = ''vm1'', sb_Status = ''running'',
     sb_IP = [], sb_EngineMeta = [], sb_NetPolicy = [], sb_CreatedBy = ''alice'', sb_CreatedAt = 0, sb_StoppedAt = None,
     sb_KeepHot = True, sb_HasInit = False, sb_ShellTokenHash = [], sb_CPUs = 0, sb_MemoryMB = 512, sb_DiskSizeMB = 0,
     sb_Image = ''minimal'', sb_Labels = [], sb_restart_pending = False\<rparr>"

definition example_exit :: lifecycle_event where
  "example_exit = \<lparr>le_Kind = VMExited, le_EngineID = ''vm1'', le_SandboxID = ''sb1'', le_UserID = ''alice''\<rparr>"

text \<open>A kept-hot sandbox that runs, crashes, and whose exit has been handled: its worker is due at once.\<close>

definition crash1 :: server where
  "crash1 = (let s = idle\<lparr>sv_store := after empty_db (sandbox_exec (OpCreate example_sandbox) empty_db)\<rparr> in
     s\<lparr>sv_running := (sv_running s)(''vm1'' := True), sv_store := after (sv_store s) (UpdateSandboxStatus ''sb1'' ''running'' (sv_store s))\<rparr>)"

definition crash2 :: server where
  "crash2 = enqueueLifecycle False example_exit (crash1\<lparr>sv_running := (sv_running crash1)(''vm1'' := False)\<rparr>)"

definition crash3 :: server where
  "crash3 = consumeLifecycle False 5 crash2"

lemma crash_reachable: "lc_reach 5 crash3"
proof -
  let ?s = "idle\<lparr>sv_store := after (sv_store idle) (sandbox_exec (OpCreate example_sandbox) (sv_store idle))\<rparr>"
  have 1: "lc_reach 5 ?s"
    using lc_reach.step [OF lc_reach.start order_refl lc_step.other_write [where s = idle]] by blast
  have "lc_reach 5 (?s\<lparr>sv_running := (sv_running ?s)(''vm1'' := True),
      sv_store := after (sv_store ?s) (UpdateSandboxStatus ''sb1'' ''running'' (sv_store ?s))\<rparr>)"
    using lc_reach.step [OF 1 order_refl lc_step.owner_start] by blast
  then have 2: "lc_reach 5 crash1" by (simp add: crash1_def Let_def idle_def)
  have "sv_running crash1 ''vm1''" by (simp add: crash1_def Let_def)
  then have "lc_step False 5 crash1 crash2"
    unfolding crash2_def by (rule lc_step.vm_exit) (simp_all add: example_exit_def)
  from lc_reach.step [OF 2 order_refl this] have "lc_reach 5 crash2" .
  from lc_reach.step [OF this order_refl lc_step.consume] show ?thesis unfolding crash3_def .
qed

lemma crash3_worker: "sv_workers crash3 ''vm1'' = Some (''sb1'', Backoff 5)"
  by code_simp


lemma aborted_restart_never_boots_witness:
  "filter (\<lambda>b. fst b = ''vm1'') (sv_boots (restart_check False 6 True ''sb1'' ''vm1'' (stop_begin example_sandbox crash3))) =
   filter (\<lambda>b. fst b = ''vm1'') (sv_boots (stop_begin example_sandbox crash3))"
proof -
  let ?s = "stop_begin example_sandbox crash3"
  have "lc_reach 5 ?s" using lc_reach.step [OF crash_reachable order_refl lc_step.stop_begin] by blast
  moreover have w: "sv_workers ?s ''vm1'' = Some (''sb1'', Backoff 5)" using crash3_worker by (simp add: stop_begin_def)
  moreover have "lc_step False 6 ?s (restart_check False 6 True ''sb1'' ''vm1'' ?s)"
    using w by (rule lc_step.check) simp
  moreover have "restartAborted ''vm1'' (sv_restarts ?s)" by code_simp
  ultimately show ?thesis using aborted_restart_never_boots by blast
qed


end
