(* ===== verification/Grant_Service.thy ===== *)
theory Grant_Service
  imports Broker Control
begin

text \<open>
  The API's side of credential substitution, \<^verbatim>\<open>src/pkg/server/grant_handlers.go\<close>: which hosts a grant may name,
  how grants and the sandbox's CA are minted, copied to a clone, listed, revoked and discarded. The
  JSON decoding of a stored policy, \<^verbatim>\<open>time.ParseDuration\<close> (whose fractions are floating point), the making of a certificate and
  encryption are arguments. The properties connect the grants to the guard below and to the broker above:
  a grant reaches no host the sandbox's own policy bars, and a clone holds no more than its source did.
\<close>

section \<open>Requests\<close>

record grant_view =
  gv_grant :: SecretGrant
  gv_SandboxName :: string
  gv_Status :: string

definition viewGrant :: "SecretGrant \<Rightarrow> string \<Rightarrow> time \<Rightarrow> grant_view" where
  "viewGrant g sandboxName now =
     \<lparr>gv_grant = g, gv_SandboxName = sandboxName,
      gv_Status = (if g_RevokedAt g \<noteq> None then ''revoked'' else if \<not> Live now g then ''expired'' else ''active'')\<rparr>"

text \<open>A duration in nanoseconds; \<open>Inr 0\<close> for no expiry, \<open>Inl\<close> for an invalid text.\<close>

definition parseTTL :: "(string \<Rightarrow> int option) \<Rightarrow> string \<Rightarrow> unit + int" where
  "parseTTL parse_duration s =
     (if s = [] then Inr 0
      else if has_suffix s ''d'' then
        (case Atoi (trim_suffix s ''d'') of
           None \<Rightarrow> Inl ()
         | Some n \<Rightarrow> if n \<le> 0 \<or> n > 3650 then Inl () else Inr (n * 24 * 3600 * second))
      else (case parse_duration s of
           None \<Rightarrow> Inl ()
         | Some d \<Rightarrow> if d \<le> 0 then Inl () else Inr d))"

definition sandboxEgress :: "(string \<Rightarrow> net_policy_wire option) \<Rightarrow> Sandbox \<Rightarrow> net_policy_wire option" where
  "sandboxEgress unmarshal sb = (if sb_NetPolicy sb = [] then None else unmarshal (sb_NetPolicy sb))"

datatype grant_error =
    HostRequired
  | NoPolicy
  | InvalidPolicy wire_error
  | SandboxNoNetwork
  | BadHost string pattern_error
  | OutsideAllowList string

definition coveredBy :: "host_pattern list \<Rightarrow> host_pattern \<Rightarrow> bool" where
  "coveredBy rules p = list_ex (\<lambda>a. Covers a p) rules"

text \<open>The loop over the hosts asked for, with the names collected so far.\<close>

fun grant_hosts_loop :: "bool \<Rightarrow> host_pattern list \<Rightarrow> string list \<Rightarrow> string list \<Rightarrow> grant_error + string list" where
  "grant_hosts_loop den rules [] out = Inr out"
| "grant_hosts_loop den rules (h # hs) out =
     (case ParseHostPattern h of
        Inl e \<Rightarrow> Inl (BadHost h e)
      | Inr p \<Rightarrow>
          if den \<and> \<not> coveredBy rules p then Inl (OutsideAllowList h)
          else grant_hosts_loop den rules hs (if hp_String p \<in> set out then out else out @ [hp_String p]))"

definition grantHosts :: "string list \<Rightarrow> net_policy_wire option \<Rightarrow> grant_error + string list" where
  "grantHosts hosts np =
     (if hosts = [] then Inl HostRequired
      else case np of
        None \<Rightarrow> Inl NoPolicy
      | Some w \<Rightarrow>
          (case ValidateWire w of
             Some e \<Rightarrow> Inl (InvalidPolicy e)
           | None \<Rightarrow>
               if NoNetwork (Some w) then Inl SandboxNoNetwork
               else let den = (w_Default w = ''deny'');
                        rules = (if den then concat (map (\<lambda>h. case ParseHostPattern h of Inl _ \<Rightarrow> [] | Inr p \<Rightarrow> [p]) (w_AllowHosts w)) else []) in
                 grant_hosts_loop den rules hosts []))"

section \<open>The substitution state of a sandbox\<close>

text \<open>\<open>ca\<close> is the outcome of \<open>NewSandboxCA\<close>, the certificate and the key; \<open>encrypt\<close> may fail.\<close>

definition mintSandboxCA ::
  "(string \<times> bytes) option \<Rightarrow> (bytes \<Rightarrow> bytes option) \<Rightarrow> time \<Rightarrow> string \<Rightarrow> string \<Rightarrow> db \<Rightarrow> (string \<times> db) option" where
  "mintSandboxCA ca encrypt now userID sandboxID d =
     (case ca of
        None \<Rightarrow> None
      | Some (certPEM, keyPEM) \<Rightarrow>
          (case encrypt keyPEM of
             None \<Rightarrow> None
           | Some keyEnc \<Rightarrow>
               Some (certPEM, PutSandboxCA now \<lparr>ca_SandboxID = sandboxID, ca_UserID = userID, ca_CertPEM = certPEM,
                 ca_KeyEnc = keyEnc, ca_CreatedAt = 0\<rparr> d)))"

definition captureSubstitution :: "time \<Rightarrow> string \<Rightarrow> string \<Rightarrow> db \<Rightarrow> sql_error + SnapshotSubstitution" where
  "captureSubstitution now userID sandboxID d =
     (case (case GetSandboxCA sandboxID d of
              Inr ca \<Rightarrow> Inr (if ca_UserID ca = userID then Some ca else None)
            | Inl ErrNoRows \<Rightarrow> Inr None
            | Inl e \<Rightarrow> Inl e) of
        Inl e \<Rightarrow> Inl e
      | Inr ca \<Rightarrow>
          Inr \<lparr>sub_CA = ca,
               sub_Grants = map (\<lambda>g. \<lparr>sg_SecretName = g_SecretName g, sg_Hosts = g_Hosts g,
                   sg_Placeholder = g_Placeholder g, sg_ExpiresAt = g_ExpiresAt g\<rparr>)
                 (filter (\<lambda>g. g_UserID g = userID \<and> Live now g) (ListSandboxSecretGrants sandboxID d))\<rparr>)"

text \<open>The loop of \<open>inheritSubstitution\<close>: one grant after the other, \<open>ids\<close> the ids \<open>genID\<close> draws for those that get so far.\<close>

definition copied_grant :: "time \<Rightarrow> string \<Rightarrow> string \<Rightarrow> string \<Rightarrow> SnapshotGrant \<Rightarrow> SecretGrant" where
  "copied_grant now i userID sandboxID g =
     \<lparr>g_ID = i, g_UserID = userID, g_SecretName = sg_SecretName g, g_SandboxID = sandboxID, g_Hosts = sg_Hosts g,
      g_Placeholder = sg_Placeholder g, g_CreatedAt = now, g_ExpiresAt = sg_ExpiresAt g, g_RevokedAt = None\<rparr>"

fun inherit_grants ::
  "time \<Rightarrow> (nat \<Rightarrow> string) \<Rightarrow> string \<Rightarrow> string \<Rightarrow> SnapshotGrant list \<Rightarrow> nat \<Rightarrow> db \<Rightarrow> SecretGrant list \<times> db" where
  "inherit_grants now ids userID to [] n d = ([], d)"
| "inherit_grants now ids userID to (g # gs) n d =
     (case GetSecret userID (sg_SecretName g) d of
        Inl _ \<Rightarrow> inherit_grants now ids userID to gs n d
      | Inr _ \<Rightarrow>
          (let copied = copied_grant now (ids n) userID to g in
           case CreateSecretGrant now copied d of
             Inl _ \<Rightarrow> inherit_grants now ids userID to gs (Suc n) d
           | Inr d' \<Rightarrow> (case inherit_grants now ids userID to gs (Suc n) d' of (made, d'') \<Rightarrow> (copied # made, d''))))"

definition inheritSubstitution ::
  "time \<Rightarrow> (nat \<Rightarrow> string) \<Rightarrow> string \<Rightarrow> string \<Rightarrow> SnapshotSubstitution \<Rightarrow> db \<Rightarrow> SecretGrant list \<times> db" where
  "inheritSubstitution now ids userID to sub d =
     (let d' = (case sub_CA sub of
          None \<Rightarrow> d
        | Some ca \<Rightarrow> PutSandboxCA now (ca\<lparr>ca_SandboxID := to, ca_UserID := userID, ca_CreatedAt := now\<rparr>) d) in
      inherit_grants now ids userID to (sub_Grants sub) 0 d')"

definition inheritFromSandbox :: "time \<Rightarrow> (nat \<Rightarrow> string) \<Rightarrow> string \<Rightarrow> string \<Rightarrow> string \<Rightarrow> db \<Rightarrow> SecretGrant list \<times> db" where
  "inheritFromSandbox now ids userID src to d =
     (case captureSubstitution now userID src d of
        Inl _ \<Rightarrow> ([], d)
      | Inr sub \<Rightarrow> inheritSubstitution now ids userID to sub d)"

definition liveSnapshotSource :: "time \<Rightarrow> string \<Rightarrow> string \<Rightarrow> db \<Rightarrow> SnapshotSource \<times> SnapshotSubstitution" where
  "liveSnapshotSource now userID sourceID d =
     (let none = \<lparr>src_Image = [], src_DiskSizeMB = 0, src_HasInit = False\<rparr> in
      case GetSandboxByID sourceID d of
        Inl _ \<Rightarrow> (none, no_substitution)
      | Inr src \<Rightarrow>
          if sb_CreatedBy src \<noteq> userID then (none, no_substitution)
          else (\<lparr>src_Image = sb_Image src, src_DiskSizeMB = sb_DiskSizeMB src, src_HasInit = sb_HasInit src\<rparr>,
                case captureSubstitution now userID (sb_ID src) d of Inl _ \<Rightarrow> no_substitution | Inr sub \<Rightarrow> sub))"

definition discardSubstitution :: "string \<Rightarrow> db \<Rightarrow> db" where
  "discardSubstitution sandboxID d = DeleteSandboxCA sandboxID (DeleteSandboxSecretGrants sandboxID d)"

text \<open>\<open>rand\<close> are the random bytes of the placeholder and \<open>i\<close> the generated id.\<close>

definition newGrant ::
  "bytes option \<Rightarrow> string \<Rightarrow> time \<Rightarrow> string \<Rightarrow> string \<Rightarrow> string \<Rightarrow> string list \<Rightarrow> int \<Rightarrow> db \<Rightarrow> (SecretGrant \<times> db) option" where
  "newGrant rand i now userID secret sandboxID hosts ttl d =
     (case NewPlaceholder rand of
        None \<Rightarrow> None
      | Some ph \<Rightarrow>
          (let g = \<lparr>g_ID = i, g_UserID = userID, g_SecretName = secret, g_SandboxID = sandboxID, g_Hosts = hosts,
                 g_Placeholder = ph, g_CreatedAt = now, g_ExpiresAt = (if ttl > 0 then Some (now + ttl) else None), g_RevokedAt = None\<rparr> in
           case CreateSecretGrant now g d of Inl _ \<Rightarrow> None | Inr d' \<Rightarrow> Some (g, d')))"

section \<open>Handlers\<close>

text \<open>A reply is its status code and what it shows; the audit events are (type, user, sandbox).\<close>

type_synonym audit = "(string \<times> string \<times> string) list"

definition recordGrant :: "SecretGrant \<Rightarrow> audit" where
  "recordGrant g = [(''secret.granted'', g_UserID g, g_SandboxID g)]"

definition announceGrants :: "time \<Rightarrow> SecretGrant list \<Rightarrow> string \<Rightarrow> grant_view list \<times> audit" where
  "announceGrants now gs sandboxName = (map (\<lambda>g. viewGrant g sandboxName now) gs, concat (map recordGrant gs))"

record grant_request =
  gr_Sandbox :: string
  gr_Hosts :: "string list"
  gr_TTL :: string

text \<open>
  What the handler takes from outside: the body when it is valid JSON, the JSON and duration parsers, whether the
  guest agent can install a CA (\<open>None\<close> when the engine cannot say), and the random draws.
\<close>

record grant_env =
  ge_body :: "grant_request option"
  ge_unmarshal :: "string \<Rightarrow> net_policy_wire option"
  ge_duration :: "string \<Rightarrow> int option"
  ge_agent_ok :: "bool option"
  ge_rand :: "bytes option"
  ge_id :: string

definition handleSecretGrantCreate ::
  "grant_env \<Rightarrow> string \<Rightarrow> time \<Rightarrow> string \<Rightarrow> string \<Rightarrow> db \<Rightarrow> nat \<times> grant_view option \<times> audit \<times> db" where
  "handleSecretGrantCreate env meth now userID name d =
     (let fail = (\<lambda>code. (code :: nat, None, [], d)) in
      if meth \<noteq> ''POST'' then fail 405
      else case ge_body env of
        None \<Rightarrow> fail 400
      | Some req \<Rightarrow>
          (case GetSecret userID name d of
             Inl _ \<Rightarrow> fail 404
           | Inr _ \<Rightarrow>
               (case parseTTL (ge_duration env) (gr_TTL req) of
                  Inl _ \<Rightarrow> fail 400
                | Inr ttl \<Rightarrow>
                    (case GetSandbox userID (gr_Sandbox req) d of
                       Inl _ \<Rightarrow> fail 404
                     | Inr sb \<Rightarrow>
                         (case grantHosts (gr_Hosts req) (sandboxEgress (ge_unmarshal env) sb) of
                            Inl _ \<Rightarrow> fail 400
                          | Inr hosts \<Rightarrow>
                              if ge_agent_ok env = None then fail 501
                              else if ge_agent_ok env = Some False then fail 500
                              else (case GetSandboxCA (sb_ID sb) d of
                                  Inl ErrNoRows \<Rightarrow> fail 409
                                | Inl _ \<Rightarrow> fail 500
                                | Inr _ \<Rightarrow>
                                    (case newGrant (ge_rand env) (ge_id env) now userID name (sb_ID sb) hosts ttl d of
                                       None \<Rightarrow> fail 500
                                     | Some (g, d') \<Rightarrow> (201, Some (viewGrant g (sb_Name sb) now), recordGrant g, d'))))))))"

definition handleSecretGrants :: "string \<Rightarrow> time \<Rightarrow> string \<Rightarrow> db \<Rightarrow> nat \<times> grant_view list" where
  "handleSecretGrants meth now userID d =
     (if meth \<noteq> ''GET'' then (405, [])
      else let names = map (\<lambda>sb. (sb_ID sb, sb_Name sb)) (rev (ListSandboxes userID d)) in
        (200, map (\<lambda>g. viewGrant g (label_of names (g_SandboxID g)) now) (ListSecretGrants userID d)))"

definition handleSecretGrantRevoke :: "string \<Rightarrow> time \<Rightarrow> string \<Rightarrow> string \<Rightarrow> db \<Rightarrow> nat \<times> audit \<times> db" where
  "handleSecretGrantRevoke meth now userID i d =
     (if meth \<noteq> ''DELETE'' then (405, [], d)
      else case GetSecretGrant userID i d of
        Inl _ \<Rightarrow> (404, [], d)
      | Inr g \<Rightarrow>
          (case RevokeSecretGrant userID i now d of
             Inl _ \<Rightarrow> (500, [], d)
           | Inr d' \<Rightarrow> (200, [(''secret.revoked'', userID, g_SandboxID g)], d')))"

text \<open>The \<open>DELETE\<close> of a secret, in \<^verbatim>\<open>admin_handlers.go\<close>.\<close>

definition delete_secret :: "string \<Rightarrow> string \<Rightarrow> db \<Rightarrow> nat \<times> db" where
  "delete_secret userID name d =
     (case DeleteSecret userID name d of
        Inl _ \<Rightarrow> (404, d)
      | Inr d' \<Rightarrow> (200, DeleteSecretGrantsForSecret userID name d'))"

section \<open>Grants stay within the egress policy\<close>

lemma coveredBy_iff: "coveredBy rules p \<longleftrightarrow> (\<exists>a \<in> set rules. Covers a p)"
  by (auto simp: coveredBy_def list_ex_iff)

lemma grant_hosts_loop_Inr:
  "grant_hosts_loop den rules hs acc = Inr out \<Longrightarrow> s \<in> set out \<Longrightarrow> s \<notin> set acc \<Longrightarrow>
   \<exists>h \<in> set hs. \<exists>p. ParseHostPattern h = Inr p \<and> s = hp_String p \<and> (den \<longrightarrow> coveredBy rules p)"
proof (induction hs arbitrary: acc)
  case (Cons h hs)
  from Cons.prems(1) obtain p where p: "ParseHostPattern h = Inr p" "den \<longrightarrow> coveredBy rules p"
    and rest: "grant_hosts_loop den rules hs (if hp_String p \<in> set acc then acc else acc @ [hp_String p]) = Inr out"
    by (auto split: sum.splits if_splits)
  show ?case
  proof (cases "s = hp_String p")
    case False
    with Cons.IH [OF rest Cons.prems(2)] Cons.prems(3) show ?thesis by auto
  qed (use p in auto)
qed simp

lemma allow_rules:
  assumes "map_res parse_allow_host hs = Inr ps"
  shows "concat (map (\<lambda>h. case ParseHostPattern h of Inl _ \<Rightarrow> [] | Inr p \<Rightarrow> [p]) hs) = ps"
  using assms by (induction hs arbitrary: ps)
    (auto simp: res_bind_Inr_iff parse_allow_host_def map_sum_def split: sum.splits)

lemma allow_rules_parsed:
  assumes "map_res parse_allow_host hs = Inr ps" and "p \<in> set ps"
  shows "\<exists>h. ParseHostPattern h = Inr p"
  using assms by (induction hs arbitrary: ps)
    (auto simp: res_bind_Inr_iff parse_allow_host_def map_sum_def split: sum.splits)

lemma PolicyFromWire_Inr:
  assumes "PolicyFromWire w = Inr pol"
  shows "map_res parse_allow_host (w_AllowHosts w) = Inr (AllowHosts pol)" and "wire_posture (w_Default w) = Inr (Default pol)"
  using assms by (auto simp: PolicyFromWire_def res_bind_Inr_iff)

lemma grantHosts_within:
  assumes "grantHosts hosts (Some w) = Inr out" and "PolicyFromWire w = Inr pol"
    and "\<And>p. p \<in> set (AllowHosts pol) \<Longrightarrow> \<not> has_suffix (hp_suffix p) ''.''"
    and "hostGranted out host"
  shows "AllowsName pol host"
proof (cases "w_Default w = ''deny''")
  case False
  with PolicyFromWire_Inr(2) [OF assms(2)] show ?thesis
    by (auto simp: wire_posture_def AllowsName_def split: if_splits)
next
  case True
  let ?rules = "AllowHosts pol"
  from assms(1) have loop: "grant_hosts_loop True ?rules hosts [] = Inr out"
    using True allow_rules [OF PolicyFromWire_Inr(1) [OF assms(2)]]
    by (auto simp: grantHosts_def Let_def split: if_splits option.splits)
  from assms(4) obtain s q where s: "s \<in> set out" "ParseHostPattern s = Inr q" "Match q host"
    by (auto simp: hostGranted_def list_ex_iff split: sum.splits) (metis sum.exhaust)
  from grant_hosts_loop_Inr [OF loop s(1)] obtain h p a where
    p: "ParseHostPattern h = Inr p" "s = hp_String p" "a \<in> set ?rules" "Covers a p"
    by (auto simp: coveredBy_iff)
  obtain h' where "ParseHostPattern h' = Inr a"
    using allow_rules_parsed [OF PolicyFromWire_Inr(1) [OF assms(2)] p(3)] by blast
  then have "Match a host"
    using granted_within_rule [of h' a h p q host] p s assms(3) [OF p(3)] by blast
  with p(3) show ?thesis by (auto simp: AllowsName_def hostAllowed_def list_ex_iff)
qed

lemma grantHosts_policy:
  assumes "grantHosts hosts np = Inr out"
  obtains w pol where "np = Some w" "PolicyFromWire w = Inr pol" "hosts \<noteq> []"
proof -
  from assms obtain w where w: "np = Some w" "ValidateWire w = None" "\<not> NoNetwork (Some w)" "hosts \<noteq> []"
    by (auto simp: grantHosts_def split: if_splits option.splits)
  then obtain pol where "PolicyFromWire w = Inr pol"
    by (auto simp: ValidateWire_def NoNetwork_def split: sum.splits if_splits)
  with w that show thesis by blast
qed

lemma create_201:
  assumes "handleSecretGrantCreate env meth now userID name d = (201, v, ev, d')"
  obtains req sb ttl hosts g sec ca where "ge_body env = Some req" "GetSecret userID name d = Inr sec"
    "GetSandbox userID (gr_Sandbox req) d = Inr sb" "parseTTL (ge_duration env) (gr_TTL req) = Inr ttl"
    "grantHosts (gr_Hosts req) (sandboxEgress (ge_unmarshal env) sb) = Inr hosts" "GetSandboxCA (sb_ID sb) d = Inr ca"
    "newGrant (ge_rand env) (ge_id env) now userID name (sb_ID sb) hosts ttl d = Some (g, d')"
    "v = Some (viewGrant g (sb_Name sb) now)"
  using assms
  by (auto simp: handleSecretGrantCreate_def Let_def split: if_splits option.splits sum.splits sql_error.splits)

lemma newGrant_Some:
  assumes "newGrant rand i now userID secret sandboxID hosts ttl d = Some (g, d')"
  shows "g_Hosts g = hosts \<and> g_UserID g = userID \<and> g_SandboxID g = sandboxID \<and> g_SecretName g = secret \<and> g_RevokedAt g = None \<and>
    g_ExpiresAt g = (if ttl > 0 then Some (now + ttl) else None) \<and> NewPlaceholder rand = Some (g_Placeholder g) \<and>
    d' = d\<lparr>secret_grants := secret_grants d @ [g]\<rparr>"
  using assms by (auto simp: newGrant_def Let_def CreateSecretGrant_def split: option.splits sum.splits if_splits dest!: sql_insert_Inr)

text \<open>
  C4: a grant never reaches beyond the sandbox's own egress policy. When the request to grant a
  secret is answered 201, the caller owns the secret and the sandbox, the sandbox's stored policy builds an egress policy
  that netd enforces, and every host the broker will honour the new grant for is a name that
  policy lets the guest resolve and dial. (An allow rule written as a wildcard with a
  trailing dot hidden by white space, which names no host, is excluded.)
\<close>

theorem grants_stay_within_egress:
  assumes "handleSecretGrantCreate env meth now userID name d = (201, Some v, ev, d')"
  shows "\<exists>sb w pol. sb \<in> set (sandboxes d) \<and> sb_ID sb = g_SandboxID (gv_grant v) \<and> sb_CreatedBy sb = userID \<and>
    sandboxEgress (ge_unmarshal env) sb = Some w \<and> PolicyFromWire w = Inr pol \<and>
    is_ok (GetSecret userID (g_SecretName (gv_grant v)) d) \<and> g_UserID (gv_grant v) = userID \<and>
    secret_grants d' = secret_grants d @ [gv_grant v] \<and>
    ((\<forall>p \<in> set (AllowHosts pol). \<not> has_suffix (hp_suffix p) ''.'') \<longrightarrow>
     (\<forall>host. hostGranted (g_Hosts (gv_grant v)) host \<longrightarrow> AllowsName pol host))"
proof -
  from assms obtain req sb ttl hosts g sec where b: "ge_body env = Some req" and r: "GetSecret userID name d = Inr sec"
    "GetSandbox userID (gr_Sandbox req) d = Inr sb"
    "grantHosts (gr_Hosts req) (sandboxEgress (ge_unmarshal env) sb) = Inr hosts"
    "newGrant (ge_rand env) (ge_id env) now userID name (sb_ID sb) hosts ttl d = Some (g, d')"
    "Some v = Some (viewGrant g (sb_Name sb) now)"
    by (rule create_201) blast
  from r(3) obtain w pol where w: "sandboxEgress (ge_unmarshal env) sb = Some w" "PolicyFromWire w = Inr pol"
    by (elim grantHosts_policy)
  note g = newGrant_Some [OF r(4)] and within = grantHosts_within [of "gr_Hosts req" w hosts pol]
  have "sb \<in> set (sandboxes d)" "sb_CreatedBy sb = userID"
    using r(2) by (auto simp: GetSandbox_def split: sum.splits dest!: query_row_Inr)
  then show ?thesis
    using r g w within by (intro exI [of _ sb] exI [of _ w] exI [of _ pol]) (simp add: viewGrant_def)
qed

section \<open>Clones\<close>

definition snapshot_grant :: "SecretGrant \<Rightarrow> SnapshotGrant" where
  "snapshot_grant g = \<lparr>sg_SecretName = g_SecretName g, sg_Hosts = g_Hosts g, sg_Placeholder = g_Placeholder g, sg_ExpiresAt = g_ExpiresAt g\<rparr>"

definition secret_exists :: "string \<Rightarrow> SnapshotGrant \<Rightarrow> db \<Rightarrow> bool" where
  "secret_exists userID g d = is_ok (GetSecret userID (sg_SecretName g) d)"

lemma snapshot_copied [simp]: "snapshot_grant (copied_grant now i u s g) = g"
  by (simp add: snapshot_grant_def copied_grant_def)

lemma copied_sel [simp]:
  "g_ID (copied_grant now i u s g) = i" "g_UserID (copied_grant now i u s g) = u" "g_SandboxID (copied_grant now i u s g) = s"
  "g_Placeholder (copied_grant now i u s g) = sg_Placeholder g" "g_RevokedAt (copied_grant now i u s g) = None"
  by (simp_all add: copied_grant_def)

lemma create_copied:
  assumes "\<And>x. x \<in> set (secret_grants d) \<Longrightarrow> g_ID x \<noteq> i"
    and "\<And>x. x \<in> set (secret_grants d) \<Longrightarrow> g_SandboxID x = to \<Longrightarrow> g_Placeholder x \<noteq> sg_Placeholder g"
  shows "CreateSecretGrant now (copied_grant now i u to g) d =
    Inr (d\<lparr>secret_grants := secret_grants d @ [copied_grant now i u to g]\<rparr>)"
  using assms
  by (fastforce simp: CreateSecretGrant_def copied_grant_def sql_insert_def secret_grants_cs_def same_def list_ex_iff Let_def
      split: option.splits)

lemma inherit_grants_exact:
  assumes "inj ids" and "\<And>k x. n \<le> k \<Longrightarrow> x \<in> set (secret_grants d) \<Longrightarrow> g_ID x \<noteq> ids k"
    and "distinct (map sg_Placeholder gs)"
    and "\<And>x. x \<in> set (secret_grants d) \<Longrightarrow> g_SandboxID x = to \<Longrightarrow> g_Placeholder x \<notin> sg_Placeholder ` set gs"
    and "inherit_grants now ids u to gs n d = (made, d')"
  shows "secret_grants d' = secret_grants d @ made \<and> map snapshot_grant made = filter (\<lambda>g. secret_exists u g d) gs \<and>
    (\<forall>g \<in> set made. g_UserID g = u \<and> g_SandboxID g = to \<and> g_RevokedAt g = None)"
  using assms(2-5)
proof (induction gs arbitrary: n d made)
  case (Cons g gs)
  show ?case
  proof (cases "GetSecret u (sg_SecretName g) d")
    case (Inl e)
    with Cons.prems Cons.IH [of n d made] show ?thesis by (simp add: secret_exists_def)
  next
    case (Inr sec)
    let ?c = "copied_grant now (ids n) u to g"
    let ?d = "d\<lparr>secret_grants := secret_grants d @ [?c]\<rparr>"
    have ins: "CreateSecretGrant now ?c d = Inr ?d"
      using Cons.prems(1,3) by (intro create_copied) auto
    obtain rest where rest: "inherit_grants now ids u to gs (Suc n) ?d = (rest, d')" "made = ?c # rest"
      using Cons.prems(4) Inr ins by (auto simp: Let_def split: prod.splits)
    have same: "secret_exists u x ?d = secret_exists u x d" for x by (simp add: secret_exists_def GetSecret_def)
    have "secret_grants d' = secret_grants ?d @ rest \<and> map snapshot_grant rest = filter (\<lambda>g. secret_exists u g ?d) gs \<and>
       (\<forall>g \<in> set rest. g_UserID g = u \<and> g_SandboxID g = to \<and> g_RevokedAt g = None)"
    proof (rule Cons.IH [OF _ _ _ rest(1)])
      show "\<And>k x. Suc n \<le> k \<Longrightarrow> x \<in> set (secret_grants ?d) \<Longrightarrow> g_ID x \<noteq> ids k"
        using Cons.prems(1) injD [OF assms(1)] by fastforce
      fix x assume x: "x \<in> set (secret_grants ?d)" "g_SandboxID x = to"
      show "g_Placeholder x \<notin> sg_Placeholder ` set gs"
      proof (cases "x = ?c")
        case False
        with Cons.prems(3) [of x] x show ?thesis by auto
      qed (use Cons.prems(2) in simp)
    qed (use Cons.prems(2) in simp)
    then show ?thesis using rest(2) Inr
      by (simp only: same) (simp add: secret_exists_def)
  qed
qed simp

lemma capture_grants:
  assumes "captureSubstitution now u s d = Inr sub"
  shows "set (sub_Grants sub) = snapshot_grant ` {g \<in> set (secret_grants d). g_SandboxID g = s \<and> g_UserID g = u \<and> Live now g}"
  using assms by (auto simp: captureSubstitution_def ListSandboxSecretGrants_def snapshot_grant_def split: sum.splits)

lemma capture_distinct:
  assumes "table_ok secret_grants_cs (secret_grants d)" and "captureSubstitution now u s d = Inr sub"
  shows "distinct (map sg_Placeholder (sub_Grants sub))"
proof -
  let ?l = "filter (\<lambda>g. g_UserID g = u \<and> Live now g) (ListSandboxSecretGrants s d)"
  have eq: "map sg_Placeholder (sub_Grants sub) = map g_Placeholder ?l"
    using assms(2) by (auto simp: captureSubstitution_def split: sum.splits)
  have "unique_rows c t \<Longrightarrow> (\<And>x. c x x) \<Longrightarrow> distinct t" for c :: "SecretGrant \<Rightarrow> SecretGrant \<Rightarrow> bool" and t
    by (induction t) auto
  from this [of "same g_ID" "secret_grants d"] assms(1) have "distinct (secret_grants d)"
    by (auto simp: table_ok_def secret_grants_cs_def same_def)
  then have "distinct ?l" by (simp add: ListSandboxSecretGrants_def order_by_def query_all_def)
  moreover have "inj_on g_Placeholder (set ?l)"
    using grants_placeholder_unique [OF assms(1)] by (auto simp: inj_on_def ListSandboxSecretGrants_def)
  ultimately show ?thesis unfolding eq by (simp only: distinct_map)
qed

lemma capture_ok: "\<exists>sub. captureSubstitution now u s d = Inr sub"
  by (auto simp: captureSubstitution_def GetSandboxCA_def query_row_Inl_iff split: sum.splits)

lemma inherit_made:
  assumes "table_ok secret_grants_cs (secret_grants d)" and "inj ids" and fresh: "\<And>k. ids k \<notin> g_ID ` set (secret_grants d)"
    and new: "to \<notin> g_SandboxID ` set (secret_grants d)" and sub: "captureSubstitution now u src d = Inr sub"
    and run: "inheritFromSandbox now ids u src to d = (made, d')"
  shows "secret_grants d' = secret_grants d @ made \<and> map snapshot_grant made = filter (\<lambda>g. secret_exists u g d) (sub_Grants sub) \<and>
    (\<forall>g \<in> set made. g_UserID g = u \<and> g_SandboxID g = to \<and> g_RevokedAt g = None)"
proof -
  define d1 where "d1 = (case sub_CA sub of None \<Rightarrow> d
        | Some ca \<Rightarrow> PutSandboxCA now (ca\<lparr>ca_SandboxID := to, ca_UserID := u, ca_CreatedAt := now\<rparr>) d)"
  have d1: "secret_grants d1 = secret_grants d" "secrets d1 = secrets d"
    by (auto simp: d1_def PutSandboxCA_def Let_def split: option.splits)
  have "inherit_grants now ids u to (sub_Grants sub) 0 d1 = (made, d')"
    using run sub by (simp add: inheritFromSandbox_def inheritSubstitution_def d1_def)
  moreover have "g_ID x \<noteq> ids k" if "x \<in> set (secret_grants d)" for x k
    using that fresh by (metis imageI)
  ultimately have "secret_grants d' = secret_grants d1 @ made \<and> map snapshot_grant made = filter (\<lambda>g. secret_exists u g d1) (sub_Grants sub) \<and>
      (\<forall>g \<in> set made. g_UserID g = u \<and> g_SandboxID g = to \<and> g_RevokedAt g = None)"
    by (intro inherit_grants_exact [OF assms(2) _ capture_distinct [OF assms(1) sub]]) (use new d1 in auto)
  moreover have "secret_exists u g d1 = secret_exists u g d" for g by (simp add: secret_exists_def GetSecret_def d1)
  ultimately show ?thesis by (simp add: d1)
qed

text \<open>Authorization depends on what a copy keeps, and on owner, sandbox and revocation.\<close>

lemma authorizes_snapshot:
  "authorizes t u s p h g \<longleftrightarrow> g_UserID g = u \<and> g_SandboxID g = s \<and> g_RevokedAt g = None \<and>
      (case sg_ExpiresAt (snapshot_grant g) of None \<Rightarrow> True | Some e \<Rightarrow> t < e) \<and>
      sg_Placeholder (snapshot_grant g) = p \<and> hostGranted (sg_Hosts (snapshot_grant g)) h"
  by (auto simp: authorizes_def Live_def snapshot_grant_def)

text \<open>
  C11: a clone can use exactly what its source can. When a sandbox is forked, at every later instant a grant authorizes a placeholder
  toward a host for the clone if and only if a grant authorizes it for the source and the secret it names
  still existed at the fork; grants of no other sandbox change. The clone's grants are its own rows with fresh ids, so
  revoking one leaves the source's in force.
\<close>

theorem clone_authorized_exactly:
  assumes "table_ok secret_grants_cs (secret_grants d)" and "inj ids" and "\<And>k. ids k \<notin> g_ID ` set (secret_grants d)"
    and "to \<notin> g_SandboxID ` set (secret_grants d)" and "now \<le> t"
    and "inheritFromSandbox now ids u src to d = (made, d')"
  shows "((\<exists>g \<in> set (secret_grants d'). authorizes t u to p h g) \<longleftrightarrow>
      (\<exists>g \<in> set (secret_grants d). authorizes t u src p h g \<and> is_ok (GetSecret u (g_SecretName g) d))) \<and>
    filter (\<lambda>g. g_SandboxID g \<noteq> to) (secret_grants d') = secret_grants d"
proof (intro conjI)
  obtain sub where sub: "captureSubstitution now u src d = Inr sub" using capture_ok by blast
  note m = inherit_made [OF assms(1-4) sub assms(6)]
  from m have made: "secret_grants d' = secret_grants d @ made" "map snapshot_grant made = filter (\<lambda>g. secret_exists u g d) (sub_Grants sub)"
    "\<forall>g \<in> set made. g_UserID g = u \<and> g_SandboxID g = to \<and> g_RevokedAt g = None" by blast+
  show "filter (\<lambda>g. g_SandboxID g \<noteq> to) (secret_grants d') = secret_grants d"
    using made(1,3) assms(4) by (auto simp: filter_id_conv filter_empty_conv)
  show "(\<exists>g \<in> set (secret_grants d'). authorizes t u to p h g) \<longleftrightarrow>
      (\<exists>g \<in> set (secret_grants d). authorizes t u src p h g \<and> is_ok (GetSecret u (g_SecretName g) d))"
  proof
    assume "\<exists>g \<in> set (secret_grants d'). authorizes t u to p h g"
    then obtain g where g: "g \<in> set made" "authorizes t u to p h g"
      using made(1) assms(4) by (auto simp: authorizes_def)
    then have "snapshot_grant g \<in> set (filter (\<lambda>g. secret_exists u g d) (sub_Grants sub))"
      unfolding made(2) [symmetric] by simp
    then obtain g0 where g0: "g0 \<in> set (secret_grants d)" "g_SandboxID g0 = src" "g_UserID g0 = u" "Live now g0"
      "snapshot_grant g = snapshot_grant g0" "secret_exists u (snapshot_grant g0) d"
      unfolding set_filter capture_grants [OF sub] by auto
    moreover have "authorizes t u src p h g0" using g(2) g0 unfolding authorizes_snapshot by (simp add: Live_def)
    ultimately show "\<exists>g \<in> set (secret_grants d). authorizes t u src p h g \<and> is_ok (GetSecret u (g_SecretName g) d)"
      by (auto simp: secret_exists_def snapshot_grant_def)
  next
    assume "\<exists>g \<in> set (secret_grants d). authorizes t u src p h g \<and> is_ok (GetSecret u (g_SecretName g) d)"
    then obtain g0 where g0: "g0 \<in> set (secret_grants d)" "authorizes t u src p h g0" "is_ok (GetSecret u (g_SecretName g0) d)" by blast
    then have "Live now g0" using assms(5) by (auto simp: authorizes_def Live_def split: option.splits)
    with g0 have "snapshot_grant g0 \<in> set (sub_Grants sub)" "secret_exists u (snapshot_grant g0) d"
      unfolding capture_grants [OF sub] by (auto simp: authorizes_def secret_exists_def snapshot_grant_def)
    then have "snapshot_grant g0 \<in> set (map snapshot_grant made)" unfolding made(2) by simp
    then obtain g where g: "g \<in> set made" "snapshot_grant g = snapshot_grant g0" by auto
    then have "authorizes t u to p h g" using g0(2) made(3) unfolding authorizes_snapshot by simp
    with g made(1) show "\<exists>g \<in> set (secret_grants d'). authorizes t u to p h g" by auto
  qed
qed

section \<open>Revocation\<close>

lemma revoke_updates:
  assumes "table_ok secret_grants_cs t"
  shows "sql_update secret_grants_cs p (\<lambda>g. g\<lparr>g_RevokedAt := r g\<rparr>) t = Inr (update_rows p (\<lambda>g. g\<lparr>g_RevokedAt := r g\<rparr>) t, length (filter p t))"
proof -
  have "table_ok secret_grants_cs (update_rows p (\<lambda>g. g\<lparr>g_RevokedAt := r g\<rparr>) t)"
    unfolding update_rows_def
    by (rule secret_grants.update_preserving_ok [OF assms]) (auto simp: secret_grants_cs_def same_def split: if_splits)
  then show ?thesis by (auto simp: sql_update_def Let_def table_ok_def list_all_iff split: option.splits dest!: find_Some_D)
qed

text \<open>
  Revoking a grant takes away exactly that grant. The request succeeds if and only if the caller has a grant of that id, any
  other answer changes nothing; and afterwards a placeholder is
  authorized toward a host, at any instant, for any owner and sandbox, exactly when a grant other than the
  revoked one authorized it before: another owner's grant with the same id is untouched.
\<close>

theorem revoke_request_exact:
  assumes "table_ok secret_grants_cs (secret_grants d)"
    and "handleSecretGrantRevoke ''DELETE'' now u i d = (code, ev, d')"
  shows "(code = 200 \<longleftrightarrow> (\<exists>g \<in> set (secret_grants d). g_UserID g = u \<and> g_ID g = i)) \<and>
    (code = 200 \<or> d' = d \<and> code = 404) \<and>
    ((\<exists>g \<in> set (secret_grants d'). authorizes t u' s p h g) \<longleftrightarrow>
      (\<exists>g \<in> set (secret_grants d). authorizes t u' s p h g \<and> \<not> (g_UserID g = u \<and> g_ID g = i)))"
proof (intro conjI)
  let ?p = "\<lambda>g. g_UserID g = u \<and> g_ID g = i"
  let ?f = "\<lambda>g. g\<lparr>g_RevokedAt := (case g_RevokedAt g of None \<Rightarrow> Some now | Some t \<Rightarrow> Some t)\<rparr>"
  have upd: "RevokeSecretGrant u i now d = (if filter ?p (secret_grants d) = [] then Inl (SqlErr ErrNoRows)
      else Inr (d\<lparr>secret_grants := update_rows ?p ?f (secret_grants d)\<rparr>))"
    unfolding RevokeSecretGrant_def revoke_updates [OF assms(1)] by simp
  have dead: "\<not> authorizes t u' s p h (?f g)" for g by (auto simp: authorizes_def Live_def split: option.splits)
  show "code = 200 \<longleftrightarrow> (\<exists>g \<in> set (secret_grants d). ?p g)" "code = 200 \<or> d' = d \<and> code = 404"
    using assms(2) by (auto simp: handleSecretGrantRevoke_def upd GetSecretGrant_def query_row_Inl_iff filter_empty_conv
        split: sum.splits if_splits dest: query_row_Inr)
  show "(\<exists>g \<in> set (secret_grants d'). authorizes t u' s p h g) \<longleftrightarrow> (\<exists>g \<in> set (secret_grants d). authorizes t u' s p h g \<and> \<not> ?p g)"
  proof (cases "\<exists>g \<in> set (secret_grants d). ?p g")
    case False
    then have "d' = d" using assms(2)
      by (auto simp: handleSecretGrantRevoke_def GetSecretGrant_def split: sum.splits if_splits dest!: query_row_Inr)
    with False show ?thesis by blast
  next
    case True
    then have "secret_grants d' = update_rows ?p ?f (secret_grants d)" using assms(2)
      by (auto simp: handleSecretGrantRevoke_def upd GetSecretGrant_def query_row_Inl_iff filter_empty_conv split: sum.splits if_splits)
    then have "set (secret_grants d') = (\<lambda>r. if ?p r then ?f r else r) ` set (secret_grants d)" by (simp only: set_update_rows)
    with dead show ?thesis by (auto split: if_splits)
  qed
qed

lemma discard_leaves_nothing:
  "g \<in> set (secret_grants (discardSubstitution s d)) \<longleftrightarrow> g \<in> set (secret_grants d) \<and> g_SandboxID g \<noteq> s"
  "GetSandboxCA s (discardSubstitution s d) = Inl ErrNoRows"
proof -
  show "g \<in> set (secret_grants (discardSubstitution s d)) \<longleftrightarrow> g \<in> set (secret_grants d) \<and> g_SandboxID g \<noteq> s"
    by (simp add: discardSubstitution_def DeleteSandboxCA_def DeleteSandboxSecretGrants_def sql_delete_def)
  show "GetSandboxCA s (discardSubstitution s d) = Inl ErrNoRows"
    by (simp add: discardSubstitution_def DeleteSandboxCA_def DeleteSandboxSecretGrants_def sql_delete_def GetSandboxCA_def query_row_Inl_iff)
qed

section \<open>Instances\<close>

definition example_clone_source :: db where
  "example_clone_source = PutSandboxCA 100 \<lparr>ca_SandboxID = ''sb1'', ca_UserID = ''alice'', ca_CertPEM = ''CERT'', ca_KeyEnc = [1], ca_CreatedAt = 0\<rparr>
     (example_db\<lparr>sandboxes := [\<lparr>sb_ID = ''sb1'', sb_Name = ''dev'', sb_TemplateID = [], sb_EngineID = ''vm1'', sb_Status = ''running'',
       sb_IP = [], sb_EngineMeta = [], sb_NetPolicy = ''{}'', sb_CreatedBy = ''alice'', sb_CreatedAt = 1, sb_StoppedAt = None,
       sb_KeepHot = False, sb_HasInit = False, sb_ShellTokenHash = [], sb_CPUs = 0, sb_MemoryMB = 512, sb_DiskSizeMB = 0,
       sb_Image = ''minimal'', sb_Labels = [], sb_restart_pending = False\<rparr>]\<rparr>)"

definition example_wire :: net_policy_wire where
  "example_wire = \<lparr>w_Default = ''deny'', w_Siblings = [], w_AllowHosts = [''*.Stripe.com''], w_AllowCIDRs = []\<rparr>"

definition example_env :: grant_env where
  "example_env = \<lparr>ge_body = Some \<lparr>gr_Sandbox = ''dev'', gr_Hosts = [''API.stripe.com.'', ''api.stripe.com''], gr_TTL = ''2d''\<rparr>,
     ge_unmarshal = (\<lambda>_. Some example_wire), ge_duration = (\<lambda>_. None), ge_agent_ok = Some True,
     ge_rand = Some (replicate 15 9), ge_id = ''g2''\<rparr>"

lemma grants_stay_within_egress_witness:
  "\<exists>g. g \<in> set (secret_grants (snd (snd (snd (handleSecretGrantCreate example_env ''POST'' 200 ''alice'' ''STRIPE'' example_clone_source))))) \<and>
     g_Hosts g = [''api.stripe.com''] \<and> g_ExpiresAt g = Some (200 + 2 * 24 * 3600 * second) \<and>
     (\<exists>pol. PolicyFromWire example_wire = Inr pol \<and> (\<forall>host. hostGranted (g_Hosts g) host \<longrightarrow> AllowsName pol host))"
proof -
  let ?r = "handleSecretGrantCreate example_env ''POST'' 200 ''alice'' ''STRIPE'' example_clone_source"
  let ?v = "the (fst (snd ?r))"
  have r: "?r = (201, Some ?v, fst (snd (snd ?r)), snd (snd (snd ?r)))" by code_simp
  have g: "g_Hosts (gv_grant ?v) = [''api.stripe.com'']" "g_ExpiresAt (gv_grant ?v) = Some (200 + 2 * 24 * 3600 * second)"
    by code_simp+
  have wire: "\<forall>sb \<in> set (sandboxes example_clone_source). sandboxEgress (ge_unmarshal example_env) sb = Some example_wire" by code_simp
  have rules: "PolicyFromWire example_wire = Inr pol \<Longrightarrow> \<forall>p \<in> set (AllowHosts pol). \<not> has_suffix (hp_suffix p) ''.''" for pol
  proof -
    have "case PolicyFromWire example_wire of Inl _ \<Rightarrow> False | Inr pol \<Rightarrow> \<forall>p \<in> set (AllowHosts pol). \<not> has_suffix (hp_suffix p) ''.''"
      by code_simp
    then show "PolicyFromWire example_wire = Inr pol \<Longrightarrow> ?thesis" by simp
  qed
  from grants_stay_within_egress [OF r] wire rules
  obtain pol where "PolicyFromWire example_wire = Inr pol" "secret_grants (snd (snd (snd ?r))) = secret_grants example_clone_source @ [gv_grant ?v]"
    "\<forall>host. hostGranted (g_Hosts (gv_grant ?v)) host \<longrightarrow> AllowsName pol host"
    by (metis option.inject)
  with g show ?thesis by (intro exI [of _ "gv_grant ?v"]) auto
qed

lemma clone_authorized_exactly_witness:
  "\<exists>g \<in> set (secret_grants (snd (inheritFromSandbox 200 (\<lambda>k. replicate k CHR ''x'') ''alice'' ''sb1'' ''sb2'' example_clone_source))).
     authorizes 300 ''alice'' ''sb2'' (g_Placeholder example_grant) ''api.stripe.com'' g"
proof -
  let ?ids = "\<lambda>k. replicate k CHR ''x''"
  let ?r = "inheritFromSandbox 200 ?ids ''alice'' ''sb1'' ''sb2'' example_clone_source"
  have gs: "secret_grants example_clone_source = [example_grant]" by code_simp
  have ok: "table_ok secret_grants_cs (secret_grants example_clone_source)" unfolding gs by code_simp
  have ids: "inj ?ids" by (rule injI) (metis length_replicate)
  have fresh: "?ids k \<notin> g_ID ` set (secret_grants example_clone_source)" for k
    unfolding gs by (cases k) (auto simp: example_grant_def)
  have to: "''sb2'' \<notin> g_SandboxID ` set (secret_grants example_clone_source)" unfolding gs by (simp add: example_grant_def)
  have sec: "is_ok (GetSecret ''alice'' (g_SecretName example_grant) example_clone_source)" by code_simp
  have src: "authorizes 300 ''alice'' ''sb1'' (g_Placeholder example_grant) ''api.stripe.com'' example_grant" by code_simp
  have "(200 :: int) \<le> 300" by simp
  from clone_authorized_exactly [OF ok ids fresh to this, of "''alice''" "''sb1''" "fst ?r" "snd ?r" "g_Placeholder example_grant" "''api.stripe.com''"] src sec
  show ?thesis unfolding gs by auto
qed

lemma revoke_request_exact_witness:
  "fst (handleSecretGrantRevoke ''DELETE'' 300 ''alice'' ''g1'' example_db) = 200 \<and>
   \<not> (\<exists>g \<in> set (secret_grants (snd (snd (handleSecretGrantRevoke ''DELETE'' 300 ''alice'' ''g1'' example_db)))).
       authorizes 301 ''alice'' ''sb1'' (g_Placeholder example_grant) ''api.stripe.com'' g)"
proof -
  let ?r = "handleSecretGrantRevoke ''DELETE'' 300 ''alice'' ''g1'' example_db"
  have gs: "secret_grants example_db = [example_grant]" by code_simp
  have ok: "table_ok secret_grants_cs (secret_grants example_db)" unfolding gs by code_simp
  have g: "g_UserID example_grant = ''alice''" "g_ID example_grant = ''g1''" by (simp_all add: example_grant_def)
  from revoke_request_exact [OF ok, of 300 "''alice''" "''g1''" "fst ?r" "fst (snd ?r)" "snd (snd ?r)" 301 "''alice''" "''sb1''"
      "g_Placeholder example_grant" "''api.stripe.com''"]
  show ?thesis unfolding gs using g by simp
qed

end
