(* ===== verification/Vm_Thermal.thy ===== *)
theory Vm_Thermal
  imports Bhatti_Prelude
begin

text \<open>
  The power states of one VM, \<^verbatim>\<open>src/pkg/engine/krucible/thermal.go\<close> and the stop, start and exit paths of \<^verbatim>\<open>engine.go\<close> and
  \<^verbatim>\<open>vmm_lifecycle.go\<close>. The Go record keeps a mirror of the VM, \<open>Status\<close> and \<open>Thermal\<close>; \<open>vm_cpu\<close> is what the helper
  process really does. Commands to the helper may fail, also after they took effect. Operations run under the VM's \<open>launchMu\<close> and are
  single steps, but for \<open>Stop\<close>, whose resumed VM others can see. The locale \<open>thermal_engine\<close> is what the server relies on.
\<close>

section \<open>The VM\<close>

datatype cpu = Off | Parked | Executing

record VM =
  vm_Status :: string
  vm_Thermal :: string
  vm_cpu :: cpu

type_synonym engine = "string \<rightharpoonup> VM"

text \<open>How a command on the control socket ends: done; refused; or done, and the reply lost.\<close>

datatype ctl = CtlOK | CtlErr | CtlLost

text \<open>What the outside decides during one call: the control socket, the guest's sync, and whether a boot succeeds.\<close>

record outcome =
  oc_ctl :: ctl
  oc_sync :: bool
  oc_boot :: bool

datatype engine_error = NoSuchVM | NoPause | NotRunning string | ControlFailed | BootFailed

datatype stop_result = StopOK | StopUnclean string | StopFailed

definition controlCmd :: "cpu \<Rightarrow> ctl \<Rightarrow> cpu \<Rightarrow> bool \<times> cpu" where
  "controlCmd target c cpu =
     (if cpu = Off then (False, Off)
      else case c of CtlOK \<Rightarrow> (True, target) | CtlErr \<Rightarrow> (False, cpu) | CtlLost \<Rightarrow> (False, target))"

section \<open>Transitions\<close>

text \<open>The error, \<open>None\<close> for none, and the VM. A failed sync before a pause is only logged.\<close>

definition pause :: "outcome \<Rightarrow> VM \<Rightarrow> engine_error option \<times> VM" where
  "pause oc vm =
     (if vm_Status vm \<noteq> ''running'' then (Some (NotRunning (vm_Status vm)), vm)
      else if vm_Thermal vm = ''warm'' then (None, vm)
      else case controlCmd Parked (oc_ctl oc) (vm_cpu vm) of
          (False, c) \<Rightarrow> (Some ControlFailed, vm\<lparr>vm_cpu := c\<rparr>)
        | (True, c) \<Rightarrow> (None, vm\<lparr>vm_cpu := c, vm_Thermal := ''warm''\<rparr>))"

definition Resume :: "outcome \<Rightarrow> VM \<Rightarrow> engine_error option \<times> VM" where
  "Resume oc vm =
     (if vm_Thermal vm = ''hot'' then (None, vm)
      else case controlCmd Executing (oc_ctl oc) (vm_cpu vm) of
          (False, c) \<Rightarrow> (Some ControlFailed, vm\<lparr>vm_cpu := c\<rparr>)
        | (True, c) \<Rightarrow> (None, vm\<lparr>vm_cpu := c, vm_Thermal := ''hot''\<rparr>))"

text \<open>\<open>launch\<close>: every failure after the helper started kills it and waits for it.\<close>

definition launch :: "outcome \<Rightarrow> VM \<Rightarrow> engine_error option \<times> VM" where
  "launch oc vm =
     (if oc_boot oc then (None, vm\<lparr>vm_cpu := Executing, vm_Status := ''running'', vm_Thermal := ''hot''\<rparr>)
      else (Some BootFailed, vm\<lparr>vm_cpu := Off\<rparr>))"

definition Start :: "outcome \<Rightarrow> VM \<Rightarrow> engine_error option \<times> VM" where
  "Start oc vm = (if vm_Status vm = ''running'' then (None, vm) else launch oc vm)"

definition EnsureHot :: "outcome \<Rightarrow> VM \<Rightarrow> engine_error option \<times> VM" where
  "EnsureHot oc vm =
     (if vm_Thermal vm = ''hot'' \<and> vm_Status vm = ''running'' then (None, vm)
      else if vm_Thermal vm = ''cold'' \<or> vm_Status vm = ''stopped'' then Start oc vm
      else Resume oc vm)"

definition powerOffLocked :: "VM \<Rightarrow> VM" where
  "powerOffLocked vm = vm\<lparr>vm_cpu := Off, vm_Status := ''stopped'', vm_Thermal := ''cold''\<rparr>"

text \<open>
  The first part of \<open>Stop\<close>: nothing to do, or the error of the sync so far and the VM as others see it until it is off: a
  warm VM was resumed and is marked hot.
\<close>

definition stop_resume :: "outcome \<Rightarrow> VM \<Rightarrow> string option option \<times> VM" where
  "stop_resume oc vm =
     (if vm_Status vm \<noteq> ''running'' then (None, vm)
      else if vm_Thermal vm = ''warm'' then
        (case controlCmd Executing (oc_ctl oc) (vm_cpu vm) of
           (False, c) \<Rightarrow> (Some (Some ''resume for guest sync''), vm\<lparr>vm_cpu := c\<rparr>)
         | (True, c) \<Rightarrow> (Some None, vm\<lparr>vm_cpu := c, vm_Thermal := ''hot''\<rparr>))
      else (Some None, vm))"

definition stop_off :: "outcome \<Rightarrow> string option option \<Rightarrow> VM \<Rightarrow> stop_result \<times> VM" where
  "stop_off oc pending vm =
     (case pending of
        None \<Rightarrow> (StopOK, vm)
      | Some syncErr \<Rightarrow>
          (case (case syncErr of None \<Rightarrow> if oc_sync oc then None else Some ''guest sync'' | Some e \<Rightarrow> Some e) of
             None \<Rightarrow> (StopOK, powerOffLocked vm)
           | Some e \<Rightarrow> (StopUnclean e, powerOffLocked vm)))"

definition Stop :: "outcome \<Rightarrow> VM \<Rightarrow> stop_result \<times> VM" where
  "Stop oc vm = (case stop_resume oc vm of (pending, vm') \<Rightarrow> stop_off oc pending vm')"

text \<open>The helper dies by itself; its watcher then commits the state, unless an explicit stop owns the exit.\<close>

definition dies :: "VM \<Rightarrow> VM" where
  "dies vm = vm\<lparr>vm_cpu := Off\<rparr>"

definition unexpectedVMExit :: "VM \<Rightarrow> VM" where
  "unexpectedVMExit vm =
     (if vm_Status vm \<noteq> ''running'' \<or> vm_cpu vm \<noteq> Off then vm else vm\<lparr>vm_Status := ''stopped'', vm_Thermal := ''cold''\<rparr>)"

section \<open>The engine\<close>

definition on_vm :: "(VM \<Rightarrow> engine_error option \<times> VM) \<Rightarrow> string \<Rightarrow> engine \<Rightarrow> engine_error option \<times> engine" where
  "on_vm f i e = (case e i of None \<Rightarrow> (Some NoSuchVM, e) | Some vm \<Rightarrow> (case f vm of (r, vm') \<Rightarrow> (r, e(i \<mapsto> vm'))))"

definition ThermalState :: "engine \<Rightarrow> string \<Rightarrow> string" where
  "ThermalState e i = (case e i of None \<Rightarrow> [] | Some vm \<Rightarrow> vm_Thermal vm)"

text \<open>
  The Go interface of \<^verbatim>\<open>server.go\<close> with \<open>Stop\<close>: every call gets an outcome and gives success and the new state.
  \<open>te_stopping\<close> is the state others can see while \<open>Stop\<close> runs.
\<close>

record ('o, 'e) ThermalEngine =
  te_ThermalState :: "'e \<Rightarrow> string \<Rightarrow> string"
  te_Pause :: "'o \<Rightarrow> string \<Rightarrow> 'e \<Rightarrow> bool \<times> 'e"
  te_ForcePause :: "'o \<Rightarrow> string \<Rightarrow> 'e \<Rightarrow> bool \<times> 'e"
  te_EnsureHot :: "'o \<Rightarrow> string \<Rightarrow> 'e \<Rightarrow> bool \<times> 'e"
  te_stopping :: "'o \<Rightarrow> string \<Rightarrow> 'e \<Rightarrow> 'e"
  te_Stop :: "'o \<Rightarrow> string \<Rightarrow> 'e \<Rightarrow> stop_result \<times> 'e"

definition ok_on :: "(VM \<Rightarrow> engine_error option \<times> VM) \<Rightarrow> string \<Rightarrow> engine \<Rightarrow> bool \<times> engine" where
  "ok_on f i e = (case on_vm f i e of (r, e') \<Rightarrow> (r = None, e'))"

text \<open>\<open>caps\<close>: whether the VMM build can pause.\<close>

definition krucible :: "bool \<Rightarrow> (outcome, engine) ThermalEngine" where
  "krucible caps =
     \<lparr>te_ThermalState = ThermalState,
      te_Pause = (\<lambda>oc i e. if \<not> caps then (False, e) else ok_on (pause oc) i e),
      te_ForcePause = (\<lambda>oc i e. if \<not> caps then (False, e) else ok_on (pause oc) i e),
      te_EnsureHot = (\<lambda>oc. ok_on (EnsureHot oc)),
      te_stopping = (\<lambda>oc i e. case e i of None \<Rightarrow> e | Some vm \<Rightarrow> e(i \<mapsto> snd (stop_resume oc vm))),
      te_Stop = (\<lambda>oc i e. case e i of None \<Rightarrow> (StopFailed, e) | Some vm \<Rightarrow> (case Stop oc vm of (r, vm') \<Rightarrow> (r, e(i \<mapsto> vm'))))\<rparr>"

section \<open>The mirror\<close>

definition vm_ok :: "VM \<Rightarrow> bool" where
  "vm_ok vm \<longleftrightarrow> vm_Status vm \<in> {''running'', ''stopped''} \<and> vm_Thermal vm \<in> {''hot'', ''warm'', ''cold''} \<and>
     (vm_Status vm = ''stopped'' \<longleftrightarrow> vm_Thermal vm = ''cold'') \<and> (vm_Status vm = ''stopped'' \<longrightarrow> vm_cpu vm = Off)"


inductive vm_step :: "bool \<Rightarrow> VM \<Rightarrow> VM \<Rightarrow> bool" for lossy where
  vm_pause: "lossy \<or> oc_ctl oc \<noteq> CtlLost \<Longrightarrow> vm_step lossy vm (snd (pause oc vm))"
| vm_wake: "lossy \<or> oc_ctl oc \<noteq> CtlLost \<Longrightarrow> vm_step lossy vm (snd (EnsureHot oc vm))"
| vm_resume: "lossy \<or> oc_ctl oc \<noteq> CtlLost \<Longrightarrow> vm_step lossy vm (snd (Resume oc vm))"
| vm_start: "vm_step lossy vm (snd (Start oc vm))"
| vm_stop: "vm_step lossy vm (snd (Stop oc vm))"
| vm_dies: "vm_step lossy vm (dies vm)"
| vm_exit: "vm_step lossy vm (unexpectedVMExit vm)"

lemmas vm_op_defs = pause_def Resume_def Start_def EnsureHot_def launch_def Stop_def stop_resume_def stop_off_def powerOffLocked_def
  controlCmd_def dies_def unexpectedVMExit_def

lemma vm_step_ok: "vm_step lossy vm vm' \<Longrightarrow> vm_ok vm \<Longrightarrow> vm_ok vm'"
  by (induction rule: vm_step.induct)
    (auto simp: vm_op_defs vm_ok_def split: if_splits ctl.splits option.splits)





section \<open>The contract of a thermal engine\<close>

text \<open>
  What the server's thermal manager needs of an engine: an operation on one VM leaves the others alone, a wake that succeeds ends hot,
  a wake never cools, and the state seen while a stop runs changes nothing of what the stop will do.
\<close>

locale thermal_engine =
  fixes te :: "('o, 'e) ThermalEngine" and inv :: "'e \<Rightarrow> bool"
  assumes pause_frame: "i \<noteq> j \<Longrightarrow> te_ThermalState te (snd (te_Pause te oc i e)) j = te_ThermalState te e j"
    and force_frame: "i \<noteq> j \<Longrightarrow> te_ThermalState te (snd (te_ForcePause te oc i e)) j = te_ThermalState te e j"
    and wake_frame: "i \<noteq> j \<Longrightarrow> te_ThermalState te (snd (te_EnsureHot te oc i e)) j = te_ThermalState te e j"
    and stopping_frame: "i \<noteq> j \<Longrightarrow> te_ThermalState te (te_stopping te oc i e) j = te_ThermalState te e j"
    and stop_frame: "i \<noteq> j \<Longrightarrow> te_ThermalState te (snd (te_Stop te oc i e)) j = te_ThermalState te e j"
    and pause_inv: "inv e \<Longrightarrow> inv (snd (te_Pause te oc i e))"
    and force_inv: "inv e \<Longrightarrow> inv (snd (te_ForcePause te oc i e))"
    and wake_inv: "inv e \<Longrightarrow> inv (snd (te_EnsureHot te oc i e))"
    and stopping_inv: "inv e \<Longrightarrow> inv (te_stopping te oc i e)"
    and stop_inv: "inv e \<Longrightarrow> inv (snd (te_Stop te oc i e))"
    and wake_hot: "inv e \<Longrightarrow> fst (te_EnsureHot te oc i e) \<Longrightarrow> te_ThermalState te (snd (te_EnsureHot te oc i e)) i = ''hot''"
    and wake_keeps: "inv e \<Longrightarrow> te_ThermalState te e i = ''hot'' \<Longrightarrow> te_ThermalState te (snd (te_EnsureHot te oc i e)) i = ''hot''"
    and stop_resumed: "te_Stop te oc i (te_stopping te oc i e) = te_Stop te oc i e"

definition engine_ok :: "engine \<Rightarrow> bool" where
  "engine_ok e \<longleftrightarrow> (\<forall>i vm. e i = Some vm \<longrightarrow> vm_ok vm)"

lemma engine_okD: "engine_ok e \<Longrightarrow> e i = Some vm \<Longrightarrow> vm_ok vm"
  by (auto simp: engine_ok_def)

lemma engine_ok_upd: "engine_ok e \<Longrightarrow> vm_ok vm \<Longrightarrow> engine_ok (e(i \<mapsto> vm))"
  by (auto simp: engine_ok_def)

lemma ThermalState_upd [simp]: "i \<noteq> j \<Longrightarrow> ThermalState (e(i \<mapsto> vm)) j = ThermalState e j"
  by (simp add: ThermalState_def)

lemma ok_on_frame: "i \<noteq> j \<Longrightarrow> ThermalState (snd (ok_on f i e)) j = ThermalState e j"
  by (simp add: ok_on_def on_vm_def ThermalState_def split: option.splits prod.splits)

lemma ok_on_inv: "engine_ok e \<Longrightarrow> (\<And>vm. vm_ok vm \<Longrightarrow> vm_ok (snd (f vm))) \<Longrightarrow> engine_ok (snd (ok_on f i e))"
  by (auto simp: ok_on_def on_vm_def engine_ok_def split: option.splits prod.splits) (metis snd_conv)

lemma vm_ok_ops:
  assumes "vm_ok vm"
  shows "vm_ok (snd (pause oc vm))" "vm_ok (snd (EnsureHot oc vm))" "vm_ok (snd (Stop oc vm))" "vm_ok (snd (stop_resume oc vm))"
  using assms vm_step_ok [of True vm] vm_step.intros [of True]
  by (auto simp: vm_op_defs vm_ok_def split: ctl.splits)

lemma EnsureHot_hot: "vm_ok vm \<Longrightarrow> fst (EnsureHot oc vm) = None \<or> vm_Thermal vm = ''hot'' \<Longrightarrow> vm_Thermal (snd (EnsureHot oc vm)) = ''hot''"
  by (auto simp: vm_op_defs vm_ok_def split: if_splits ctl.splits)

lemma Stop_resumed: "Stop oc (snd (stop_resume oc vm)) = Stop oc vm"
  by (auto simp: vm_op_defs split: ctl.splits option.splits)

interpretation krucible: thermal_engine "krucible caps" engine_ok for caps
proof unfold_locales
  fix i e oc assume ok: "engine_ok e"
  have "te_ThermalState (krucible caps) (snd (te_EnsureHot (krucible caps) oc i e)) i = ''hot''"
    if "fst (te_EnsureHot (krucible caps) oc i e) \<or> te_ThermalState (krucible caps) e i = ''hot''"
    using that ok EnsureHot_hot
    by (auto simp: krucible_def ok_on_def on_vm_def ThermalState_def engine_ok_def split: option.splits prod.splits) (metis fst_conv snd_conv)+
  then show "fst (te_EnsureHot (krucible caps) oc i e) \<Longrightarrow> te_ThermalState (krucible caps) (snd (te_EnsureHot (krucible caps) oc i e)) i = ''hot''"
    "te_ThermalState (krucible caps) e i = ''hot'' \<Longrightarrow> te_ThermalState (krucible caps) (snd (te_EnsureHot (krucible caps) oc i e)) i = ''hot''"
    by blast+
next
  fix i e oc
  show "te_Stop (krucible caps) oc i (te_stopping (krucible caps) oc i e) = te_Stop (krucible caps) oc i e"
    by (simp add: krucible_def Stop_resumed split: option.splits)
next
  fix e i oc assume ok: "engine_ok e"
  show "engine_ok (te_stopping (krucible caps) oc i e)"
    using ok by (auto simp: krucible_def intro!: engine_ok_upd vm_ok_ops dest: engine_okD split: option.splits)
  show "engine_ok (snd (te_Stop (krucible caps) oc i e))"
    using ok by (auto simp: krucible_def case_prod_unfold intro!: engine_ok_upd vm_ok_ops dest: engine_okD split: option.splits)
qed (simp_all add: krucible_def ok_on_frame ok_on_inv vm_ok_ops ThermalState_upd case_prod_unfold split: option.splits)

end
