(* ===== verification/Mount_Policy.thy ===== *)
theory Mount_Policy
  imports Bhatti_Prelude "HOL-Library.Sublist"
begin

text \<open>
  Which host directories a sandbox may bind, \<^verbatim>\<open>src/pkg/server/mount_policy.go\<close>, over the lexical part of Go's \<open>path/filepath\<close>.
  Symbolic links and \<open>stat\<close> are arguments: \<open>EvalSymlinks\<close> of an absolute path returns an absolute clean path, as its documentation says. The
  property: no file is both inside an authorized mount and inside the server's data or configuration directories.
\<close>

section \<open>Paths\<close>

abbreviation slash :: char where
  "slash \<equiv> CHR ''/''"

definition comps :: "string \<Rightarrow> string list" where
  "comps p = filter (\<lambda>c. c \<noteq> []) (split_on slash p)"

fun slash_join :: "string list \<Rightarrow> string" where
  "slash_join [] = []"
| "slash_join [c] = c"
| "slash_join (c # cs) = c @ slash # slash_join cs"

definition IsAbs :: "string \<Rightarrow> bool" where
  "IsAbs p = has_prefix p ''/''"

text \<open>\<open>Clean\<close> of a rooted path: dots and doubled slashes go, a double dot takes the name before it away.\<close>

fun clean_comps :: "string list \<Rightarrow> string list \<Rightarrow> string list" where
  "clean_comps acc [] = rev acc"
| "clean_comps acc (c # cs) =
     (if c = ''.'' then clean_comps acc cs
      else if c = ''..'' then clean_comps (tl acc) cs
      else clean_comps (c # acc) cs)"

definition Clean :: "string \<Rightarrow> string" where
  "Clean p = slash # slash_join (clean_comps [] (comps p))"

definition Dir :: "string \<Rightarrow> string" where
  "Dir p = Clean (rev (dropWhile (\<lambda>c. c \<noteq> slash) (rev p)))"

text \<open>\<open>Rel\<close> of two rooted paths, which never fails: up from what is left of the base, down what is left of the target.\<close>

fun strip_common :: "string list \<Rightarrow> string list \<Rightarrow> string list \<times> string list" where
  "strip_common (b # bs) (t # ts) = (if b = t then strip_common bs ts else (b # bs, t # ts))"
| "strip_common bs ts = (bs, ts)"

definition Rel :: "string \<Rightarrow> string \<Rightarrow> string" where
  "Rel base targ =
     (case strip_common (clean_comps [] (comps base)) (clean_comps [] (comps targ)) of (bs, ts) \<Rightarrow>
        if bs = [] \<and> ts = [] then ''.'' else slash_join (replicate (length bs) ''..'' @ ts))"

section \<open>The policy\<close>

record FsMount =
  fm_HostPath :: string
  fm_GuestPath :: string
  fm_ReadOnly :: bool

text \<open>The host's file system: symbolic links resolved, and whether a path is a directory (\<open>None\<close> when \<open>stat\<close> fails).\<close>

record host_fs =
  hf_EvalSymlinks :: "string \<Rightarrow> string option"
  hf_IsDir :: "string \<Rightarrow> bool option"

record mount_cfg =
  mc_mountRoots :: "string list"
  mc_dataDir :: string
  mc_configPath :: string
  mc_configPaths :: "string list"

datatype dir_error = NotAbsolute | Unresolved | StatFailed | NotADirectory

datatype mount_error =
    MountsDisabled
  | BadDataDir
  | BadConfigPath string
  | BadConfigDir string dir_error
  | BadConfigFile string
  | BadRoot string dir_error
  | RootIsSlash
  | RootOverlapsState
  | BadHostPath nat dir_error
  | HostPathOverlapsState nat
  | OutsideRoots nat

fun status_of :: "mount_error \<Rightarrow> nat" where
  "status_of (BadHostPath _ _) = 400"
| "status_of _ = 403"

definition canonicalHostDirectory :: "host_fs \<Rightarrow> string \<Rightarrow> dir_error + string" where
  "canonicalHostDirectory fs path =
     (if \<not> IsAbs path then Inl NotAbsolute
      else case hf_EvalSymlinks fs (Clean path) of
          None \<Rightarrow> Inl Unresolved
        | Some canonical \<Rightarrow>
            (case hf_IsDir fs canonical of
               None \<Rightarrow> Inl StatFailed
             | Some isDir \<Rightarrow> if \<not> isDir then Inl NotADirectory else Inr canonical))"

definition pathWithin :: "string \<Rightarrow> string \<Rightarrow> bool" where
  "pathWithin path root \<longleftrightarrow> (let rel = Rel root path in rel = ''.'' \<or> rel \<noteq> ''..'' \<and> \<not> has_prefix rel ''../'')"

definition pathsOverlap :: "string \<Rightarrow> string \<Rightarrow> bool" where
  "pathsOverlap a b \<longleftrightarrow> pathWithin a b \<or> pathWithin b a"

text \<open>The directories of one configuration file: the one it is named in and the one it really lies in.\<close>

definition config_dirs :: "host_fs \<Rightarrow> string \<Rightarrow> mount_error + string list" where
  "config_dirs fs path =
     (if \<not> IsAbs path then Inl (BadConfigPath path)
      else case canonicalHostDirectory fs (Dir path) of
          Inl e \<Rightarrow> Inl (BadConfigDir path e)
        | Inr configDir \<Rightarrow>
            (case hf_EvalSymlinks fs path of
               None \<Rightarrow> Inl (BadConfigFile path)
             | Some resolved \<Rightarrow>
                 (case canonicalHostDirectory fs (Dir resolved) of
                    Inl e \<Rightarrow> Inl (BadConfigDir path e)
                  | Inr resolvedDir \<Rightarrow> Inr [configDir, resolvedDir])))"

definition protected_dirs :: "host_fs \<Rightarrow> mount_cfg \<Rightarrow> mount_error + string list" where
  "protected_dirs fs s =
     (case canonicalHostDirectory fs (mc_dataDir s) of
        Inl _ \<Rightarrow> Inl BadDataDir
      | Inr dataDir \<Rightarrow>
          if dataDir = ''/'' then Inl BadDataDir
          else
            (let configPaths = (if mc_configPaths s = [] \<and> mc_configPath s \<noteq> [] then [mc_configPath s] else mc_configPaths s) in
             res_bind (map_res (config_dirs fs) configPaths) (\<lambda>ds. Inr (dataDir # concat ds))))"

definition check_root :: "host_fs \<Rightarrow> string list \<Rightarrow> string \<Rightarrow> mount_error + string" where
  "check_root fs protected raw =
     (case canonicalHostDirectory fs raw of
        Inl e \<Rightarrow> Inl (BadRoot raw e)
      | Inr root \<Rightarrow>
          if root = ''/'' then Inl RootIsSlash
          else if list_ex (pathsOverlap root) protected then Inl RootOverlapsState
          else Inr root)"

definition check_mount :: "host_fs \<Rightarrow> string list \<Rightarrow> string list \<Rightarrow> nat \<times> FsMount \<Rightarrow> mount_error + FsMount" where
  "check_mount fs protected roots = (\<lambda>(i, m).
     case canonicalHostDirectory fs (fm_HostPath m) of
       Inl e \<Rightarrow> Inl (BadHostPath i e)
     | Inr canonical \<Rightarrow>
         if list_ex (pathsOverlap canonical) protected then Inl (HostPathOverlapsState i)
         else if \<not> list_ex (pathWithin canonical) roots then Inl (OutsideRoots i)
         else Inr (m\<lparr>fm_HostPath := canonical\<rparr>))"

text \<open>The mounts with their paths replaced by the canonical ones, or the error whose status is the reply.\<close>

definition authorizeMounts :: "host_fs \<Rightarrow> mount_cfg \<Rightarrow> FsMount list \<Rightarrow> mount_error + FsMount list" where
  "authorizeMounts fs s mounts =
     (if mounts = [] then Inr []
      else if mc_mountRoots s = [] then Inl MountsDisabled
      else res_bind (protected_dirs fs s) (\<lambda>protected.
           res_bind (map_res (check_root fs protected) (mc_mountRoots s)) (\<lambda>roots.
             map_res (check_mount fs protected roots) (enumerate 0 mounts))))"

text \<open>\<open>stored\<close> is the engine's answer: \<open>None\<close> when it knows no such sandbox; an engine without mounts answers the empty list.\<close>

definition checkStoredMounts :: "host_fs \<Rightarrow> mount_cfg \<Rightarrow> FsMount list option \<Rightarrow> bool" where
  "checkStoredMounts fs s stored = (case stored of None \<Rightarrow> False | Some mounts \<Rightarrow> is_ok (authorizeMounts fs s mounts))"

section \<open>Containment\<close>





















end
