(* ===== verification/Thermal.thy ===== *)
theory Thermal
  imports Sandboxes Vm_Thermal Mount_Policy
begin

text \<open>
  Cooling and waking, \<^verbatim>\<open>src/pkg/server/server.go\<close>: the thermal manager pauses idle sandboxes and powers off paused ones, requests wake them, and a
  client that needs a live VM pins it. First each function of the code, over any engine of the interface \<open>ThermalEngine\<close>; then
  the interleaving of the manager, its cold-stop workers, waking requests and pins, with the transition gate of each VM as a mutex
  (\<open>lockTransition\<close> has the shape of the volume gate, whose exclusion is proved in \<open>Volumes\<close>) and the critical sections of the code as steps.
\<close>

section \<open>State\<close>

record 'e thermal =
  th_store :: db
  th_engine :: 'e
  th_lastActivity :: "string \<rightharpoonup> time"
  th_snapshotFailures :: "string \<rightharpoonup> int"
  th_thermalFails :: "string \<rightharpoonup> int"
  th_interactive :: "string \<rightharpoonup> int"
  th_events :: "(string \<times> string) list"

record ThermalConfig =
  tc_WarmTimeout :: int
  tc_ColdTimeout :: int

definition maxThermalFailures :: int where "maxThermalFailures = 10"

definition count_of :: "(string \<rightharpoonup> int) \<Rightarrow> string \<Rightarrow> int" where
  "count_of m i = (case m i of None \<Rightarrow> 0 | Some n \<Rightarrow> n)"

definition incrementThermalFails :: "string \<Rightarrow> 'e thermal \<Rightarrow> int \<times> 'e thermal" where
  "incrementThermalFails i s = (let n = count_of (th_thermalFails s) i + 1 in (n, s\<lparr>th_thermalFails := (th_thermalFails s)(i \<mapsto> n)\<rparr>))"

definition resetThermalFails :: "string \<Rightarrow> 'e thermal \<Rightarrow> 'e thermal" where
  "resetThermalFails i s = s\<lparr>th_thermalFails := (th_thermalFails s)(i := None)\<rparr>"

definition incrementSnapshotFailures :: "string \<Rightarrow> 'e thermal \<Rightarrow> int \<times> 'e thermal" where
  "incrementSnapshotFailures i s =
     (let n = count_of (th_snapshotFailures s) i + 1 in (n, s\<lparr>th_snapshotFailures := (th_snapshotFailures s)(i \<mapsto> n)\<rparr>))"

definition resetSnapshotFailures :: "string \<Rightarrow> 'e thermal \<Rightarrow> 'e thermal" where
  "resetSnapshotFailures i s = s\<lparr>th_snapshotFailures := (th_snapshotFailures s)(i := None)\<rparr>"

definition set_activity :: "time \<Rightarrow> string \<Rightarrow> 'e thermal \<Rightarrow> 'e thermal" where
  "set_activity now i s = s\<lparr>th_lastActivity := (th_lastActivity s)(i \<mapsto> now)\<rparr>"

definition touchActivity :: "time \<Rightarrow> string \<Rightarrow> 'e thermal \<Rightarrow> 'e thermal" where
  "touchActivity now i s = resetThermalFails i (resetSnapshotFailures i (set_activity now i s))"

definition attachInteractive :: "time \<Rightarrow> string \<Rightarrow> 'e thermal \<Rightarrow> 'e thermal" where
  "attachInteractive now i s =
     touchActivity now i (s\<lparr>th_interactive := (th_interactive s)(i \<mapsto> count_of (th_interactive s) i + 1)\<rparr>)"

definition detachInteractive :: "time \<Rightarrow> string \<Rightarrow> 'e thermal \<Rightarrow> 'e thermal" where
  "detachInteractive now i s =
     (let n = count_of (th_interactive s) i - 1 in
      touchActivity now i (s\<lparr>th_interactive := (if n \<le> 0 then (th_interactive s)(i := None) else (th_interactive s)(i \<mapsto> n))\<rparr>))"

definition hasInteractiveAttach :: "'e thermal \<Rightarrow> string \<Rightarrow> bool" where
  "hasInteractiveAttach s i \<longleftrightarrow> count_of (th_interactive s) i > 0"

definition record_thermal :: "string \<Rightarrow> string \<Rightarrow> 'e thermal \<Rightarrow> 'e thermal" where
  "record_thermal typ i s = s\<lparr>th_events := th_events s @ [(typ, i)]\<rparr>"

section \<open>The manager\<close>

text \<open>
  What a cycle decides about one sandbox before it takes a gate. The guest's report is the time of its last activity in seconds and its attached sessions,
  or \<open>None\<close> when the query fails.
\<close>

datatype decision = Skip | WantPause int | WantForce int | WantCold int

definition cycle_decide ::
  "('o, 'e) ThermalEngine \<Rightarrow> ThermalConfig \<Rightarrow> time \<Rightarrow> (int \<times> int) option \<Rightarrow> Sandbox \<Rightarrow> 'e thermal \<Rightarrow> decision \<times> 'e thermal" where
  "cycle_decide te cfg now activity sb s =
     (let i = sb_EngineID sb in
      if sb_Status sb \<noteq> ''running'' then (Skip, s)
      else if sb_KeepHot sb then (Skip, s)
      else if hasInteractiveAttach s i then (Skip, touchActivity now i s)
      else let thermal = te_ThermalState te (th_engine s) i in
      if thermal = ''warm'' then
        (case th_lastActivity s i of
           None \<Rightarrow> (Skip, s)
         | Some ts \<Rightarrow> if now - ts > tc_ColdTimeout cfg then (WantCold (now - ts), s) else (Skip, s))
      else if thermal \<noteq> ''hot'' then (Skip, s)
      else if (case th_lastActivity s i of Some ts \<Rightarrow> now - ts < tc_WarmTimeout cfg | None \<Rightarrow> False) then (Skip, s)
      else case activity of
          None \<Rightarrow>
            (case incrementThermalFails i s of (count, s') \<Rightarrow>
               if count \<ge> maxThermalFailures then (WantForce count, s') else (Skip, s'))
        | Some (lastActivityUnix, attachedSessions) \<Rightarrow>
            (let s' = resetThermalFails i s; idle = now - lastActivityUnix * second in
             if idle > tc_WarmTimeout cfg \<and> attachedSessions = 0 then (WantPause idle, s') else (Skip, s')))"

text \<open>The three transitions, once the gate is held and no pin was found.\<close>

definition pause_locked :: "('o, 'e) ThermalEngine \<Rightarrow> 'o \<Rightarrow> time \<Rightarrow> Sandbox \<Rightarrow> 'e thermal \<Rightarrow> 'e thermal" where
  "pause_locked te oc now sb s =
     (case te_Pause te oc (sb_EngineID sb) (th_engine s) of
        (False, e) \<Rightarrow> s\<lparr>th_engine := e\<rparr>
      | (True, e) \<Rightarrow> record_thermal ''thermal.pause'' (sb_ID sb) (set_activity now (sb_EngineID sb) (s\<lparr>th_engine := e\<rparr>)))"

definition force_locked :: "('o, 'e) ThermalEngine \<Rightarrow> 'o \<Rightarrow> time \<Rightarrow> Sandbox \<Rightarrow> 'e thermal \<Rightarrow> 'e thermal" where
  "force_locked te oc now sb s =
     resetThermalFails (sb_EngineID sb)
       (case te_ForcePause te oc (sb_EngineID sb) (th_engine s) of
          (False, e) \<Rightarrow> s\<lparr>th_engine := e\<rparr>
        | (True, e) \<Rightarrow> record_thermal ''thermal.force_pause'' (sb_ID sb) (set_activity now (sb_EngineID sb) (s\<lparr>th_engine := e\<rparr>)))"

text \<open>What \<open>stopColdSandbox\<close> does with the result of \<open>Stop\<close>: a VM that would not power off three times is marked unknown.\<close>

definition cold_commit :: "time \<Rightarrow> Sandbox \<Rightarrow> stop_result \<Rightarrow> 'e thermal \<Rightarrow> 'e thermal" where
  "cold_commit now sb r s =
     (let stopped = (\<lambda>s. resetSnapshotFailures (sb_EngineID sb)
            (s\<lparr>th_store := after (th_store s) (StopSandbox now (sb_ID sb) (th_store s))\<rparr>));
          announce = (\<lambda>s. record_thermal ''thermal.snapshot'' (sb_ID sb) (record_thermal ''sandbox.stopped'' (sb_ID sb) s)) in
      case r of
        StopOK \<Rightarrow> announce (stopped s)
      | StopUnclean reason \<Rightarrow> announce (record_thermal ''sandbox.unclean_stop'' (sb_ID sb) (stopped s))
      | StopFailed \<Rightarrow>
          (case incrementSnapshotFailures (sb_EngineID sb) s of (count, s') \<Rightarrow>
             record_thermal ''thermal.snapshot_failed'' (sb_ID sb)
               (if count \<ge> 3
                then resetSnapshotFailures (sb_EngineID sb)
                       (s'\<lparr>th_store := after (th_store s') (UpdateSandboxStatus (sb_ID sb) ''unknown'' (th_store s'))\<rparr>)
                else s')))"

definition stopColdSandbox :: "('o, 'e) ThermalEngine \<Rightarrow> 'o \<Rightarrow> time \<Rightarrow> Sandbox \<Rightarrow> 'e thermal \<Rightarrow> 'e thermal" where
  "stopColdSandbox te oc now sb s =
     (if hasInteractiveAttach s (sb_EngineID sb) then s
      else case te_Stop te oc (sb_EngineID sb) (th_engine s) of (r, e) \<Rightarrow> cold_commit now sb r (s\<lparr>th_engine := e\<rparr>))"

text \<open>A decided pause, as the code runs it when nothing interferes.\<close>

definition carry_out :: "('o, 'e) ThermalEngine \<Rightarrow> 'o \<Rightarrow> time \<Rightarrow> Sandbox \<Rightarrow> decision \<Rightarrow> 'e thermal \<Rightarrow> 'e thermal" where
  "carry_out te oc now sb dec s =
     (case dec of
        WantPause _ \<Rightarrow> if hasInteractiveAttach s (sb_EngineID sb) then s else pause_locked te oc now sb s
      | WantForce _ \<Rightarrow> if hasInteractiveAttach s (sb_EngineID sb) then resetThermalFails (sb_EngineID sb) s else force_locked te oc now sb s
      | _ \<Rightarrow> s)"

text \<open>
  One cycle: the hot guests in the order of the list, then the cold stops, which the code hands to at most eight workers and here run in the order they were found.
\<close>

fun hot_pass ::
  "('o, 'e) ThermalEngine \<Rightarrow> ThermalConfig \<Rightarrow> time \<Rightarrow> (string \<Rightarrow> (int \<times> int) option) \<Rightarrow> (string \<Rightarrow> 'o) \<Rightarrow> Sandbox list \<Rightarrow>
   'e thermal \<Rightarrow> Sandbox list \<times> 'e thermal" where
  "hot_pass te cfg now act oc [] s = ([], s)"
| "hot_pass te cfg now act oc (sb # sbs) s =
     (case cycle_decide te cfg now (act (sb_EngineID sb)) sb s of (dec, s') \<Rightarrow>
        (case hot_pass te cfg now act oc sbs (carry_out te (oc (sb_EngineID sb)) now sb dec s') of (cold, s'') \<Rightarrow>
           (case dec of WantCold _ \<Rightarrow> (sb # cold, s'') | _ \<Rightarrow> (cold, s''))))"

definition runThermalCycle ::
  "('o, 'e) ThermalEngine \<Rightarrow> ThermalConfig \<Rightarrow> time \<Rightarrow> (string \<Rightarrow> (int \<times> int) option) \<Rightarrow> (string \<Rightarrow> 'o) \<Rightarrow> 'e thermal \<Rightarrow> 'e thermal" where
  "runThermalCycle te cfg now act oc s =
     (case hot_pass te cfg now act oc (ListAllSandboxes (th_store s)) s of (cold, s') \<Rightarrow>
        fold (\<lambda>sb. stopColdSandbox te (oc (sb_EngineID sb)) now sb) cold s')"

section \<open>Waking\<close>

text \<open>\<open>ensureHot\<close> in its three sections: the look at the state, the wake, and the store. \<open>policy\<close> is \<open>checkStoredMounts\<close> of the VM.\<close>

definition wake_look :: "('o, 'e) ThermalEngine \<Rightarrow> time \<Rightarrow> string \<Rightarrow> 'e thermal \<Rightarrow> bool \<times> 'e thermal" where
  "wake_look te now i s = (let s' = touchActivity now i s in (te_ThermalState te (th_engine s') i = ''hot'', s'))"

definition wake_call :: "('o, 'e) ThermalEngine \<Rightarrow> (string \<Rightarrow> bool) \<Rightarrow> 'o \<Rightarrow> string \<Rightarrow> 'e thermal \<Rightarrow> bool \<times> 'e thermal" where
  "wake_call te policy oc i s =
     (if \<not> policy i then (False, s)
      else case te_EnsureHot te oc i (th_engine s) of (b, e) \<Rightarrow> (b, s\<lparr>th_engine := e\<rparr>))"

definition wake_store :: "string \<Rightarrow> 'e thermal \<Rightarrow> 'e thermal" where
  "wake_store i s =
     (case GetSandboxByEngineID i (th_store s) of
        Inl _ \<Rightarrow> s
      | Inr sb \<Rightarrow>
          record_thermal ''thermal.wake'' (sb_ID sb)
            (if sb_Status sb \<noteq> ''running''
             then s\<lparr>th_store := after (th_store s) (UpdateSandboxStatus (sb_ID sb) ''running'' (th_store s))\<rparr>
             else s))"

text \<open>\<open>thermalOf\<close> gives no interface for an engine without thermal support; then every VM counts as hot.\<close>

definition ensureHot :: "('o, 'e) ThermalEngine option \<Rightarrow> (string \<Rightarrow> bool) \<Rightarrow> time \<Rightarrow> 'o \<Rightarrow> string \<Rightarrow> 'e thermal \<Rightarrow> bool \<times> 'e thermal" where
  "ensureHot thermalOf policy now oc i s =
     (case thermalOf of
        None \<Rightarrow> (True, touchActivity now i s)
      | Some te \<Rightarrow>
          (case wake_look te now i s of
             (True, s') \<Rightarrow> (True, s')
           | (False, s') \<Rightarrow>
               (case wake_call te policy oc i s' of
                  (False, s'') \<Rightarrow> (False, s'')
                | (True, s'') \<Rightarrow> (True, wake_store i s''))))"

section \<open>One cycle\<close>

lemmas thermal_defs = touchActivity_def resetThermalFails_def resetSnapshotFailures_def set_activity_def record_thermal_def
  incrementThermalFails_def incrementSnapshotFailures_def

lemma thermal_engine_same [simp]:
  "th_engine (touchActivity now i s) = th_engine s" "th_engine (resetThermalFails i s) = th_engine s"
  "th_engine (resetSnapshotFailures i s) = th_engine s" "th_engine (set_activity now i s) = th_engine s"
  "th_engine (record_thermal typ i s) = th_engine s" "th_engine (cold_commit now sb r s) = th_engine s"
  "th_engine (attachInteractive now i s) = th_engine s" "th_engine (detachInteractive now i s) = th_engine s"
  "th_engine (snd (incrementThermalFails i s)) = th_engine s" "th_engine (wake_store i s) = th_engine s"
  "th_engine (snd (wake_look te now i s)) = th_engine s" "th_engine (snd (cycle_decide te cfg now act sb s)) = th_engine s"
  by (auto simp: thermal_defs cold_commit_def attachInteractive_def detachInteractive_def wake_store_def wake_look_def cycle_decide_def Let_def
      split: stop_result.splits sum.splits option.splits)


lemma pause_engine: "th_engine (pause_locked te oc now sb s) = snd (te_Pause te oc (sb_EngineID sb) (th_engine s))"
  by (auto simp: pause_locked_def split: prod.splits bool.splits)

lemma force_engine: "th_engine (force_locked te oc now sb s) = snd (te_ForcePause te oc (sb_EngineID sb) (th_engine s))"
  by (auto simp: force_locked_def split: prod.splits bool.splits)

section \<open>Interleaving\<close>

text \<open>Who holds the transition gate of a VM, and how far it got. While \<open>Stop\<close> runs the VM's \<open>launchMu\<close> is taken.\<close>

datatype 'o hold =
    PauseHeld Sandbox
  | ForceHeld Sandbox
  | ColdHeld Sandbox
  | ColdStopping Sandbox 'o
  | ColdStopped Sandbox stop_result

text \<open>
  The server, the decisions of the manager not yet carried out, the gates, and the requests inside \<open>ensureHot\<close> past their look: the VM and whether it
  was woken.
\<close>

record ('o, 'e) system =
  sy_srv :: "'e thermal"
  sy_decided :: "(Sandbox \<times> decision) set"
  sy_gates :: "string \<rightharpoonup> 'o hold"
  sy_waking :: "nat \<rightharpoonup> string \<times> bool"

definition gate_taken :: "('o, 'e) system \<Rightarrow> Sandbox \<Rightarrow> decision \<Rightarrow> 'o hold \<Rightarrow> ('o, 'e) system" where
  "gate_taken s sb dec h =
     (let s' = s\<lparr>sy_decided := sy_decided s - {(sb, dec)}\<rparr> in
      if hasInteractiveAttach (sy_srv s) (sb_EngineID sb) then s' else s'\<lparr>sy_gates := (sy_gates s)(sb_EngineID sb \<mapsto> h)\<rparr>)"

inductive sys_step :: "('o, 'e) ThermalEngine \<Rightarrow> ThermalConfig \<Rightarrow> (string \<Rightarrow> bool) \<Rightarrow> ('o, 'e) system \<Rightarrow> ('o, 'e) system \<Rightarrow> bool"
  for te cfg policy where
  decide: "cycle_decide te cfg now act sb (sy_srv s) = (dec, srv) \<Longrightarrow>
     sys_step te cfg policy s (s\<lparr>sy_srv := srv, sy_decided := insert (sb, dec) (sy_decided s)\<rparr>)"
| lock_pause: "(sb, WantPause idle) \<in> sy_decided s \<Longrightarrow> sy_gates s (sb_EngineID sb) = None \<Longrightarrow>
     sys_step te cfg policy s (gate_taken s sb (WantPause idle) (PauseHeld sb))"
| run_pause: "sy_gates s (sb_EngineID sb) = Some (PauseHeld sb) \<Longrightarrow>
     sys_step te cfg policy s (s\<lparr>sy_srv := pause_locked te oc now sb (sy_srv s), sy_gates := (sy_gates s)(sb_EngineID sb := None)\<rparr>)"
| lock_force: "(sb, WantForce n) \<in> sy_decided s \<Longrightarrow> sy_gates s (sb_EngineID sb) = None \<Longrightarrow>
     srv = (if hasInteractiveAttach (sy_srv s) (sb_EngineID sb) then resetThermalFails (sb_EngineID sb) (sy_srv s) else sy_srv s) \<Longrightarrow>
     sys_step te cfg policy s ((gate_taken s sb (WantForce n) (ForceHeld sb))\<lparr>sy_srv := srv\<rparr>)"
| run_force: "sy_gates s (sb_EngineID sb) = Some (ForceHeld sb) \<Longrightarrow>
     sys_step te cfg policy s (s\<lparr>sy_srv := force_locked te oc now sb (sy_srv s), sy_gates := (sy_gates s)(sb_EngineID sb := None)\<rparr>)"
| lock_cold: "(sb, WantCold idle) \<in> sy_decided s \<Longrightarrow> sy_gates s (sb_EngineID sb) = None \<Longrightarrow>
     sys_step te cfg policy s (gate_taken s sb (WantCold idle) (ColdHeld sb))"
| cold_begin: "sy_gates s (sb_EngineID sb) = Some (ColdHeld sb) \<Longrightarrow>
     sys_step te cfg policy s
       (s\<lparr>sy_srv := (sy_srv s)\<lparr>th_engine := te_stopping te oc (sb_EngineID sb) (th_engine (sy_srv s))\<rparr>,
          sy_gates := (sy_gates s)(sb_EngineID sb \<mapsto> ColdStopping sb oc)\<rparr>)"
| cold_end: "sy_gates s (sb_EngineID sb) = Some (ColdStopping sb oc) \<Longrightarrow>
     te_Stop te oc (sb_EngineID sb) (th_engine (sy_srv s)) = (r, e) \<Longrightarrow>
     sys_step te cfg policy s
       (s\<lparr>sy_srv := (sy_srv s)\<lparr>th_engine := e\<rparr>, sy_gates := (sy_gates s)(sb_EngineID sb \<mapsto> ColdStopped sb r)\<rparr>)"
| cold_done: "sy_gates s (sb_EngineID sb) = Some (ColdStopped sb r) \<Longrightarrow>
     sys_step te cfg policy s (s\<lparr>sy_srv := cold_commit now sb r (sy_srv s), sy_gates := (sy_gates s)(sb_EngineID sb := None)\<rparr>)"
| attach: "sy_gates s i = None \<Longrightarrow> sys_step te cfg policy s (s\<lparr>sy_srv := attachInteractive now i (sy_srv s)\<rparr>)"
| detach: "sy_gates s i = None \<Longrightarrow> sys_step te cfg policy s (s\<lparr>sy_srv := detachInteractive now i (sy_srv s)\<rparr>)"
| look: "sy_waking s c = None \<Longrightarrow> wake_look te now i (sy_srv s) = (hot, srv) \<Longrightarrow>
     sys_step te cfg policy s (s\<lparr>sy_srv := srv, sy_waking := (sy_waking s)(c := if hot then None else Some (i, False))\<rparr>)"
| call: "sy_waking s c = Some (i, False) \<Longrightarrow> (\<And>sb oc'. sy_gates s i \<noteq> Some (ColdStopping sb oc')) \<Longrightarrow>
     wake_call te policy oc i (sy_srv s) = (b, srv) \<Longrightarrow>
     sys_step te cfg policy s (s\<lparr>sy_srv := srv, sy_waking := (sy_waking s)(c := if b then Some (i, True) else None)\<rparr>)"
| store: "sy_waking s c = Some (i, True) \<Longrightarrow>
     sys_step te cfg policy s (s\<lparr>sy_srv := wake_store i (sy_srv s), sy_waking := (sy_waking s)(c := None)\<rparr>)"

definition idle_system :: "db \<Rightarrow> (string \<rightharpoonup> time) \<Rightarrow> 'e \<Rightarrow> ('o, 'e) system" where
  "idle_system d activity e =
     \<lparr>sy_srv = \<lparr>th_store = d, th_engine = e, th_lastActivity = activity, th_snapshotFailures = Map.empty, th_thermalFails = Map.empty,
        th_interactive = Map.empty, th_events = []\<rparr>,
      sy_decided = {}, sy_gates = Map.empty, sy_waking = Map.empty\<rparr>"

text \<open>A run in which the VM stays pinned.\<close>

definition pinned_run :: "('o, 'e) ThermalEngine \<Rightarrow> ThermalConfig \<Rightarrow> (string \<Rightarrow> bool) \<Rightarrow> string \<Rightarrow> ('o, 'e) system \<Rightarrow> ('o, 'e) system \<Rightarrow> bool" where
  "pinned_run te cfg policy i = (\<lambda>s t. sys_step te cfg policy s t \<and> hasInteractiveAttach (sy_srv t) i)\<^sup>*\<^sup>*"


lemma gate_taken_simps [simp]:
  "sy_srv (gate_taken s sb dec h) = sy_srv s"
  "hasInteractiveAttach (sy_srv s) i \<Longrightarrow> sy_gates s i = None \<Longrightarrow> sy_gates (gate_taken s sb dec h) i = None"
  by (auto simp: gate_taken_def Let_def)


context thermal_engine
begin

lemma step_inv: "sys_step te cfg policy s t \<Longrightarrow> inv (th_engine (sy_srv s)) \<Longrightarrow> inv (th_engine (sy_srv t))"
proof (induction rule: sys_step.induct)
  case (decide now act sb s dec srv)
  then show ?case using thermal_engine_same(12) [of te cfg now act sb "sy_srv s"] by simp
next
  case (look s c now i hot srv)
  then show ?case using thermal_engine_same(11) [of te now i "sy_srv s"] by simp
next
  case (call s c i oc b srv)
  then show ?case using wake_inv [of "th_engine (sy_srv s)" oc i] by (auto simp: wake_call_def split: if_splits prod.splits)
next
  case (cold_end s sb oc r e)
  then show ?case using stop_inv [of "th_engine (sy_srv s)" oc "sb_EngineID sb"] by simp
qed (simp_all add: pause_engine force_engine pause_inv force_inv stopping_inv)

text \<open>While a VM is pinned and its gate was free, nothing takes the gate and nothing cools the VM.\<close>

lemma pinned_step:
  assumes "sys_step te cfg policy s t" "inv (th_engine (sy_srv s))" "hasInteractiveAttach (sy_srv s) i" "sy_gates s i = None"
  shows "sy_gates t i = None \<and> (te_ThermalState te (th_engine (sy_srv s)) i = ''hot'' \<longrightarrow> te_ThermalState te (th_engine (sy_srv t)) i = ''hot'')"
  using assms
proof (induction rule: sys_step.induct)
  case (decide now act sb s dec srv)
  then show ?case using thermal_engine_same(12) [of te cfg now act sb "sy_srv s"] by simp
next
  case (look s c now i hot srv)
  then show ?case using thermal_engine_same(11) [of te now i "sy_srv s"] by simp
next
  case (run_pause s sb oc now)
  then have "sb_EngineID sb \<noteq> i" by auto
  with run_pause show ?case using pause_frame by (simp add: pause_engine)
next
  case (run_force s sb oc now)
  then have "sb_EngineID sb \<noteq> i" by auto
  with run_force show ?case using force_frame by (simp add: force_engine)
next
  case (cold_begin s sb oc)
  then have "sb_EngineID sb \<noteq> i" by auto
  with cold_begin show ?case using stopping_frame by simp
next
  case (cold_end s sb oc r e)
  then have "sb_EngineID sb \<noteq> i" by auto
  with cold_end show ?case using stop_frame [of "sb_EngineID sb" i oc "th_engine (sy_srv s)"] by simp
next
  case (call s c j oc b srv)
  then have "te_ThermalState te (th_engine (sy_srv s)) i = ''hot'' \<Longrightarrow> te_ThermalState te (th_engine srv) i = ''hot''"
    using wake_keeps [of "th_engine (sy_srv s)" i oc] wake_frame [of j i oc "th_engine (sy_srv s)"]
    by (cases "j = i") (auto simp: wake_call_def split: if_splits prod.splits)
  with call show ?case by simp
qed auto

lemma pinned_run_hot:
  assumes "pinned_run te cfg policy i s t" "inv (th_engine (sy_srv s))" "hasInteractiveAttach (sy_srv s) i" "sy_gates s i = None"
  shows "inv (th_engine (sy_srv t)) \<and> hasInteractiveAttach (sy_srv t) i \<and> sy_gates t i = None \<and>
    (te_ThermalState te (th_engine (sy_srv s)) i = ''hot'' \<longrightarrow> te_ThermalState te (th_engine (sy_srv t)) i = ''hot'')"
  using assms unfolding pinned_run_def
  by (induction rule: rtranclp_induct) (use step_inv pinned_step in blast)+

end

section \<open>Pins\<close>




definition example_row :: Sandbox where
  "example_row = \<lparr>sb_ID = ''s'', sb_Name = ''n'', sb_TemplateID = [], sb_EngineID = ''v'', sb_Status = ''running'', sb_IP = [], sb_EngineMeta = [],
     sb_NetPolicy = [], sb_CreatedBy = ''u'', sb_CreatedAt = 0, sb_StoppedAt = None, sb_KeepHot = False, sb_HasInit = False, sb_ShellTokenHash = [],
     sb_CPUs = 0, sb_MemoryMB = 0, sb_DiskSizeMB = 0, sb_Image = [], sb_Labels = [], sb_restart_pending = False\<rparr>"

definition example_cfg :: ThermalConfig where
  "example_cfg = \<lparr>tc_WarmTimeout = 30 * second, tc_ColdTimeout = 1800 * second\<rparr>"

definition all_well :: outcome where
  "all_well = \<lparr>oc_ctl = CtlOK, oc_sync = True, oc_boot = True\<rparr>"

definition example_system :: "string \<Rightarrow> cpu \<Rightarrow> (outcome, engine) system" where
  "example_system thermal c = idle_system (empty_db\<lparr>sandboxes := [example_row]\<rparr>) [''v'' \<mapsto> 0]
     [''v'' \<mapsto> \<lparr>vm_Status = ''running'', vm_Thermal = thermal, vm_cpu = c\<rparr>]"



text \<open>Two runs of several steps: a decided cold stop up to its write to the store, and a whole wake.\<close>

lemma three_steps: "R a b \<Longrightarrow> R b c \<Longrightarrow> R c d \<Longrightarrow> R\<^sup>*\<^sup>* a d"
  by (meson converse_rtranclp_into_rtranclp rtranclp.rtrancl_refl)

context thermal_engine
begin

lemma cold_stop_run:
  assumes "(sb, WantCold idle) \<in> sy_decided s" "sy_gates s (sb_EngineID sb) = None" "\<not> hasInteractiveAttach (sy_srv s) (sb_EngineID sb)"
    and stop: "te_Stop te oc (sb_EngineID sb) (th_engine (sy_srv s)) = (r, e)"
  shows "(sys_step te cfg policy)\<^sup>*\<^sup>* s
    (s\<lparr>sy_srv := (sy_srv s)\<lparr>th_engine := e\<rparr>, sy_decided := sy_decided s - {(sb, WantCold idle)}, sy_gates := (sy_gates s)(sb_EngineID sb \<mapsto> ColdStopped sb r)\<rparr>)"
proof -
  let ?i = "sb_EngineID sb" and ?step = "sys_step te cfg policy"
  define s1 where "s1 = gate_taken s sb (WantCold idle) (ColdHeld sb)"
  define s2 where "s2 = s1\<lparr>sy_srv := (sy_srv s1)\<lparr>th_engine := te_stopping te oc ?i (th_engine (sy_srv s1))\<rparr>, sy_gates := (sy_gates s1)(?i \<mapsto> ColdStopping sb oc)\<rparr>"
  have st1: "?step s s1" unfolding s1_def using assms by (intro sys_step.lock_cold)
  have g: "sy_gates s1 ?i = Some (ColdHeld sb)" using assms by (simp add: s1_def gate_taken_def Let_def)
  then have st2: "?step s1 s2" unfolding s2_def by (rule sys_step.cold_begin)
  have last: "?step s2 (s2\<lparr>sy_srv := (sy_srv s2)\<lparr>th_engine := e\<rparr>, sy_gates := (sy_gates s2)(?i \<mapsto> ColdStopped sb r)\<rparr>)"
    by (rule sys_step.cold_end) (use stop stop_resumed [of oc ?i "th_engine (sy_srv s)"] in \<open>simp_all add: s2_def s1_def\<close>)
  have final: "s2\<lparr>sy_srv := (sy_srv s2)\<lparr>th_engine := e\<rparr>, sy_gates := (sy_gates s2)(?i \<mapsto> ColdStopped sb r)\<rparr> =
    s\<lparr>sy_srv := (sy_srv s)\<lparr>th_engine := e\<rparr>, sy_decided := sy_decided s - {(sb, WantCold idle)}, sy_gates := (sy_gates s)(?i \<mapsto> ColdStopped sb r)\<rparr>"
    using assms by (simp add: s2_def s1_def gate_taken_def Let_def)
  show ?thesis by (rule three_steps [of ?step, OF st1 st2 last [unfolded final]])
qed

lemma wake_run:
  assumes c: "sy_waking s c = None" and cool: "te_ThermalState te (th_engine (sy_srv s)) i \<noteq> ''hot''" and pol: "policy i"
    and free: "\<And>sb oc'. sy_gates s i \<noteq> Some (ColdStopping sb oc')" and boot: "te_EnsureHot te oc i (th_engine (sy_srv s)) = (True, e)"
  shows "(sys_step te cfg policy)\<^sup>*\<^sup>* s (s\<lparr>sy_srv := wake_store i ((touchActivity now i (sy_srv s))\<lparr>th_engine := e\<rparr>)\<rparr>)"
proof -
  let ?step = "sys_step te cfg policy"
  define s1 where "s1 = s\<lparr>sy_srv := touchActivity now i (sy_srv s), sy_waking := (sy_waking s)(c \<mapsto> (i, False))\<rparr>"
  define s2 where "s2 = s1\<lparr>sy_srv := (sy_srv s1)\<lparr>th_engine := e\<rparr>, sy_waking := (sy_waking s1)(c \<mapsto> (i, True))\<rparr>"
  have "wake_look te now i (sy_srv s) = (False, touchActivity now i (sy_srv s))" using cool by (simp add: wake_look_def Let_def)
  from sys_step.look [of s c te now i, OF c this] have st1: "?step s s1" by (simp add: s1_def)
  have "wake_call te policy oc i (sy_srv s1) = (True, (sy_srv s1)\<lparr>th_engine := e\<rparr>)" using pol boot by (simp add: wake_call_def s1_def)
  then have st2: "?step s1 s2" using sys_step.call [of s1 c i te policy oc True] free by (simp add: s2_def) (simp add: s1_def)
  have last: "?step s2 (s2\<lparr>sy_srv := wake_store i (sy_srv s2), sy_waking := (sy_waking s2)(c := None)\<rparr>)"
    by (rule sys_step.store) (simp add: s2_def)
  have final: "s2\<lparr>sy_srv := wake_store i (sy_srv s2), sy_waking := (sy_waking s2)(c := None)\<rparr> =
    s\<lparr>sy_srv := wake_store i ((touchActivity now i (sy_srv s))\<lparr>th_engine := e\<rparr>)\<rparr>"
    using c by (simp add: s2_def s1_def fun_upd_idem)
  show ?thesis by (rule three_steps [of ?step, OF st1 st2 last [unfolded final]])
qed

end

text \<open>
  The store can end up denying a VM that runs. The cold stop powers the VM off and records the stop in two steps; a request that boots the VM in between finds the row still
  running and leaves it, and the stop then marks it stopped. The VM stays up: the manager skips the row, and a later
  request finds the VM hot and returns without looking at the store.
\<close>

theorem stop_races_wake:
  "\<exists>s. (sys_step (krucible True) example_cfg (\<lambda>_. True))\<^sup>*\<^sup>* (example_system ''warm'' Parked) s \<and>
     sy_gates s = Map.empty \<and> sy_waking s = Map.empty \<and>
     th_engine (sy_srv s) ''v'' = Some \<lparr>vm_Status = ''running'', vm_Thermal = ''hot'', vm_cpu = Executing\<rparr> \<and>
     map sb_Status (sandboxes (th_store (sy_srv s))) = [''stopped''] \<and>
     (\<forall>now oc. let (woken, srv) = ensureHot (Some (krucible True)) (\<lambda>_. True) now oc ''v'' (sy_srv s) in woken \<and> th_store srv = th_store (sy_srv s)) \<and>
     (\<forall>now act oc. th_engine (runThermalCycle (krucible True) example_cfg now act oc (sy_srv s)) = th_engine (sy_srv s))"
proof -
  let ?step = "sys_step (krucible True) example_cfg (\<lambda>_. True) :: (outcome, engine) system \<Rightarrow> _" and ?t = "2000 * second" and ?sb = example_row
  let ?off = "\<lparr>vm_Status = ''stopped'', vm_Thermal = ''cold'', vm_cpu = Off\<rparr>"
  let ?on = "\<lparr>vm_Status = ''running'', vm_Thermal = ''hot'', vm_cpu = Executing\<rparr>"
  define s where "s = example_system ''warm'' Parked"
  define s0 where "s0 = s\<lparr>sy_srv := sy_srv s, sy_decided := insert (?sb, WantCold ?t) (sy_decided s)\<rparr>"
  define s1 where "s1 = s0\<lparr>sy_srv := (sy_srv s0)\<lparr>th_engine := [''v'' \<mapsto> ?off]\<rparr>, sy_decided := sy_decided s0 - {(?sb, WantCold ?t)},
     sy_gates := (sy_gates s0)(''v'' \<mapsto> ColdStopped ?sb StopOK)\<rparr>"
  define s2 where "s2 = s1\<lparr>sy_srv := wake_store ''v'' ((touchActivity ?t ''v'' (sy_srv s1))\<lparr>th_engine := [''v'' \<mapsto> ?on]\<rparr>)\<rparr>"
  define s3 where "s3 = s2\<lparr>sy_srv := cold_commit ?t ?sb StopOK (sy_srv s2), sy_gates := (sy_gates s2)(''v'' := None)\<rparr>"
  have eid: "sb_EngineID ?sb = ''v''" "sb_ID ?sb = ''s''" "sb_Status ?sb = ''running''" "\<not> sb_KeepHot ?sb" by (simp_all add: example_row_def)
  note start = s_def example_system_def idle_system_def
  note kru = krucible_def ThermalState_def ok_on_def on_vm_def vm_op_defs all_well_def
  have "cycle_decide (krucible True) example_cfg ?t None ?sb (sy_srv s) = (WantCold ?t, sy_srv s)"
    by (simp add: cycle_decide_def start eid example_cfg_def kru hasInteractiveAttach_def count_of_def second_def Let_def)
  from sys_step.decide [OF this] have st0: "?step s s0" by (simp add: s0_def)
  have st1: "?step\<^sup>*\<^sup>* s0 s1"
    using krucible.cold_stop_run [of ?sb ?t s0 True all_well StopOK "[''v'' \<mapsto> ?off]" example_cfg "\<lambda>_. True"]
    by (simp add: s1_def s0_def start eid kru hasInteractiveAttach_def count_of_def)
  have st2: "?step\<^sup>*\<^sup>* s1 s2" unfolding s2_def
    by (rule krucible.wake_run [where c = 0 and oc = all_well]) (simp_all add: s1_def s0_def start kru)
  have g2: "sy_gates s2 = [''v'' \<mapsto> ColdStopped ?sb StopOK]" "sy_waking s2 = Map.empty" "th_engine (sy_srv s2) = [''v'' \<mapsto> ?on]"
    by (simp_all add: s2_def s1_def s0_def start)
  have st3: "?step s2 s3" using sys_step.cold_done [of s2 ?sb StopOK] g2 by (simp add: s3_def eid)
  have d2: "th_store (sy_srv s2) = th_store (sy_srv s)"
    by (simp add: s2_def s1_def s0_def wake_store_def thermal_defs start GetSandboxByEngineID_def query_row_def eid)
  have d3: "sandboxes (th_store (sy_srv s3)) = [?sb\<lparr>sb_Status := ''stopped'', sb_StoppedAt := Some ?t, sb_restart_pending := False\<rparr>]"
    by (simp add: s3_def cold_commit_def d2 record_thermal_def resetSnapshotFailures_def after_def StopSandbox_def update_sandbox_def sql_update_def
        sandboxes_cs_def update_rows_def start eid)
  have e3: "th_engine (sy_srv s3) = [''v'' \<mapsto> ?on]" "sy_gates s3 = Map.empty" "sy_waking s3 = Map.empty"
    by (simp_all add: s3_def g2)
  have wake: "ensureHot (Some (krucible True)) (\<lambda>_. True) now oc ''v'' (sy_srv s3) = (True, touchActivity now ''v'' (sy_srv s3))" for now oc
    by (simp add: ensureHot_def wake_look_def Let_def e3 kru)
  have cycle: "runThermalCycle (krucible True) example_cfg now act oc (sy_srv s3) = sy_srv s3" for now act oc
    by (simp add: runThermalCycle_def ListAllSandboxes_def order_by_def d3 cycle_decide_def carry_out_def Let_def)
  have "?step\<^sup>*\<^sup>* s s3" using st0 st1 st2 st3 by (meson converse_rtranclp_into_rtranclp rtranclp.rtrancl_into_rtrancl rtranclp_trans)
  then show ?thesis unfolding s_def using e3 d3 wake cycle
    by (intro exI [of _ s3]) (simp add: thermal_defs)
qed

section \<open>Every sandbox for itself\<close>

text \<open>What a cycle knows and changes about one VM.\<close>

definition view :: "engine thermal \<Rightarrow> string \<Rightarrow> VM option \<times> time option \<times> int option \<times> int option \<times> int option" where
  "view s i = (th_engine s i, th_lastActivity s i, th_snapshotFailures s i, th_thermalFails s i, th_interactive s i)"

text \<open>One sandbox alone: the decision, and what follows from it.\<close>

definition solo ::
  "bool \<Rightarrow> ThermalConfig \<Rightarrow> time \<Rightarrow> (int \<times> int) option \<Rightarrow> outcome \<Rightarrow> Sandbox \<Rightarrow> engine thermal \<Rightarrow> engine thermal" where
  "solo caps cfg now act oc sb s =
     (case cycle_decide (krucible caps) cfg now act sb s of (dec, s') \<Rightarrow>
        (case dec of
           WantCold _ \<Rightarrow> stopColdSandbox (krucible caps) oc now sb s'
         | _ \<Rightarrow> carry_out (krucible caps) oc now sb dec s'))"

lemma krucible_at:
  "te_ThermalState (krucible caps) e i = (case e i of None \<Rightarrow> [] | Some vm \<Rightarrow> vm_Thermal vm)"
  "te_Pause (krucible caps) oc i e = (case e i of None \<Rightarrow> (False, e) | Some vm \<Rightarrow> if caps then (fst (pause oc vm) = None, e(i \<mapsto> snd (pause oc vm))) else (False, e))"
  "te_ForcePause (krucible caps) oc i e = (case e i of None \<Rightarrow> (False, e) | Some vm \<Rightarrow> if caps then (fst (pause oc vm) = None, e(i \<mapsto> snd (pause oc vm))) else (False, e))"
  "te_Stop (krucible caps) oc i e = (case e i of None \<Rightarrow> (StopFailed, e) | Some vm \<Rightarrow> (fst (Stop oc vm), e(i \<mapsto> snd (Stop oc vm))))"
  by (auto simp: krucible_def ThermalState_def ok_on_def on_vm_def split: option.splits prod.splits)

lemma view_other:
  assumes "sb_EngineID sb \<noteq> i"
  shows "view (snd (cycle_decide te cfg now act sb s)) i = view s i"
    and "view (carry_out (krucible caps) oc now sb dec s) i = view s i"
    and "view (stopColdSandbox (krucible caps) oc now sb s) i = view s i"
  using assms
  by (auto simp: view_def cycle_decide_def carry_out_def stopColdSandbox_def pause_locked_def force_locked_def cold_commit_def thermal_defs krucible_at Let_def
      split: option.splits decision.splits stop_result.splits prod.splits bool.splits)

lemma view_same:
  assumes "view s i = view t i" "sb_EngineID sb = i"
  shows "fst (cycle_decide (krucible caps) cfg now act sb s) = fst (cycle_decide (krucible caps) cfg now act sb t)"
    and "view (snd (cycle_decide (krucible caps) cfg now act sb s)) i = view (snd (cycle_decide (krucible caps) cfg now act sb t)) i"
    and "view (carry_out (krucible caps) oc now sb dec s) i = view (carry_out (krucible caps) oc now sb dec t) i"
    and "view (stopColdSandbox (krucible caps) oc now sb s) i = view (stopColdSandbox (krucible caps) oc now sb t) i"
  using assms
  by (auto simp: view_def cycle_decide_def carry_out_def stopColdSandbox_def pause_locked_def force_locked_def cold_commit_def thermal_defs krucible_at Let_def
      hasInteractiveAttach_def count_of_def split: option.splits decision.splits stop_result.splits prod.splits bool.splits)

lemma hot_pass_other:
  assumes "i \<notin> sb_EngineID ` set sbs"
  shows "view (snd (hot_pass (krucible caps) cfg now act oc sbs s)) i = view s i \<and> set (fst (hot_pass (krucible caps) cfg now act oc sbs s)) \<subseteq> set sbs"
  using assms
proof (induction sbs arbitrary: s)
  case (Cons sb sbs)
  define s' where "s' = carry_out (krucible caps) (oc (sb_EngineID sb)) now sb
    (fst (cycle_decide (krucible caps) cfg now (act (sb_EngineID sb)) sb s)) (snd (cycle_decide (krucible caps) cfg now (act (sb_EngineID sb)) sb s))"
  have "sb_EngineID sb \<noteq> i" using Cons.prems by auto
  then have "view s' i = view s i" by (simp add: s'_def view_other)
  with Cons.IH [of s'] Cons.prems show ?case by (auto simp: s'_def case_prod_unfold split: decision.splits)
qed simp

lemma cold_pass_other:
  "i \<notin> sb_EngineID ` set sbs \<Longrightarrow> view (fold (\<lambda>sb. stopColdSandbox (krucible caps) (oc (sb_EngineID sb)) now sb) sbs s) i = view s i"
  by (induction sbs arbitrary: s) (auto simp: view_other)

lemma hot_pass_cold: "set (fst (hot_pass te cfg now act oc sbs s)) \<subseteq> set sbs \<and>
    (distinct (map sb_EngineID sbs) \<longrightarrow> distinct (map sb_EngineID (fst (hot_pass te cfg now act oc sbs s))))"
proof (induction sbs arbitrary: s)
  case (Cons sb sbs)
  define s' where "s' = carry_out te (oc (sb_EngineID sb)) now sb
    (fst (cycle_decide te cfg now (act (sb_EngineID sb)) sb s)) (snd (cycle_decide te cfg now (act (sb_EngineID sb)) sb s))"
  show ?case using Cons.IH [of s'] by (auto simp: s'_def case_prod_unfold split: decision.splits)
qed simp

lemma hot_pass_at:
  assumes "distinct (map sb_EngineID sbs)" "sb \<in> set sbs" "i = sb_EngineID sb"
    and dec: "cycle_decide (krucible caps) cfg now (act i) sb s = (dec, s1)"
  shows "view (snd (hot_pass (krucible caps) cfg now act oc sbs s)) i = view (carry_out (krucible caps) (oc i) now sb dec s1) i \<and>
    (sb \<in> set (fst (hot_pass (krucible caps) cfg now act oc sbs s)) \<longleftrightarrow> (\<exists>idle. dec = WantCold idle))"
  using assms
proof (induction sbs arbitrary: s s1)
  case (Cons sb0 sbs)
  define dec0 s0 where "dec0 = fst (cycle_decide (krucible caps) cfg now (act (sb_EngineID sb0)) sb0 s)"
    and "s0 = snd (cycle_decide (krucible caps) cfg now (act (sb_EngineID sb0)) sb0 s)"
  define s' where "s' = carry_out (krucible caps) (oc (sb_EngineID sb0)) now sb0 dec0 s0"
  let ?rest = "hot_pass (krucible caps) cfg now act oc sbs s'"
  have hp: "hot_pass (krucible caps) cfg now act oc (sb0 # sbs) s = ((if \<exists>idle. dec0 = WantCold idle then sb0 # fst ?rest else fst ?rest), snd ?rest)"
    by (auto simp: s'_def s0_def dec0_def case_prod_unfold split: decision.splits)
  show ?case
  proof (cases "sb0 = sb")
    case True
    then have out: "i \<notin> sb_EngineID ` set sbs" "sb \<notin> set sbs" using Cons.prems by auto
    have "dec0 = dec" "s0 = s1" using Cons.prems True by (simp_all add: dec0_def s0_def)
    then show ?thesis using hot_pass_other [OF out(1), of caps cfg now act oc s'] out(2) True Cons.prems(3) unfolding hp by (auto simp: s'_def)
  next
    case False
    then have ne: "sb_EngineID sb0 \<noteq> i" "sb \<in> set sbs" using Cons.prems by auto
    have "view s' i = view s i" using ne by (simp add: s'_def s0_def view_other)
    note same = view_same(1,2) [OF this Cons.prems(3) [symmetric], where caps = caps and cfg = cfg and now = now and act = "act i"]
    obtain s2 where s2: "cycle_decide (krucible caps) cfg now (act i) sb s' = (dec, s2)" "view s2 i = view s1 i"
      using same Cons.prems(4) by (metis fst_conv prod.collapse snd_conv)
    have "view (snd ?rest) i = view (carry_out (krucible caps) (oc i) now sb dec s2) i \<and> (sb \<in> set (fst ?rest) \<longleftrightarrow> (\<exists>idle. dec = WantCold idle))"
      by (rule Cons.IH) (use Cons.prems ne s2 in auto)
    moreover have "view (carry_out (krucible caps) (oc i) now sb dec s2) i = view (carry_out (krucible caps) (oc i) now sb dec s1) i"
      using view_same(3) [OF s2(2) Cons.prems(3) [symmetric]] .
    ultimately show ?thesis using False unfolding hp by auto
  qed
qed simp

lemma cold_pass_at:
  assumes "distinct (map sb_EngineID sbs)" "sb \<in> set sbs" "i = sb_EngineID sb"
  shows "view (fold (\<lambda>sb. stopColdSandbox (krucible caps) (oc (sb_EngineID sb)) now sb) sbs s) i =
    view (stopColdSandbox (krucible caps) (oc i) now sb s) i"
  using assms
proof (induction sbs arbitrary: s)
  case (Cons sb0 sbs)
  show ?case
  proof (cases "sb0 = sb")
    case True
    then have "i \<notin> sb_EngineID ` set sbs" using Cons.prems by auto
    then show ?thesis using True Cons.prems(3) by (simp add: cold_pass_other)
  next
    case False
    then have ne: "sb_EngineID sb0 \<noteq> i" "sb \<in> set sbs" using Cons.prems by auto
    then have "view (stopColdSandbox (krucible caps) (oc (sb_EngineID sb0)) now sb0 s) i = view s i" by (simp add: view_other)
    from view_same(4) [OF this Cons.prems(3) [symmetric]] Cons.IH Cons.prems ne show ?thesis by simp
  qed
qed simp

text \<open>
  C14: a cycle treats every sandbox as if it were alone. However many sandboxes of however many owners it walks over, the VM, the clocks and the counters
  of one end up as its own row, its own guest's report and its own state decide. A sandbox that is kept hot,
  pinned, not running, or used within the warm timeout keeps its VM as it is.
\<close>

theorem cycle_solo:
  assumes "distinct (map sb_EngineID (sandboxes (th_store s)))" "sb \<in> set (sandboxes (th_store s))"
  shows "view (runThermalCycle (krucible caps) cfg now act oc s) (sb_EngineID sb) =
      view (solo caps cfg now (act (sb_EngineID sb)) (oc (sb_EngineID sb)) sb s) (sb_EngineID sb) \<and>
    (sb_KeepHot sb \<or> sb_Status sb \<noteq> ''running'' \<or> hasInteractiveAttach s (sb_EngineID sb) \<or>
      (\<exists>ts. th_lastActivity s (sb_EngineID sb) = Some ts \<and> now - ts < tc_WarmTimeout cfg \<and> tc_WarmTimeout cfg \<le> tc_ColdTimeout cfg) \<longrightarrow>
     th_engine (runThermalCycle (krucible caps) cfg now act oc s) (sb_EngineID sb) = th_engine s (sb_EngineID sb))"
proof -
  define i where "i = sb_EngineID sb"
  define sbs where "sbs = ListAllSandboxes (th_store s)"
  have sbs: "distinct (map sb_EngineID sbs)" "sb \<in> set sbs"
    using assms by (simp_all add: sbs_def ListAllSandboxes_def order_by_def distinct_map)
  obtain dec s1 where dec: "cycle_decide (krucible caps) cfg now (act i) sb s = (dec, s1)" by (cases "cycle_decide (krucible caps) cfg now (act i) sb s")
  obtain cold s2 where hp: "hot_pass (krucible caps) cfg now act oc sbs s = (cold, s2)" by (cases "hot_pass (krucible caps) cfg now act oc sbs s")
  have at: "view s2 i = view (carry_out (krucible caps) (oc i) now sb dec s1) i" "sb \<in> set cold \<longleftrightarrow> (\<exists>idle. dec = WantCold idle)"
    using hot_pass_at [where act = act and oc = oc, OF sbs i_def dec] hp by simp_all
  have cold: "set cold \<subseteq> set sbs" "distinct (map sb_EngineID cold)" using hot_pass_cold [of "krucible caps" cfg now act oc sbs s] hp sbs by simp_all
  have run: "runThermalCycle (krucible caps) cfg now act oc s = fold (\<lambda>sb. stopColdSandbox (krucible caps) (oc (sb_EngineID sb)) now sb) cold s2"
    by (simp add: runThermalCycle_def sbs_def [symmetric] hp)
  have main: "view (runThermalCycle (krucible caps) cfg now act oc s) i = view (solo caps cfg now (act i) (oc i) sb s) i"
  proof (cases "\<exists>idle. dec = WantCold idle")
    case True
    then obtain idle where w: "dec = WantCold idle" by blast
    have v: "view s2 i = view s1 i" using at(1) by (simp add: w carry_out_def)
    have "sb \<in> set cold" using at(2) True by simp
    then have "view (runThermalCycle (krucible caps) cfg now act oc s) i = view (stopColdSandbox (krucible caps) (oc i) now sb s2) i"
      unfolding run by (rule cold_pass_at [OF cold(2) _ i_def])
    also have "\<dots> = view (stopColdSandbox (krucible caps) (oc i) now sb s1) i" by (rule view_same(4) [OF v i_def [symmetric]])
    finally show ?thesis by (simp add: solo_def dec w)
  next
    case False
    then have "i \<notin> sb_EngineID ` set cold" using at cold(1) sbs i_def by (auto simp: distinct_map inj_on_def)
    then have "view (runThermalCycle (krucible caps) cfg now act oc s) i = view s2 i" unfolding run by (rule cold_pass_other)
    then show ?thesis using False at(1) by (cases dec) (simp_all add: solo_def dec)
  qed
  have "th_engine (solo caps cfg now (act i) (oc i) sb s) i = th_engine s i"
    if "sb_KeepHot sb \<or> sb_Status sb \<noteq> ''running'' \<or> hasInteractiveAttach s i \<or>
      (\<exists>ts. th_lastActivity s i = Some ts \<and> now - ts < tc_WarmTimeout cfg \<and> tc_WarmTimeout cfg \<le> tc_ColdTimeout cfg)"
    using that unfolding i_def by (auto simp: solo_def cycle_decide_def carry_out_def Let_def)
  with main show ?thesis unfolding i_def by (simp add: view_def)
qed

lemma cycle_solo_witness:
  "th_engine (runThermalCycle (krucible True) example_cfg (10 * second) (\<lambda>_. None) (\<lambda>_. all_well) (sy_srv (example_system ''hot'' Executing))) ''v'' =
   Some \<lparr>vm_Status = ''running'', vm_Thermal = ''hot'', vm_cpu = Executing\<rparr>"
  using cycle_solo [of "sy_srv (example_system ''hot'' Executing)" example_row True example_cfg "10 * second" "\<lambda>_. None" "\<lambda>_. all_well"]
  by (simp add: example_system_def idle_system_def example_row_def example_cfg_def second_def)

end
