(* ===== verification/Events.thy ===== *)
theory Events
  imports Store "HOL-Library.Sublist"
begin

text \<open>
  The audit events: their table, \<^verbatim>\<open>src/pkg/store/event.go\<close>, and the recorder, \<^verbatim>\<open>src/pkg/server/event_recorder.go\<close>, which queues events for the
  table and fans them out to subscribers without ever making the caller wait. The recorder's goroutines interleave: callers of \<open>Record\<close>, the
  loop that batches and flushes, subscribers that read, cancel and are cut off, and \<open>Close\<close>. Sending on a closed channel and closing
  one twice are panics of Go and set a flag here. The properties: what is
  accepted reaches the table in order, what a subscriber reads has no gap, and closing ends the loop with nothing left over.
\<close>

section \<open>The table\<close>

text \<open>
  \<open>InsertEvents\<close>: one transaction, each row stamped by the database when its statement runs. \<open>marshal\<close> is \<open>json.Marshal\<close> of the meta data.
\<close>

definition event_row :: "('m \<Rightarrow> string option) \<Rightarrow> int \<Rightarrow> int \<Rightarrow> 'm Event \<Rightarrow> string Event" where
  "event_row marshal i ts e =
     \<lparr>e_ID = i, e_Timestamp = ts, e_Type = e_Type e, e_UserID = e_UserID e, e_SandboxID = e_SandboxID e,
      e_Meta = (case marshal (e_Meta e) of None \<Rightarrow> ''{\"error\":\"marshal_failed\"}'' | Some j \<Rightarrow> j)\<rparr>"

fun InsertEvents :: "('m \<Rightarrow> string option) \<Rightarrow> ('m Event \<times> int) list \<Rightarrow> db \<Rightarrow> db" where
  "InsertEvents marshal [] d = d"
| "InsertEvents marshal ((e, ts) # es) d =
     InsertEvents marshal es (d\<lparr>events := events d @ [event_row marshal (events_seq d + 1) ts e], events_seq := events_seq d + 1\<rparr>)"

text \<open>SQL's \<open>LIKE\<close>: a per cent sign is any text, an underscore any character, and letters match without case.\<close>

fun sql_like :: "string \<Rightarrow> string \<Rightarrow> bool" where
  "sql_like [] s = (s = [])"
| "sql_like (p # ps) [] = (p = CHR ''%'' \<and> sql_like ps [])"
| "sql_like (p # ps) (c # s) =
     (if p = CHR ''%'' then sql_like ps (c # s) \<or> sql_like (p # ps) s
      else (p = CHR ''_'' \<or> lower_char p = lower_char c) \<and> sql_like ps s)"

record EventFilter =
  ef_Type :: string
  ef_UserID :: string
  ef_SandboxID :: string
  ef_Since :: "time option"
  ef_Limit :: int

text \<open>The conditions of the query. A time is compared in whole milliseconds.\<close>

definition event_matches :: "EventFilter \<Rightarrow> string Event \<Rightarrow> bool" where
  "event_matches f e \<longleftrightarrow>
     (ef_Type f = [] \<or>
      (if CHR ''.'' \<in> set (ef_Type f) then e_Type e = ef_Type f
       else e_Type e = ef_Type f \<or> sql_like (ef_Type f @ ''.%'') (e_Type e))) \<and>
     (ef_UserID f = [] \<or> e_UserID e = ef_UserID f) \<and>
     (ef_SandboxID f = [] \<or> e_SandboxID e = ef_SandboxID f) \<and>
     (case ef_Since f of None \<Rightarrow> True | Some t \<Rightarrow> e_Timestamp e > t div 1000000)"

definition QueryEvents :: "(string \<Rightarrow> 'm) \<Rightarrow> EventFilter \<Rightarrow> db \<Rightarrow> 'm Event list" where
  "QueryEvents unmarshal f d =
     (let limit = (if ef_Limit f > 0 then ef_Limit f else 50);
          rows = take (nat limit) (order_by (\<lambda>e. - e_Timestamp e) (query_all (event_matches f) (events d))) in
      map (\<lambda>e. \<lparr>e_ID = e_ID e, e_Timestamp = e_Timestamp e, e_Type = e_Type e, e_UserID = e_UserID e, e_SandboxID = e_SandboxID e,
                e_Meta = unmarshal (e_Meta e)\<rparr>) rows)"

definition CountEvents :: "EventFilter \<Rightarrow> db \<Rightarrow> nat" where
  "CountEvents f d = length (query_all (event_matches f) (events d))"

definition PurgeOldEvents :: "time \<Rightarrow> int \<Rightarrow> db \<Rightarrow> db \<times> nat" where
  "PurgeOldEvents now retention d =
     (case sql_delete (\<lambda>e. e_Timestamp e < (now - retention) div 1000000) (events d) of (t, n) \<Rightarrow> (d\<lparr>events := t\<rparr>, n))"

text \<open>A type filter without a dot is the type itself or a family of types: those that continue it with a dot, in any case of letters.\<close>

lemma sql_like_all: "sql_like ''%'' s"
  by (induction s) auto

lemma sql_like_family:
  assumes "CHR ''%'' \<notin> set p" "CHR ''_'' \<notin> set p"
  shows "sql_like (p @ ''.%'') s \<longleftrightarrow> has_prefix (to_lower s) (to_lower p @ ''.'')"
  using assms
proof (induction p arbitrary: s)
  case Nil
  have dot: "lower_char CHR ''.'' = lower_char c \<longleftrightarrow> lower_char c = CHR ''.''" for c by (auto simp: lower_char_def)
  show ?case by (cases s) (auto simp: sql_like_all has_prefix_def to_lower_def dot)
next
  case (Cons q p)
  then show ?case by (cases s) (auto simp: has_prefix_def to_lower_def)
qed

section \<open>The recorder\<close>

record SubscriptionFilter =
  sf_TypePrefix :: string
  sf_SandboxID :: string
  sf_UserID :: string

definition matches :: "SubscriptionFilter \<Rightarrow> 'm Event \<Rightarrow> bool" where
  "matches f e \<longleftrightarrow>
     (sf_TypePrefix f = [] \<or> has_prefix (e_Type e) (sf_TypePrefix f)) \<and>
     (sf_SandboxID f = [] \<or> sf_SandboxID f = e_SandboxID e) \<and>
     (sf_UserID f = [] \<or> sf_UserID f = e_UserID e)"

definition subscriberBuffer :: nat where "subscriberBuffer = 64"

definition recorderBuffer :: nat where "recorderBuffer = 1000"

definition flushSize :: nat where "flushSize = 100"

text \<open>
  A subscriber and its channel. \<open>su_read\<close>, what its consumer has read so far, and \<open>su_since\<close>, how many events had been fanned out when it
  subscribed, are history and no fields of the Go struct.
\<close>

record 'm subscriber =
  su_filter :: SubscriptionFilter
  su_ch :: "'m Event list"
  su_closed :: bool
  su_read :: "'m Event list"
  su_since :: nat

text \<open>
  The recorder. \<open>rc_heap\<close> holds every subscriber ever made, \<open>rc_subs\<close> the ones in the map. \<open>rc_pending\<close> are the events between the two critical
  sections of their \<open>Record\<close>. History: the accepted events, the batches flushed with the outcome of each, the events fanned out, and whether Go panicked.
\<close>

record 'm recorder =
  rc_db :: db
  rc_ch :: "'m Event list"
  rc_closed :: bool
  rc_loopDone :: bool
  rc_Dropped :: nat
  rc_batch :: "'m Event list"
  rc_subs :: "nat set"
  rc_heap :: "nat \<Rightarrow> 'm subscriber"
  rc_subsClosed :: bool
  rc_nextID :: nat
  rc_pending :: "'m Event list"
  rc_accepted :: "'m Event list"
  rc_flushed :: "('m Event list \<times> bool) list"
  rc_fanned :: "'m Event list"
  rc_panic :: bool

definition NewEventRecorder :: "db \<Rightarrow> 'm recorder" where
  "NewEventRecorder d =
     \<lparr>rc_db = d, rc_ch = [], rc_closed = False, rc_loopDone = False, rc_Dropped = 0, rc_batch = [], rc_subs = {},
      rc_heap = (\<lambda>_. \<lparr>su_filter = \<lparr>sf_TypePrefix = [], sf_SandboxID = [], sf_UserID = []\<rparr>, su_ch = [], su_closed = False, su_read = [], su_since = 0\<rparr>),
      rc_subsClosed = False, rc_nextID = 0, rc_pending = [], rc_accepted = [], rc_flushed = [], rc_fanned = [], rc_panic = False\<rparr>"

text \<open>\<open>Record\<close>: the queue under \<open>mu\<close>, then the fan-out under \<open>subsMu\<close>. A channel that was closed under \<open>mu\<close> is never sent on.\<close>

definition record_enqueue :: "'m Event \<Rightarrow> 'm recorder \<Rightarrow> 'm recorder" where
  "record_enqueue e r =
     (if rc_closed r then r
      else let r' = (if length (rc_ch r) < recorderBuffer
                     then r\<lparr>rc_ch := rc_ch r @ [e], rc_accepted := rc_accepted r @ [e]\<rparr>
                     else r\<lparr>rc_Dropped := rc_Dropped r + 1\<rparr>) in
           r'\<lparr>rc_pending := e # rc_pending r'\<rparr>)"

text \<open>Sending on the channel of one subscriber: a panic when closed, \<open>None\<close> when the buffer is full.\<close>

definition try_send :: "'m Event \<Rightarrow> 'm subscriber \<Rightarrow> 'm subscriber option" where
  "try_send e u = (if length (su_ch u) < subscriberBuffer then Some (u\<lparr>su_ch := su_ch u @ [e]\<rparr>) else None)"

text \<open>The effect of \<open>fanOut\<close> on the subscriber with one id: it gets the event, or is cut off when it is full.\<close>

definition fan_one :: "'m Event \<Rightarrow> nat set \<Rightarrow> nat \<Rightarrow> 'm subscriber \<Rightarrow> 'm subscriber" where
  "fan_one e subs i u =
     (if i \<notin> subs \<or> \<not> matches (su_filter u) e then u
      else case try_send e u of Some u' \<Rightarrow> u' | None \<Rightarrow> u\<lparr>su_closed := True\<rparr>)"

definition slow :: "'m Event \<Rightarrow> 'm recorder \<Rightarrow> nat set" where
  "slow e r = {i \<in> rc_subs r. matches (su_filter (rc_heap r i)) e \<and> try_send e (rc_heap r i) = None}"

definition fanOut :: "'m Event \<Rightarrow> 'm recorder \<Rightarrow> 'm recorder" where
  "fanOut e r =
     r\<lparr>rc_heap := (\<lambda>i. fan_one e (rc_subs r) i (rc_heap r i)),
       rc_subs := rc_subs r - slow e r,
       rc_fanned := rc_fanned r @ [e],
       rc_panic := (rc_panic r \<or> (\<exists>i \<in> rc_subs r. matches (su_filter (rc_heap r i)) e \<and> su_closed (rc_heap r i)))\<rparr>"

definition Subscribe :: "SubscriptionFilter \<Rightarrow> 'm recorder \<Rightarrow> nat \<times> 'm recorder" where
  "Subscribe f r =
     (let i = rc_nextID r + 1;
          u = \<lparr>su_filter = f, su_ch = [], su_closed = rc_subsClosed r, su_read = [], su_since = length (rc_fanned r)\<rparr>;
          r' = r\<lparr>rc_nextID := i, rc_heap := (rc_heap r)(i := u)\<rparr> in
      (i, if rc_subsClosed r then r' else r'\<lparr>rc_subs := insert i (rc_subs r)\<rparr>))"

text \<open>The close of a channel behind the flag \<open>closed\<close>: it happens at most once.\<close>

definition close_once :: "'m subscriber \<Rightarrow> 'm subscriber" where
  "close_once u = u\<lparr>su_closed := True\<rparr>"

definition disconnect :: "nat \<Rightarrow> 'm recorder \<Rightarrow> 'm recorder" where
  "disconnect i r =
     (if i \<notin> rc_subs r then r
      else r\<lparr>rc_subs := rc_subs r - {i}, rc_heap := (rc_heap r)(i := close_once (rc_heap r i))\<rparr>)"

text \<open>\<open>Close\<close> in its two parts; it waits for the loop in between.\<close>

definition close_begin :: "'m recorder \<Rightarrow> 'm recorder" where
  "close_begin r = r\<lparr>rc_closed := True, rc_panic := (rc_panic r \<or> rc_closed r)\<rparr>"

definition close_subs :: "'m recorder \<Rightarrow> 'm recorder" where
  "close_subs r =
     r\<lparr>rc_subsClosed := True, rc_heap := (\<lambda>i. if i \<in> rc_subs r then close_once (rc_heap r i) else rc_heap r i), rc_subs := {}\<rparr>"

text \<open>
  The loop. \<open>stamps\<close> gives the time of each row of the batch and \<open>ok\<close> whether the transaction commits; a batch that does not is lost.
\<close>

definition flush :: "('m \<Rightarrow> string option) \<Rightarrow> bool \<Rightarrow> (nat \<Rightarrow> int) \<Rightarrow> 'm recorder \<Rightarrow> 'm recorder" where
  "flush marshal ok stamps r =
     (if rc_batch r = [] then r
      else r\<lparr>rc_db := (if ok then InsertEvents marshal (map (\<lambda>(k, e). (e, stamps k)) (enumerate 0 (rc_batch r))) (rc_db r) else rc_db r),
             rc_flushed := rc_flushed r @ [(rc_batch r, ok)], rc_batch := []\<rparr>)"

text \<open>One turn of the loop: a tick, or a receive, which blocks on an empty open channel.\<close>

datatype turn = Tick bool "nat \<Rightarrow> int" | Receive bool "nat \<Rightarrow> int"

fun loop_turn :: "('m \<Rightarrow> string option) \<Rightarrow> turn \<Rightarrow> 'm recorder \<Rightarrow> 'm recorder" where
  "loop_turn marshal (Tick ok stamps) r = (if rc_loopDone r then r else flush marshal ok stamps r)"
| "loop_turn marshal (Receive ok stamps) r =
     (if rc_loopDone r then r
      else case rc_ch r of
          [] \<Rightarrow> if rc_closed r then (flush marshal ok stamps r)\<lparr>rc_loopDone := True\<rparr> else r
        | e # es \<Rightarrow>
            (let r' = r\<lparr>rc_ch := es, rc_batch := rc_batch r @ [e]\<rparr> in
             if length (rc_batch r') \<ge> flushSize then flush marshal ok stamps r' else r'))"

text \<open>A consumer takes the oldest event from its channel, which Go allows after the close too.\<close>

definition consume :: "nat \<Rightarrow> 'm recorder \<Rightarrow> 'm recorder" where
  "consume i r =
     (case su_ch (rc_heap r i) of
        [] \<Rightarrow> r
      | e # es \<Rightarrow> r\<lparr>rc_heap := (rc_heap r)(i := (rc_heap r i)\<lparr>su_ch := es, su_read := su_read (rc_heap r i) @ [e]\<rparr>)\<rparr>)"

inductive rec_step :: "('m \<Rightarrow> string option) \<Rightarrow> 'm recorder \<Rightarrow> 'm recorder \<Rightarrow> bool" for marshal where
  rec_enqueue: "rec_step marshal r (record_enqueue e r)"
| rec_fan: "e \<in> set (rc_pending r) \<Longrightarrow> rec_step marshal r (fanOut e (r\<lparr>rc_pending := remove1 e (rc_pending r)\<rparr>))"
| rec_subscribe: "rec_step marshal r (snd (Subscribe f r))"
| rec_cancel: "rec_step marshal r (disconnect i r)"
| rec_consume: "rec_step marshal r (consume i r)"
| rec_turn: "rec_step marshal r (loop_turn marshal t r)"
| rec_close: "\<not> rc_closed r \<Longrightarrow> rec_step marshal r (close_begin r)"
| rec_close_subs: "rc_closed r \<Longrightarrow> rc_loopDone r \<Longrightarrow> \<not> rc_subsClosed r \<Longrightarrow> rec_step marshal r (close_subs r)"

section \<open>The queue\<close>

text \<open>What a row keeps of an event.\<close>

definition payload :: "('m \<Rightarrow> string option) \<Rightarrow> 'm Event \<Rightarrow> string \<times> string \<times> string \<times> string" where
  "payload marshal e = (e_Type e, e_UserID e, e_SandboxID e, e_Meta (event_row marshal 0 0 e))"

definition row_payload :: "string Event \<Rightarrow> string \<times> string \<times> string \<times> string" where
  "row_payload e = (e_Type e, e_UserID e, e_SandboxID e, e_Meta e)"

definition committed :: "'m recorder \<Rightarrow> 'm Event list" where
  "committed r = concat (map fst (filter snd (rc_flushed r)))"

definition queue_inv :: "('m \<Rightarrow> string option) \<Rightarrow> db \<Rightarrow> 'm recorder \<Rightarrow> bool" where
  "queue_inv marshal d r \<longleftrightarrow>
     length (rc_ch r) \<le> recorderBuffer \<and> length (rc_batch r) < flushSize \<and>
     rc_accepted r = concat (map fst (rc_flushed r)) @ rc_batch r @ rc_ch r \<and>
     (rc_loopDone r \<longrightarrow> rc_closed r \<and> rc_ch r = [] \<and> rc_batch r = []) \<and>
     map row_payload (events (rc_db r)) = map row_payload (events d) @ map (payload marshal) (committed r)"

lemma InsertEvents_rows: "map row_payload (events (InsertEvents marshal es d)) = map row_payload (events d) @ map (payload marshal \<circ> fst) es"
  by (induction marshal es d rule: InsertEvents.induct) (auto simp: row_payload_def payload_def event_row_def)

lemma fst_stamped: "map fst (map (\<lambda>(k, e). (e, f k)) (enumerate n xs)) = xs"
  by (induction xs arbitrary: n) auto

lemma flush_inv:
  assumes "map row_payload (events (rc_db r)) = map row_payload (events d) @ map (payload marshal) (committed r)"
    and "rc_accepted r = concat (map fst (rc_flushed r)) @ rc_batch r @ rc_ch r" "length (rc_ch r) \<le> recorderBuffer"
    and "rc_loopDone r \<longrightarrow> rc_closed r \<and> rc_ch r = [] \<and> rc_batch r = []"
  shows "queue_inv marshal d (flush marshal ok stamps r) \<and> rc_batch (flush marshal ok stamps r) = []"
proof -
  have "map (payload marshal \<circ> fst) (map (\<lambda>(k, e). (e, stamps k)) (enumerate 0 (rc_batch r))) = map (payload marshal) (rc_batch r)"
    by (metis fst_stamped map_map)
  with assms show ?thesis by (auto simp: queue_inv_def flush_def committed_def InsertEvents_rows flushSize_def)
qed

lemma queue_inv_same:
  assumes "queue_inv marshal d r" "rc_db r' = rc_db r" "rc_ch r' = rc_ch r" "rc_batch r' = rc_batch r" "rc_accepted r' = rc_accepted r"
    "rc_flushed r' = rc_flushed r" "rc_loopDone r' = rc_loopDone r" "rc_closed r \<longrightarrow> rc_closed r'"
  shows "queue_inv marshal d r'"
  using assms by (auto simp: queue_inv_def committed_def)

lemma loop_turn_inv: "queue_inv marshal d r \<Longrightarrow> queue_inv marshal d (loop_turn marshal t r)"
proof (cases t)
  case (Tick ok stamps)
  assume "queue_inv marshal d r"
  then show ?thesis using flush_inv [of r d marshal ok stamps] by (auto simp: Tick queue_inv_def)
next
  case (Receive ok stamps)
  assume inv: "queue_inv marshal d r"
  show ?thesis
  proof (cases "rc_ch r")
    case Nil
    have "queue_inv marshal d (flush marshal ok stamps r) \<and> rc_batch (flush marshal ok stamps r) = []"
      using inv by (intro flush_inv) (simp_all add: queue_inv_def)
    moreover have "rc_ch (flush marshal ok stamps r) = []" "rc_closed (flush marshal ok stamps r) = rc_closed r" using Nil by (simp_all add: flush_def)
    ultimately show ?thesis using inv Nil by (auto simp: Receive queue_inv_def committed_def)
  next
    case (Cons e es)
    define r' where "r' = r\<lparr>rc_ch := es, rc_batch := rc_batch r @ [e]\<rparr>"
    have "queue_inv marshal d (flush marshal ok stamps r')" if "\<not> rc_loopDone r"
      using inv Cons that flush_inv [of r' d marshal ok stamps] by (simp add: r'_def queue_inv_def committed_def)
    moreover have "queue_inv marshal d r'" if "\<not> rc_loopDone r" "\<not> flushSize \<le> Suc (length (rc_batch r))"
      using inv Cons that by (simp add: r'_def queue_inv_def committed_def)
    moreover have "length (rc_batch r') = Suc (length (rc_batch r))" by (simp add: r'_def)
    ultimately show ?thesis using inv Cons by (simp add: Receive r'_def [symmetric] Let_def)
  qed
qed

lemma rec_step_queue: "rec_step marshal r r' \<Longrightarrow> queue_inv marshal d r \<Longrightarrow> queue_inv marshal d r'"
proof (induction rule: rec_step.induct)
  case (rec_enqueue r e)
  then show ?case by (auto simp: record_enqueue_def queue_inv_def committed_def Let_def)
next
  case (rec_turn r t)
  then show ?case by (rule loop_turn_inv)
qed (auto elim!: queue_inv_same simp: fanOut_def Subscribe_def disconnect_def consume_def close_begin_def close_subs_def Let_def split: list.splits)

text \<open>After the channel is closed the loop ends: it needs one receive for each event left and one more, and ticks do no harm.\<close>

definition run_turns :: "('m \<Rightarrow> string option) \<Rightarrow> turn list \<Rightarrow> 'm recorder \<Rightarrow> 'm recorder" where
  "run_turns marshal ts r = fold (loop_turn marshal) ts r"

fun is_receive :: "turn \<Rightarrow> bool" where
  "is_receive (Tick _ _) = False"
| "is_receive (Receive _ _) = True"

lemma run_turns_done: "rc_loopDone r \<Longrightarrow> run_turns marshal ts r = r"
proof (induction ts)
  case (Cons t ts)
  then show ?case by (cases t) (simp_all add: run_turns_def)
qed (simp add: run_turns_def)

lemma drain:
  "rc_closed r \<Longrightarrow> length (filter is_receive ts) > length (rc_ch r) \<Longrightarrow> rc_loopDone (run_turns marshal ts r)"
proof (induction ts arbitrary: r)
  case (Cons t ts)
  show ?case
  proof (cases "rc_loopDone r")
    case False
    let ?r = "loop_turn marshal t r"
    have step: "rc_closed ?r" "rc_loopDone ?r \<or> length (rc_ch ?r) + (if is_receive t then 1 else 0) = length (rc_ch r)"
      using Cons.prems(1) False by (cases t; cases "rc_ch r"; simp add: flush_def Let_def)+
    show ?thesis
    proof (cases "rc_loopDone ?r")
      case True
      then show ?thesis using run_turns_done [of ?r marshal ts] by (simp add: run_turns_def)
    next
      case False
      then have "length (filter is_receive ts) > length (rc_ch ?r)" using step(2) Cons.prems(2) by (simp split: if_splits)
      from Cons.IH [OF step(1) this] show ?thesis by (simp add: run_turns_def)
    qed
  qed (use run_turns_done [of r marshal "t # ts"] in simp)
qed simp

lemma run_turns_inv: "queue_inv marshal d r \<Longrightarrow> queue_inv marshal d (run_turns marshal ts r)"
  by (induction ts arbitrary: r) (simp_all add: run_turns_def loop_turn_inv)

lemma run_turns_accepted: "rc_accepted (run_turns marshal ts r) = rc_accepted r"
proof (induction ts arbitrary: r)
  case (Cons t ts)
  have "rc_accepted (loop_turn marshal t r) = rc_accepted r" by (cases t) (auto simp: flush_def Let_def split: list.splits)
  with Cons show ?case by (simp add: run_turns_def)
qed (simp add: run_turns_def)

lemma queue_inv_start: "queue_inv marshal d (NewEventRecorder d)"
  by (simp add: queue_inv_def NewEventRecorder_def committed_def flushSize_def)

lemma queue_reach: "(rec_step marshal)\<^sup>*\<^sup>* (NewEventRecorder d) r \<Longrightarrow> queue_inv marshal d r"
  by (induction rule: rtranclp_induct) (use queue_inv_start rec_step_queue in blast)+

text \<open>
  C31: closing the recorder ends its loop, and nothing it accepted is left behind. Whatever callers, subscribers and the loop did before, once the channel is closed as many receives
  as it still holds events, and one more, finish the loop, however many ticks fall between them. Then the accepted events are exactly
  the flushed batches in the order of their acceptance, and the table has gained the events of those that committed, in that order.
\<close>

theorem recorder_drains:
  assumes "(rec_step marshal)\<^sup>*\<^sup>* (NewEventRecorder d) r" "rc_closed r" "length (filter is_receive ts) > length (rc_ch r)"
  shows "let r' = run_turns marshal ts r in
    rc_loopDone r' \<and> rc_ch r' = [] \<and> rc_batch r' = [] \<and> rc_accepted r = concat (map fst (rc_flushed r')) \<and>
    map row_payload (events (rc_db r')) = map row_payload (events d) @ map (payload marshal) (concat (map fst (filter snd (rc_flushed r'))))"
proof -
  have "queue_inv marshal d (run_turns marshal ts r)" using queue_reach [OF assms(1)] by (rule run_turns_inv)
  then show ?thesis using drain [OF assms(2,3), of marshal] run_turns_accepted [of marshal ts r]
    by (simp add: queue_inv_def committed_def Let_def)
qed

definition example_event :: "string Event" where
  "example_event = \<lparr>e_ID = 0, e_Timestamp = 0, e_Type = ''thermal.pause'', e_UserID = ''u'', e_SandboxID = ''s'', e_Meta = ''{}''\<rparr>"

lemma recorder_drains_witness:
  "let r = close_begin (record_enqueue example_event (NewEventRecorder empty_db)) in
   rc_loopDone (run_turns Some [Receive True (\<lambda>_. 7), Tick True (\<lambda>_. 8), Receive True (\<lambda>_. 9)] r) \<and> rc_accepted r = [example_event]"
proof -
  define r where "r = close_begin (record_enqueue example_event (NewEventRecorder empty_db))"
  have "rec_step Some (record_enqueue example_event (NewEventRecorder empty_db)) r"
    unfolding r_def by (rule rec_step.rec_close) (simp add: record_enqueue_def NewEventRecorder_def)
  then have "(rec_step Some)\<^sup>*\<^sup>* (NewEventRecorder empty_db) r"
    using rec_step.rec_enqueue [of Some "NewEventRecorder empty_db" example_event] by (meson converse_rtranclp_into_rtranclp rtranclp.rtrancl_refl)
  moreover have "rc_closed r" "rc_ch r = [example_event]" "rc_accepted r = [example_event]"
    by (simp_all add: r_def close_begin_def record_enqueue_def NewEventRecorder_def recorderBuffer_def)
  ultimately show ?thesis using recorder_drains [of Some empty_db r "[Receive True (\<lambda>_. 7), Tick True (\<lambda>_. 8), Receive True (\<lambda>_. 9)]"]
    by (simp add: r_def [symmetric] Let_def)
qed

section \<open>Subscriptions\<close>

definition sent_to :: "'m recorder \<Rightarrow> nat \<Rightarrow> 'm Event list" where
  "sent_to r i = filter (matches (su_filter (rc_heap r i))) (drop (su_since (rc_heap r i)) (rc_fanned r))"

definition stream_ok :: "'m recorder \<Rightarrow> nat \<Rightarrow> bool" where
  "stream_ok r i \<longleftrightarrow> su_since (rc_heap r i) \<le> length (rc_fanned r) \<and> length (su_ch (rc_heap r i)) \<le> subscriberBuffer \<and>
     prefix (su_read (rc_heap r i) @ su_ch (rc_heap r i)) (sent_to r i) \<and>
     (i \<in> rc_subs r \<longrightarrow> su_read (rc_heap r i) @ su_ch (rc_heap r i) = sent_to r i \<and> \<not> su_closed (rc_heap r i))"

definition subs_inv :: "'m recorder \<Rightarrow> bool" where
  "subs_inv r \<longleftrightarrow> (\<forall>i. stream_ok r i) \<and> (rc_subsClosed r \<longrightarrow> rc_subs r = {}) \<and> \<not> rc_panic r"

lemma fanOut_stream:
  assumes "stream_ok r i"
  shows "stream_ok (fanOut e r) i"
proof -
  let ?u = "rc_heap r i"
  have u: "su_since (fan_one e (rc_subs r) i ?u) = su_since ?u" "su_filter (fan_one e (rc_subs r) i ?u) = su_filter ?u"
    "su_read (fan_one e (rc_subs r) i ?u) = su_read ?u"
    by (simp_all add: fan_one_def try_send_def split: option.splits)
  have sent: "sent_to (fanOut e r) i = sent_to r i @ (if matches (su_filter ?u) e then [e] else [])"
    using assms by (simp add: sent_to_def fanOut_def u stream_ok_def)
  show ?thesis
  proof (cases "i \<in> rc_subs r \<and> matches (su_filter ?u) e \<and> length (su_ch ?u) < subscriberBuffer")
    case True
    then have "fan_one e (rc_subs r) i ?u = ?u\<lparr>su_ch := su_ch ?u @ [e]\<rparr>" by (simp add: fan_one_def try_send_def)
    then show ?thesis using assms True sent u unfolding stream_ok_def by (simp add: fanOut_def slow_def)
  next
    case False
    then have c: "su_ch (fan_one e (rc_subs r) i ?u) = su_ch ?u" by (auto simp: fan_one_def try_send_def)
    have "prefix (su_read ?u @ su_ch ?u) (sent_to (fanOut e r) i)" using assms unfolding sent stream_ok_def by (simp add: prefix_append)
    moreover have "i \<in> rc_subs (fanOut e r) \<Longrightarrow> \<not> matches (su_filter ?u) e \<and> i \<in> rc_subs r" using False by (auto simp: fanOut_def slow_def try_send_def)
    ultimately show ?thesis using assms c sent u unfolding stream_ok_def by (auto simp: fanOut_def fan_one_def)
  qed
qed

lemma stream_same:
  assumes "stream_ok r i" "rc_heap r' i = rc_heap r i" "rc_fanned r' = rc_fanned r" "i \<in> rc_subs r' \<longrightarrow> i \<in> rc_subs r"
  shows "stream_ok r' i"
  using assms by (auto simp: stream_ok_def sent_to_def)

lemma subs_inv_same:
  assumes "subs_inv r" "rc_heap r' = rc_heap r" "rc_fanned r' = rc_fanned r" "rc_subs r' = rc_subs r" "rc_subsClosed r' = rc_subsClosed r" "rc_panic r' = rc_panic r"
  shows "subs_inv r'"
  using assms stream_same [of r _ r'] by (simp add: subs_inv_def)

lemma consume_stream:
  assumes "\<And>k. stream_ok r k"
  shows "stream_ok (consume i r) j"
proof (cases "j = i \<and> su_ch (rc_heap r i) \<noteq> []")
  case True
  then obtain e es where "su_ch (rc_heap r i) = e # es" by (cases "su_ch (rc_heap r i)") auto
  then show ?thesis using True assms [of i] by (simp add: consume_def stream_ok_def sent_to_def)
next
  case False
  then have "rc_heap (consume i r) j = rc_heap r j" by (auto simp: consume_def split: list.splits)
  moreover have "rc_fanned (consume i r) = rc_fanned r" "rc_subs (consume i r) = rc_subs r" by (auto simp: consume_def split: list.splits)
  ultimately show ?thesis using assms [of j] stream_same [of r j "consume i r"] by simp
qed

lemma flush_same [simp]:
  "rc_heap (flush marshal ok stamps r) = rc_heap r" "rc_fanned (flush marshal ok stamps r) = rc_fanned r" "rc_subs (flush marshal ok stamps r) = rc_subs r"
  "rc_subsClosed (flush marshal ok stamps r) = rc_subsClosed r" "rc_panic (flush marshal ok stamps r) = rc_panic r"
  by (simp_all add: flush_def)

lemma loop_turn_same:
  "rc_heap (loop_turn marshal t r) = rc_heap r" "rc_fanned (loop_turn marshal t r) = rc_fanned r" "rc_subs (loop_turn marshal t r) = rc_subs r"
  "rc_subsClosed (loop_turn marshal t r) = rc_subsClosed r" "rc_panic (loop_turn marshal t r) = rc_panic r"
  by (cases t; simp add: Let_def split: list.splits)+

lemma rec_step_subs: "rec_step marshal r r' \<Longrightarrow> subs_inv r \<Longrightarrow> subs_inv r'"
proof (induction rule: rec_step.induct)
  case (rec_enqueue r e)
  then show ?case by (rule subs_inv_same) (simp_all add: record_enqueue_def Let_def)
next
  case (rec_fan e r)
  let ?r = "r\<lparr>rc_pending := remove1 e (rc_pending r)\<rparr>"
  have inv: "subs_inv ?r" using rec_fan.prems by (rule subs_inv_same) simp_all
  have "stream_ok (fanOut e ?r) i" for i using inv by (intro fanOut_stream) (simp add: subs_inv_def)
  moreover have "\<not> su_closed (rc_heap r i)" if "i \<in> rc_subs r" for i using rec_fan.prems that by (simp add: subs_inv_def stream_ok_def)
  moreover have "rc_subsClosed (fanOut e ?r) = rc_subsClosed r" "rc_subs (fanOut e ?r) \<subseteq> rc_subs r" by (auto simp: fanOut_def)
  moreover have "\<not> rc_panic (fanOut e ?r)" using calculation(2) rec_fan.prems by (auto simp: fanOut_def subs_inv_def)
  ultimately show ?case using rec_fan.prems by (auto simp: subs_inv_def)
next
  case (rec_subscribe r f)
  have "stream_ok (snd (Subscribe f r)) i" for i
  proof (cases "i = rc_nextID r + 1")
    case True
    then show ?thesis using rec_subscribe by (auto simp: stream_ok_def sent_to_def Subscribe_def subs_inv_def Let_def)
  next
    case False
    then show ?thesis using rec_subscribe stream_same [of r i "snd (Subscribe f r)"] by (simp add: subs_inv_def Subscribe_def Let_def)
  qed
  then show ?case using rec_subscribe by (simp add: subs_inv_def Subscribe_def Let_def)
next
  case (rec_cancel r i)
  then show ?case by (auto simp: subs_inv_def disconnect_def stream_ok_def sent_to_def close_once_def)
next
  case (rec_consume r i)
  have "stream_ok (consume i r) j" for j using rec_consume by (intro consume_stream) (simp add: subs_inv_def)
  moreover have "rc_subs (consume i r) = rc_subs r" "rc_subsClosed (consume i r) = rc_subsClosed r" "rc_panic (consume i r) = rc_panic r"
    by (auto simp: consume_def split: list.splits)
  ultimately show ?case using rec_consume by (simp add: subs_inv_def)
next
  case (rec_turn r t)
  then show ?case by (rule subs_inv_same) (rule loop_turn_same)+
next
  case (rec_close r)
  from rec_close.prems show ?case by (rule subs_inv_same) (simp_all add: close_begin_def rec_close.hyps)
next
  case (rec_close_subs r)
  then show ?case by (auto simp: subs_inv_def close_subs_def stream_ok_def sent_to_def close_once_def)
qed

text \<open>
  C30: a subscription is a stream without gaps. What its consumer has read and what waits in its channel is, in order, a prefix of the events
  that match its filter among those fanned out since it subscribed; all of them for as long as it has not been cancelled, cut off or
  closed. It never holds more than 64 events unread, and no schedule of callers, cancels, slow readers and \<open>Close\<close> sends on a closed channel or closes one twice.
\<close>

theorem subscription_gapless:
  assumes "(rec_step marshal)\<^sup>*\<^sup>* (NewEventRecorder d) r"
  shows "prefix (su_read (rc_heap r i) @ su_ch (rc_heap r i)) (sent_to r i) \<and>
    (i \<in> rc_subs r \<longrightarrow> su_read (rc_heap r i) @ su_ch (rc_heap r i) = sent_to r i) \<and>
    length (su_ch (rc_heap r i)) \<le> 64 \<and> \<not> rc_panic r"
proof -
  have "subs_inv (NewEventRecorder d :: 'a recorder)"
    by (simp add: subs_inv_def NewEventRecorder_def stream_ok_def sent_to_def)
  with assms have "subs_inv r" by (induction rule: rtranclp_induct) (use rec_step_subs in blast)+
  then show ?thesis by (simp add: subs_inv_def stream_ok_def subscriberBuffer_def)
qed

lemma subscription_gapless_witness:
  "let f = \<lparr>sf_TypePrefix = ''thermal'', sf_SandboxID = [], sf_UserID = []\<rparr>;
     r = fanOut example_event ((record_enqueue example_event (snd (Subscribe f (NewEventRecorder empty_db))))\<lparr>rc_pending := []\<rparr>) in
   su_ch (rc_heap r 1) = [example_event] \<and> sent_to r 1 = [example_event]"
proof -
  define f where "f = \<lparr>sf_TypePrefix = ''thermal'', sf_SandboxID = [], sf_UserID = []\<rparr>"
  define r1 where "r1 = snd (Subscribe f (NewEventRecorder empty_db :: string recorder))"
  define r2 where "r2 = record_enqueue example_event r1"
  have pend: "rc_pending r2 = [example_event]"
    by (simp add: r2_def r1_def record_enqueue_def Subscribe_def NewEventRecorder_def recorderBuffer_def Let_def)
  then have "rec_step Some r2 (fanOut example_event (r2\<lparr>rc_pending := []\<rparr>))" using rec_step.rec_fan [of example_event r2 Some] by simp
  then have "(rec_step Some)\<^sup>*\<^sup>* (NewEventRecorder empty_db) (fanOut example_event (r2\<lparr>rc_pending := []\<rparr>))"
    using rec_step.rec_subscribe [of Some "NewEventRecorder empty_db" f] rec_step.rec_enqueue [of Some r1 example_event]
    unfolding r1_def [symmetric] r2_def [symmetric] by (meson converse_rtranclp_into_rtranclp rtranclp.rtrancl_refl)
  from subscription_gapless [OF this, of 1]
  show ?thesis
    by (simp add: Let_def f_def [symmetric] r1_def [symmetric] r2_def [symmetric])
      (simp add: f_def r2_def r1_def record_enqueue_def Subscribe_def NewEventRecorder_def recorderBuffer_def Let_def fanOut_def fan_one_def slow_def
        try_send_def matches_def example_event_def has_prefix_def subscriberBuffer_def sent_to_def)
qed

end
