(* ===== verification/Unit_File.thy ===== *)
theory Unit_File
  imports Bhatti_Prelude
begin

text \<open>
  Unit files as the guest's init \<open>lohar\<close> reads them: the parser and the drop-in merge of \<^verbatim>\<open>src/cmd/lohar/systemctl.go\<close>,
  names and their suffixes of \<open>unit.go\<close>, and the start conditions of \<open>conditions.go\<close>. A file's text and the file system are arguments. The
  properties: what a well-formed file says is what the parser returns, a drop-in overrides, extends or resets a
  directive, and a unit starts exactly when every condition holds.
\<close>

section \<open>The parser\<close>

record kvPair =
  kv_key :: string
  kv_value :: string

text \<open>The map from section names to directives; a section that is not there reads as the empty list.\<close>

type_synonym serviceFile = "string \<Rightarrow> kvPair list"

definition no_sections :: serviceFile where
  "no_sections = (\<lambda>_. [])"

abbreviation newline :: char where
  "newline \<equiv> CHR 0x0A"

abbreviation backslash :: char where
  "backslash \<equiv> CHR 0x5C"

text \<open>The first pass: a line ending in a backslash is glued to the next one; \<open>joined\<close> is the string builder.\<close>

fun join_lines :: "string list \<Rightarrow> string \<Rightarrow> string list" where
  "join_lines [] joined = (if joined \<noteq> [] then [joined] else [])"
| "join_lines (l # ls) joined =
     (if has_suffix l [backslash] then join_lines ls (joined @ butlast l @ '' '')
      else if joined \<noteq> [] then (joined @ l) # join_lines ls []
      else l # join_lines ls [])"

fun parse_lines :: "string \<Rightarrow> string list \<Rightarrow> serviceFile \<Rightarrow> serviceFile" where
  "parse_lines sec [] sf = sf"
| "parse_lines sec (l # ls) sf =
     (let line = trim_space l in
      if line = [] \<or> has_prefix line ''#'' \<or> has_prefix line '';'' then parse_lines sec ls sf
      else if has_prefix line ''['' \<and> has_suffix line '']'' then parse_lines (butlast (tl line)) ls sf
      else if CHR ''='' \<in> set line \<and> sec \<noteq> [] then
        parse_lines sec ls (sf(sec := sf sec @
          [\<lparr>kv_key = trim_space (takeWhile (\<lambda>c. c \<noteq> CHR ''='') line),
            kv_value = trim_space (tl (dropWhile (\<lambda>c. c \<noteq> CHR ''='') line))\<rparr>]))
      else parse_lines sec ls sf)"

text \<open>\<open>data\<close> is the outcome of \<^verbatim>\<open>os.ReadFile\<close>.\<close>

definition parseServiceFile :: "string option \<Rightarrow> serviceFile" where
  "parseServiceFile data =
     (case data of None \<Rightarrow> no_sections | Some s \<Rightarrow> parse_lines [] (join_lines (split_on newline s) []) no_sections)"

definition get :: "serviceFile \<Rightarrow> string \<Rightarrow> string \<Rightarrow> string" where
  "get sf sec key = fold (\<lambda>kv val. if kv_key kv = key then kv_value kv else val) (sf sec) []"

definition getAll :: "serviceFile \<Rightarrow> string \<Rightarrow> string \<Rightarrow> string list" where
  "getAll sf sec key = map kv_value (filter (\<lambda>kv. kv_key kv = key) (sf sec))"

text \<open>One directive of a drop-in: an empty value clears the key, any other is appended.\<close>

definition merge_kv :: "kvPair \<Rightarrow> kvPair list \<Rightarrow> kvPair list" where
  "merge_kv kv kvs = (if kv_value kv = [] then filter (\<lambda>e. kv_key e \<noteq> kv_key kv) kvs else kvs @ [kv])"

definition merge :: "serviceFile \<Rightarrow> serviceFile \<Rightarrow> serviceFile" where
  "merge sf other = (\<lambda>sec. fold merge_kv (other sec) (sf sec))"

section \<open>Names\<close>

definition unit_suffixes :: "string list" where
  "unit_suffixes = [''.service'', ''.socket'', ''.target'', ''.timer'', ''.mount'', ''.path'']"

definition splitSuffix :: "string \<Rightarrow> string \<times> string" where
  "splitSuffix name =
     (case find (has_suffix name) unit_suffixes of
        Some s \<Rightarrow> (trim_suffix name s, s)
      | None \<Rightarrow> (name, ''.service''))"

text \<open>\<^verbatim>\<open>strings.Fields\<close>, with the word read so far.\<close>

fun fields_from :: "string \<Rightarrow> string \<Rightarrow> string list" where
  "fields_from w [] = (if w = [] then [] else [w])"
| "fields_from w (c # cs) =
     (if is_space c then (if w = [] then fields_from [] cs else w # fields_from [] cs) else fields_from (w @ [c]) cs)"

definition fields :: "string \<Rightarrow> string list" where
  "fields s = fields_from [] s"

definition parseDepList :: "string \<Rightarrow> string list" where
  "parseDepList raw = filter (\<lambda>b. b \<noteq> []) (map (\<lambda>f. fst (splitSuffix f)) (fields raw))"

section \<open>Units\<close>

text \<open>A loaded unit; the back-pointer to its registry is the context the operations run in.\<close>

record Unit =
  un_Canonical :: string
  un_Suffix :: string
  un_Aliases :: "string list"
  un_Path :: string
  un_Instance :: string
  un_Template :: string
  un_Sections :: serviceFile
  un_Masked :: bool

definition FullName :: "Unit \<Rightarrow> string" where
  "FullName u = un_Canonical u @ un_Suffix u"

section \<open>Conditions\<close>

text \<open>What \<^verbatim>\<open>os.Stat\<close> and \<^verbatim>\<open>os.ReadDir\<close> say of a path, \<open>None\<close> on an error.\<close>

record file_info =
  fi_IsDir :: bool
  fi_Size :: int

record file_view =
  fv_stat :: "string \<Rightarrow> file_info option"
  fv_readdir :: "string \<Rightarrow> string list option"

definition stripNegation :: "string \<Rightarrow> string \<times> bool" where
  "stripNegation raw0 =
     (let raw = trim_space raw0 in if has_prefix raw ''!'' then (trim_space (tl raw), True) else (raw, False))"

text \<open>The four evaluators differ in the test alone; a reason names the directive and the path.\<close>

datatype reason = Passed | FailedNegated string string | FailedPlain string string

definition eval_condition :: "string \<Rightarrow> (string \<Rightarrow> bool) \<Rightarrow> string \<Rightarrow> bool \<times> reason" where
  "eval_condition directive test raw =
     (case stripNegation raw of (path, negate) \<Rightarrow>
        if path = [] then (True, Passed)
        else if negate then (if test path then (False, FailedNegated directive path) else (True, Passed))
        else if \<not> test path then (False, FailedPlain directive path) else (True, Passed))"

definition evalPathExists :: "file_view \<Rightarrow> string \<Rightarrow> bool \<times> reason" where
  "evalPathExists fs = eval_condition ''ConditionPathExists'' (\<lambda>p. fv_stat fs p \<noteq> None)"

definition evalPathIsDirectory :: "file_view \<Rightarrow> string \<Rightarrow> bool \<times> reason" where
  "evalPathIsDirectory fs = eval_condition ''ConditionPathIsDirectory''
     (\<lambda>p. case fv_stat fs p of None \<Rightarrow> False | Some st \<Rightarrow> fi_IsDir st)"

definition evalDirectoryNotEmpty :: "file_view \<Rightarrow> string \<Rightarrow> bool \<times> reason" where
  "evalDirectoryNotEmpty fs = eval_condition ''ConditionDirectoryNotEmpty''
     (\<lambda>p. case fv_readdir fs p of None \<Rightarrow> False | Some entries \<Rightarrow> entries \<noteq> [])"

definition evalFileNotEmpty :: "file_view \<Rightarrow> string \<Rightarrow> bool \<times> reason" where
  "evalFileNotEmpty fs = eval_condition ''ConditionFileNotEmpty''
     (\<lambda>p. case fv_stat fs p of None \<Rightarrow> False | Some st \<Rightarrow> \<not> fi_IsDir st \<and> fi_Size st > 0)"

text \<open>The loop over the values of one directive, stopping at the first failure, and the four of them in turn.\<close>

fun eval_all :: "(string \<Rightarrow> bool \<times> reason) \<Rightarrow> string list \<Rightarrow> (bool \<times> reason) \<Rightarrow> bool \<times> reason" where
  "eval_all ev [] next = next"
| "eval_all ev (c # cs) next = (if fst (ev c) then eval_all ev cs next else ev c)"

definition evaluateConditions :: "file_view \<Rightarrow> serviceFile \<Rightarrow> bool \<times> reason" where
  "evaluateConditions fs sf =
     eval_all (evalPathExists fs) (getAll sf ''Unit'' ''ConditionPathExists'')
    (eval_all (evalPathIsDirectory fs) (getAll sf ''Unit'' ''ConditionPathIsDirectory'')
    (eval_all (evalDirectoryNotEmpty fs) (getAll sf ''Unit'' ''ConditionDirectoryNotEmpty'')
    (eval_all (evalFileNotEmpty fs) (getAll sf ''Unit'' ''ConditionFileNotEmpty'') (True, Passed))))"

section \<open>Merging\<close>

lemma get_getAll: "get sf sec key = (if getAll sf sec key = [] then [] else last (getAll sf sec key))"
proof -
  have "fold (\<lambda>kv val. if kv_key kv = key then kv_value kv else val) kvs v =
     (if map kv_value (filter (\<lambda>kv. kv_key kv = key) kvs) = [] then v else last (map kv_value (filter (\<lambda>kv. kv_key kv = key) kvs)))"
    for kvs v by (induction kvs arbitrary: v) auto
  then show ?thesis unfolding get_def getAll_def .
qed

text \<open>The values a list of assignments leaves, starting from \<open>vs\<close>.\<close>

definition assigned :: "string list \<Rightarrow> string list \<Rightarrow> string list" where
  "assigned vs ws = (if [] \<in> set ws then rev (takeWhile (\<lambda>w. w \<noteq> []) (rev ws)) else vs @ ws)"

lemma assigned_snoc: "assigned vs (ws @ [w]) = (if w = [] then [] else assigned vs ws @ [w])"
  by (auto simp: assigned_def)

lemma merge_kv_values:
  "map kv_value (filter (\<lambda>kv. kv_key kv = key) (merge_kv d kvs)) =
     (if kv_key d \<noteq> key then map kv_value (filter (\<lambda>kv. kv_key kv = key) kvs)
      else if kv_value d = [] then [] else map kv_value (filter (\<lambda>kv. kv_key kv = key) kvs) @ [kv_value d])"
proof -
  have "kv_key d \<noteq> key \<Longrightarrow> filter (\<lambda>x. kv_key x \<noteq> kv_key d \<and> kv_key x = key) kvs = filter (\<lambda>kv. kv_key kv = key) kvs"
    by (rule filter_cong) auto
  then show ?thesis by (auto simp: merge_kv_def filter_empty_conv)
qed

lemma fold_merge_kv:
  "map kv_value (filter (\<lambda>kv. kv_key kv = key) (fold merge_kv ds kvs)) =
   assigned (map kv_value (filter (\<lambda>kv. kv_key kv = key) kvs)) (map kv_value (filter (\<lambda>kv. kv_key kv = key) ds))"
  by (induction ds rule: rev_induct) (simp_all add: assigned_def [of _ "[]"] merge_kv_values assigned_snoc)

text \<open>
  A drop-in overrides, extends or resets. After merging a drop-in, the values of a directive are
  those of the fragment followed by the drop-in's, unless the drop-in assigns the empty value; then they are only what
  the drop-in assigns after its last empty value. Other sections and keys are untouched by construction of the same equation.
\<close>

theorem merge_directive:
  "getAll (merge sf other) sec key =
     (let ws = getAll other sec key in
      if [] \<in> set ws then rev (takeWhile (\<lambda>w. w \<noteq> []) (rev ws)) else getAll sf sec key @ ws)"
  unfolding getAll_def merge_def fold_merge_kv by (simp add: assigned_def Let_def)

text \<open>
  The reset works in drop-ins only: in the fragment itself the empty value stays in the list, and the
  values before it too.
\<close>

lemma fragment_reset_ignored:
  "getAll (parseServiceFile (Some (''[Unit]'' @ newline # ''After=a'' @ newline # ''After='' @ newline # ''After=b''))) ''Unit'' ''After'' =
     [''a'', [], ''b'']"
  by code_simp

section \<open>Reading back what was written\<close>

definition unit_line :: "kvPair \<Rightarrow> string" where
  "unit_line kv = kv_key kv @ ''='' @ kv_value kv"

definition unit_lines :: "(string \<times> kvPair list) list \<Rightarrow> string list" where
  "unit_lines secs = concat (map (\<lambda>(name, kvs). (''['' @ name @ '']'') # map unit_line kvs) secs)"

fun unlines :: "string list \<Rightarrow> string" where
  "unlines [] = []"
| "unlines [l] = l"
| "unlines (l # ls) = l @ newline # unlines ls"

definition kv_ok :: "kvPair \<Rightarrow> bool" where
  "kv_ok kv \<longleftrightarrow> tidy (kv_key kv) \<and> CHR ''='' \<notin> set (kv_key kv) \<and> hd (kv_key kv) \<notin> {CHR ''#'', CHR '';'', CHR ''[''} \<and>
     (kv_value kv = [] \<or> tidy (kv_value kv) \<and> last (kv_value kv) \<noteq> backslash) \<and>
     newline \<notin> set (kv_key kv) \<and> newline \<notin> set (kv_value kv)"

definition section_ok :: "string \<times> kvPair list \<Rightarrow> bool" where
  "section_ok = (\<lambda>(name, kvs). name \<noteq> [] \<and> newline \<notin> set name \<and> list_all kv_ok kvs)"

lemma split_unlines: "ls \<noteq> [] \<Longrightarrow> list_all (\<lambda>l. newline \<notin> set l) ls \<Longrightarrow> split_on newline (unlines ls) = ls"
  by (induction ls rule: unlines.induct) (auto simp: split_on_append split_on_none)

lemma join_lines_id: "list_all (\<lambda>l. \<not> has_suffix l [backslash]) ls \<Longrightarrow> join_lines ls [] = ls"
  by (induction ls) auto

lemma has_suffix_single: "has_suffix s [c] \<longleftrightarrow> s \<noteq> [] \<and> last s = c"
  by (cases s rule: rev_cases) (auto simp: has_suffix_iff)

lemma has_prefix_single: "has_prefix s [c] \<longleftrightarrow> s \<noteq> [] \<and> hd s = c"
  by (cases s) (auto simp: has_prefix_iff)

lemma not_space [simp]: "\<not> is_space (CHR ''='')" "\<not> is_space (CHR ''['')" "\<not> is_space (CHR '']'')"
  by (simp_all add: is_space_def)

lemma unit_line_props:
  assumes "kv_ok kv"
  shows "tidy (unit_line kv)" "hd (unit_line kv) = hd (kv_key kv)" "newline \<notin> set (unit_line kv)"
    "\<not> has_suffix (unit_line kv) [backslash]"
  using assms by (auto simp: kv_ok_def unit_line_def tidy_def has_suffix_single)

lemma parse_unit_line:
  assumes "kv_ok kv" "sec \<noteq> []"
  shows "parse_lines sec (unit_line kv # ls) sf = parse_lines sec ls (sf(sec := sf sec @ [kv]))"
proof -
  have val: "trim_space (kv_value kv) = kv_value kv" and key: "trim_space (kv_key kv) = kv_key kv"
    using assms(1) by (auto simp: kv_ok_def trim_space_id) (simp add: trim_space_def)
  have "\<And>c. c \<in> set (kv_key kv) \<Longrightarrow> c \<noteq> CHR ''=''" using assms(1) by (auto simp: kv_ok_def)
  then have "takeWhile (\<lambda>c. c \<noteq> CHR ''='') (unit_line kv) = kv_key kv"
    "dropWhile (\<lambda>c. c \<noteq> CHR ''='') (unit_line kv) = CHR ''='' # kv_value kv"
    unfolding unit_line_def by (simp_all add: takeWhile_append2 dropWhile_append2)
  moreover have "CHR ''='' \<in> set (unit_line kv)" by (simp add: unit_line_def)
  moreover have "unit_line kv \<noteq> []" by (simp add: unit_line_def)
  moreover have "hd (unit_line kv) \<notin> {CHR ''#'', CHR '';'', CHR ''[''}"
    using unit_line_props(2) [OF assms(1)] assms(1) by (simp add: kv_ok_def)
  ultimately show ?thesis
    using trim_space_id [OF unit_line_props(1) [OF assms(1)]] assms(2) val key
    by (cases kv) (simp add: Let_def has_prefix_single)
qed

lemma parse_kvs:
  "list_all kv_ok kvs \<Longrightarrow> sec \<noteq> [] \<Longrightarrow> parse_lines sec (map unit_line kvs @ ls) sf = parse_lines sec ls (sf(sec := sf sec @ kvs))"
  by (induction kvs arbitrary: sf) (auto simp: parse_unit_line simp del: parse_lines.simps(2))

lemma parse_header: "parse_lines sec ((''['' @ name @ '']'') # ls) sf = parse_lines name ls sf"
proof -
  have "trim_space (CHR ''['' # name @ '']'') = CHR ''['' # name @ '']''"
    by (rule trim_space_id) (simp add: tidy_def)
  then show ?thesis by (simp add: has_prefix_single has_suffix_single)
qed

lemma parse_sections:
  "list_all section_ok secs \<Longrightarrow>
   parse_lines sec (unit_lines secs) sf s = sf s @ concat (map snd (filter (\<lambda>x. fst x = s) secs))"
proof (induction secs arbitrary: sec sf)
  case (Cons x secs)
  obtain name kvs where x: "x = (name, kvs)" by (cases x)
  with Cons.prems have ok: "name \<noteq> []" "list_all kv_ok kvs" "list_all section_ok secs" by (auto simp: section_ok_def)
  have lines: "unit_lines (x # secs) = (''['' @ name @ '']'') # map unit_line kvs @ unit_lines secs"
    by (simp add: unit_lines_def x)
  show ?case unfolding lines parse_header parse_kvs [OF ok(2,1)] using Cons.IH [OF ok(3)] by (auto simp: x)
qed (simp add: unit_lines_def)

text \<open>
  C40: a unit file reads back as it was written. For any sequence of sections with well-formed names and directives (trimmed, no line break,
  no leading comment or bracket, no trailing backslash), the parser returns for each section exactly the
  directives written under that name, in order, repeated headers accumulating.
\<close>

theorem unit_file_roundtrip:
  assumes "list_all section_ok secs"
  shows "parseServiceFile (Some (unlines (unit_lines secs))) s = concat (map snd (filter (\<lambda>x. fst x = s) secs))"
proof (cases "unit_lines secs = []")
  case True
  then have "secs = []" by (cases secs) (auto simp: unit_lines_def)
  then show ?thesis
    by (simp add: unit_lines_def parseServiceFile_def no_sections_def has_suffix_single trim_space_def Let_def)
next
  case False
  have "newline \<notin> set l \<and> \<not> has_suffix l [backslash]" if "l \<in> set (unit_lines secs)" for l
    using that assms unit_line_props(3,4)
    by (fastforce simp: unit_lines_def section_ok_def list_all_iff has_suffix_single)
  then have "join_lines (split_on newline (unlines (unit_lines secs))) [] = unit_lines secs"
    using False by (simp add: split_unlines join_lines_id list_all_iff)
  then show ?thesis using parse_sections [OF assms] by (simp add: parseServiceFile_def no_sections_def)
qed

definition example_unit :: "(string \<times> kvPair list) list" where
  "example_unit = [(''Unit'', [\<lparr>kv_key = ''After'', kv_value = ''postgresql.service''\<rparr>]),
     (''Service'', [\<lparr>kv_key = ''Type'', kv_value = ''notify''\<rparr>, \<lparr>kv_key = ''ExecStart'', kv_value = ''/usr/bin/web -p=80''\<rparr>])]"

lemma unit_file_roundtrip_witness:
  "parseServiceFile (Some (unlines (unit_lines example_unit))) ''Service'' =
     [\<lparr>kv_key = ''Type'', kv_value = ''notify''\<rparr>, \<lparr>kv_key = ''ExecStart'', kv_value = ''/usr/bin/web -p=80''\<rparr>]"
proof -
  have "list_all section_ok example_unit" by code_simp
  from unit_file_roundtrip [OF this, of "''Service''"] show ?thesis by (simp add: example_unit_def)
qed

section \<open>Conditions hold exactly\<close>

definition holds :: "(string \<Rightarrow> bool) \<Rightarrow> string \<Rightarrow> bool" where
  "holds test raw \<longleftrightarrow> (case stripNegation raw of (path, negate) \<Rightarrow> path = [] \<or> test path = (\<not> negate))"

lemma eval_condition_iff: "fst (eval_condition directive test raw) \<longleftrightarrow> holds test raw"
  by (auto simp: eval_condition_def holds_def split: prod.splits)

lemma eval_all_iff: "fst (eval_all ev cs next) \<longleftrightarrow> list_all (\<lambda>c. fst (ev c)) cs \<and> fst next"
  by (induction cs) auto

text \<open>A unit is started exactly when each of its conditions holds, a leading exclamation mark negating it.\<close>

lemma conditions_exact:
  "fst (evaluateConditions fs sf) \<longleftrightarrow>
     list_all (holds (\<lambda>p. fv_stat fs p \<noteq> None)) (getAll sf ''Unit'' ''ConditionPathExists'') \<and>
     list_all (holds (\<lambda>p. \<exists>st. fv_stat fs p = Some st \<and> fi_IsDir st)) (getAll sf ''Unit'' ''ConditionPathIsDirectory'') \<and>
     list_all (holds (\<lambda>p. \<exists>es. fv_readdir fs p = Some es \<and> es \<noteq> [])) (getAll sf ''Unit'' ''ConditionDirectoryNotEmpty'') \<and>
     list_all (holds (\<lambda>p. \<exists>st. fv_stat fs p = Some st \<and> \<not> fi_IsDir st \<and> fi_Size st > 0)) (getAll sf ''Unit'' ''ConditionFileNotEmpty'')"
proof -
  have opt: "(case x of None \<Rightarrow> False | Some y \<Rightarrow> Q y) \<longleftrightarrow> (\<exists>y. x = Some y \<and> Q y)" for x :: "'x option" and Q
    by (cases x) auto
  show ?thesis
    by (simp add: evaluateConditions_def eval_all_iff evalPathExists_def evalPathIsDirectory_def
        evalDirectoryNotEmpty_def evalFileNotEmpty_def eval_condition_iff opt)
qed

end
