(* ===== verification/Reaper.thy ===== *)
theory Reaper
  imports Bhatti_Prelude
begin

text \<open>
  The one place in \<open>lohar\<close> that waits for children, \<^verbatim>\<open>src/cmd/lohar/reaper.go\<close>. Starting a child and registering its channel is one critical section, a pass of the reaper
  another; children exit at any time, and the kernel's signal for it is a flag that many exits share. Process ids are
  reused as soon as a child is reaped. The property: every tracked child's own status reaches its own channel, once.
\<close>

type_synonym wait_status = int

text \<open>\<open>childExit.code\<close> of an exited, a signalled and any other status.\<close>

datatype childExit = Exited int | Signaled int | OtherStatus

fun exit_code :: "childExit \<Rightarrow> int" where
  "exit_code (Exited n) = n"
| "exit_code (Signaled s) = 128 + s"
| "exit_code OtherStatus = 1"

text \<open>
  The kernel's table of children: the process behind an id, by a number of its own, and its status once it has exited. \<open>rp_wait\<close> is the map of the Go
  struct; a channel has the number of the process it was made for. \<open>rp_sent\<close> is what was ever sent on a channel, whose buffer is one.
  \<open>rp_exits\<close> and \<open>rp_tracked\<close> are history.
\<close>

record reaper =
  rp_children :: "nat \<rightharpoonup> nat \<times> childExit option"
  rp_wait :: "nat \<rightharpoonup> nat"
  rp_sent :: "nat \<Rightarrow> childExit list"
  rp_next :: nat
  rp_signal :: bool
  rp_pass :: bool
  rp_exits :: "nat \<rightharpoonup> childExit"
  rp_tracked :: "nat set"

definition no_children :: reaper where
  "no_children = \<lparr>rp_children = Map.empty, rp_wait = Map.empty, rp_sent = (\<lambda>_. []), rp_next = 0, rp_signal = False, rp_pass = False,
     rp_exits = Map.empty, rp_tracked = {}\<rparr>"

text \<open>\<open>startTracked\<close>, and an orphan that process 1 adopts.\<close>

definition startTracked :: "nat \<Rightarrow> reaper \<Rightarrow> nat \<times> reaper" where
  "startTracked pid r =
     (let c = rp_next r in
      (c, r\<lparr>rp_children := (rp_children r)(pid \<mapsto> (c, None)), rp_wait := (rp_wait r)(pid \<mapsto> c), rp_next := c + 1, rp_tracked := insert c (rp_tracked r)\<rparr>))"

definition adopt :: "nat \<Rightarrow> reaper \<Rightarrow> reaper" where
  "adopt pid r = r\<lparr>rp_children := (rp_children r)(pid \<mapsto> (rp_next r, None)), rp_next := rp_next r + 1\<rparr>"

definition child_exits :: "nat \<Rightarrow> nat \<Rightarrow> childExit \<Rightarrow> reaper \<Rightarrow> reaper" where
  "child_exits pid k st r =
     r\<lparr>rp_children := (rp_children r)(pid \<mapsto> (k, Some st)), rp_signal := True, rp_exits := (rp_exits r)(k \<mapsto> st)\<rparr>"

text \<open>One successful \<open>Wait4\<close> inside a pass, and the dispatch of its result.\<close>

definition reap_one :: "nat \<Rightarrow> childExit \<Rightarrow> reaper \<Rightarrow> reaper" where
  "reap_one pid st r =
     (let r' = r\<lparr>rp_children := (rp_children r)(pid := None)\<rparr> in
      case rp_wait r pid of
        None \<Rightarrow> r'
      | Some c \<Rightarrow> r'\<lparr>rp_wait := (rp_wait r)(pid := None), rp_sent := (rp_sent r)(c := rp_sent r c @ [st])\<rparr>)"

text \<open>
  \<open>reapAll\<close>: process 1 waits for any child, a standalone process only for the ones it tracks. A pass that waits for any child ends when there is no zombie; the other kind tries each
  tracked child once, so a zombie it leaves exited after its turn and has raised the signal again.
\<close>

inductive reap_step :: "bool \<Rightarrow> reaper \<Rightarrow> reaper \<Rightarrow> bool" for reapAll where
  rp_start: "\<not> rp_pass r \<Longrightarrow> rp_children r pid = None \<Longrightarrow> reap_step reapAll r (snd (startTracked pid r))"
| rp_adopt: "rp_children r pid = None \<Longrightarrow> reap_step reapAll r (adopt pid r)"
| rp_exit: "rp_children r pid = Some (k, None) \<Longrightarrow> reap_step reapAll r (child_exits pid k st r)"
| rp_begin: "rp_signal r \<Longrightarrow> \<not> rp_pass r \<Longrightarrow> reap_step reapAll r (r\<lparr>rp_signal := False, rp_pass := True\<rparr>)"
| rp_reap: "rp_pass r \<Longrightarrow> rp_children r pid = Some (k, Some st) \<Longrightarrow> reapAll \<or> rp_wait r pid \<noteq> None \<Longrightarrow> reap_step reapAll r (reap_one pid st r)"
| rp_end: "rp_pass r \<Longrightarrow> (\<And>pid k st. rp_children r pid = Some (k, Some st) \<Longrightarrow> \<not> reapAll \<and> (rp_wait r pid = None \<or> rp_signal r)) \<Longrightarrow>
    reap_step reapAll r (r\<lparr>rp_pass := False\<rparr>)"

section \<open>Every status, once\<close>

text \<open>A tracked child is in the table and registered and nothing was sent, or it was reaped and its status was.\<close>

definition tracked_ok :: "reaper \<Rightarrow> nat \<Rightarrow> bool" where
  "tracked_ok r c \<longleftrightarrow>
     (\<exists>pid. rp_children r pid = Some (c, rp_exits r c) \<and> rp_wait r pid = Some c \<and> rp_sent r c = []) \<or>
     (\<exists>st. rp_exits r c = Some st \<and> rp_sent r c = [st] \<and> (\<forall>pid x. rp_children r pid \<noteq> Some (c, x)))"

definition reap_inv :: "bool \<Rightarrow> reaper \<Rightarrow> bool" where
  "reap_inv reapAll r \<longleftrightarrow>
     (\<forall>c \<in> rp_tracked r. tracked_ok r c \<and> c < rp_next r) \<and>
     (\<forall>c. c \<notin> rp_tracked r \<longrightarrow> rp_sent r c = []) \<and>
     (\<forall>pid c. rp_wait r pid = Some c \<longrightarrow> c \<in> rp_tracked r \<and> (\<exists>x. rp_children r pid = Some (c, x))) \<and>
     (\<forall>pid k x. rp_children r pid = Some (k, x) \<longrightarrow> k < rp_next r \<and> rp_exits r k = x \<and> (\<forall>q y. rp_children r q = Some (k, y) \<longrightarrow> q = pid)) \<and>
     (\<forall>k \<ge> rp_next r. rp_exits r k = None \<and> k \<notin> rp_tracked r) \<and>
     (\<forall>pid k st. rp_children r pid = Some (k, Some st) \<longrightarrow> reapAll \<or> rp_wait r pid \<noteq> None \<longrightarrow> rp_signal r \<or> rp_pass r)"

lemma reap_invD:
  assumes "reap_inv reapAll r"
  shows "c \<in> rp_tracked r \<Longrightarrow> tracked_ok r c" "c \<in> rp_tracked r \<Longrightarrow> c < rp_next r" "c \<notin> rp_tracked r \<Longrightarrow> rp_sent r c = []"
    and "rp_wait r pid = Some c \<Longrightarrow> c \<in> rp_tracked r \<and> (\<exists>x. rp_children r pid = Some (c, x))"
    and "rp_children r pid = Some (k, x) \<Longrightarrow> k < rp_next r" "rp_children r pid = Some (k, x) \<Longrightarrow> rp_exits r k = x"
    and "rp_children r pid = Some (k, x) \<Longrightarrow> rp_children r q = Some (k, y) \<Longrightarrow> q = pid"
    and "k \<ge> rp_next r \<Longrightarrow> rp_exits r k = None \<and> k \<notin> rp_tracked r"
    and "rp_children r pid = Some (k, Some st) \<Longrightarrow> reapAll \<or> rp_wait r pid \<noteq> None \<Longrightarrow> rp_signal r \<or> rp_pass r"
  using assms unfolding reap_inv_def by blast+

lemma reap_invI:
  assumes "\<And>c. c \<in> rp_tracked r \<Longrightarrow> tracked_ok r c" "\<And>c. c \<in> rp_tracked r \<Longrightarrow> c < rp_next r" "\<And>c. c \<notin> rp_tracked r \<Longrightarrow> rp_sent r c = []"
    and "\<And>pid c. rp_wait r pid = Some c \<Longrightarrow> c \<in> rp_tracked r \<and> (\<exists>x. rp_children r pid = Some (c, x))"
    and "\<And>pid k x. rp_children r pid = Some (k, x) \<Longrightarrow> k < rp_next r" "\<And>pid k x. rp_children r pid = Some (k, x) \<Longrightarrow> rp_exits r k = x"
    and "\<And>pid q k x y. rp_children r pid = Some (k, x) \<Longrightarrow> rp_children r q = Some (k, y) \<Longrightarrow> q = pid"
    and "\<And>k. k \<ge> rp_next r \<Longrightarrow> rp_exits r k = None \<and> k \<notin> rp_tracked r"
    and "\<And>pid k st. rp_children r pid = Some (k, Some st) \<Longrightarrow> reapAll \<or> rp_wait r pid \<noteq> None \<Longrightarrow> rp_signal r \<or> rp_pass r"
  shows "reap_inv reapAll r"
  using assms unfolding reap_inv_def by blast

text \<open>A new process with a fresh number, registered or not.\<close>

lemma new_child_inv:
  assumes inv: "reap_inv reapAll r" and free: "rp_children r pid = None"
    and r': "rp_children r' = (rp_children r)(pid \<mapsto> (rp_next r, None))" "rp_sent r' = rp_sent r" "rp_next r' = rp_next r + 1" "rp_signal r' = rp_signal r"
      "rp_pass r' = rp_pass r" "rp_exits r' = rp_exits r"
    and tr: "rp_wait r' = (if b then (rp_wait r)(pid \<mapsto> rp_next r) else rp_wait r)"
      "rp_tracked r' = (if b then insert (rp_next r) (rp_tracked r) else rp_tracked r)"
  shows "reap_inv reapAll r'"
proof -
  note D = reap_invD [OF inv]
  have wait: "rp_wait r pid = None" using D(4) [of pid] free by (cases "rp_wait r pid") auto
  have new: "rp_sent r (rp_next r) = []" "rp_exits r (rp_next r) = None" using D(3,8) [of "rp_next r"] by auto
  have old: "tracked_ok r' c" if "c \<in> rp_tracked r" for c
  proof -
    have ne: "c \<noteq> rp_next r" using D(2) [OF that] by simp
    show ?thesis using D(1) [OF that] unfolding tracked_ok_def
    proof (elim disjE exE conjE)
      fix q assume q: "rp_children r q = Some (c, rp_exits r c)" "rp_wait r q = Some c" "rp_sent r c = []"
      then have "q \<noteq> pid" using free by auto
      then have "rp_children r' q = Some (c, rp_exits r' c) \<and> rp_wait r' q = Some c \<and> rp_sent r' c = []" using q r' tr by simp
      then show "(\<exists>pid. rp_children r' pid = Some (c, rp_exits r' c) \<and> rp_wait r' pid = Some c \<and> rp_sent r' c = []) \<or>
        (\<exists>st. rp_exits r' c = Some st \<and> rp_sent r' c = [st] \<and> (\<forall>pid x. rp_children r' pid \<noteq> Some (c, x)))" by blast
    qed (use r' ne in auto)
  qed
  moreover have "tracked_ok r' (rp_next r)" if "rp_next r \<in> rp_tracked r'"
  proof -
    have "rp_next r \<notin> rp_tracked r" using D(8) [of "rp_next r"] by simp
    then have "rp_wait r' pid = Some (rp_next r)" using that tr by (simp split: if_splits)
    then show ?thesis using new r' by (auto simp: tracked_ok_def)
  qed
  ultimately have ok: "tracked_ok r' c" if "c \<in> rp_tracked r'" for c using that tr by (auto split: if_splits)
  show ?thesis
  proof (rule reap_invI)
    fix c assume c: "c \<in> rp_tracked r'"
    show "tracked_ok r' c" using ok c .
    show "c < rp_next r'" using c tr(2) r'(3) D(2) [of c] by (auto split: if_splits)
  next
    fix c assume "c \<notin> rp_tracked r'"
    then show "rp_sent r' c = []" using tr(2) r'(2) D(3) [of c] by (auto split: if_splits)
  next
    fix q c assume "rp_wait r' q = Some c"
    then show "c \<in> rp_tracked r' \<and> (\<exists>x. rp_children r' q = Some (c, x))"
      using D(4) [of q c] wait unfolding tr r'(1) by (cases "q = pid"; cases b) simp_all
  next
    fix q k x assume q: "rp_children r' q = Some (k, x)"
    show "k < rp_next r'" "rp_exits r' k = x" using q r' D(5,6) [of q k x] new by (cases "q = pid"; simp)+
    fix p y assume "rp_children r' p = Some (k, y)"
    then have p: "if p = pid then k = rp_next r else rp_children r p = Some (k, y)" using r'(1) by (auto split: if_splits)
    from q have "if q = pid then k = rp_next r else rp_children r q = Some (k, x)" using r'(1) by (auto split: if_splits)
    with p show "p = q" using D(5) [of q k x] D(5) [of p k y] D(7) [of q k x p y] by (metis less_irrefl)
  next
    fix k assume "k \<ge> rp_next r'"
    then show "rp_exits r' k = None \<and> k \<notin> rp_tracked r'" using r'(3,6) tr(2) D(8) [of k] by (auto split: if_splits)
  next
    fix q k st assume "rp_children r' q = Some (k, Some st)" "reapAll \<or> rp_wait r' q \<noteq> None"
    then show "rp_signal r' \<or> rp_pass r'" using D(9) [of q k st] unfolding r' tr by (cases "q = pid"; cases b) simp_all
  qed
qed

lemma exit_inv:
  assumes inv: "reap_inv reapAll r" and run: "rp_children r pid = Some (k, None)"
  shows "reap_inv reapAll (child_exits pid k st r)"
proof -
  note D = reap_invD [OF inv]
  let ?r = "child_exits pid k st r"
  have r': "rp_children ?r = (rp_children r)(pid \<mapsto> (k, Some st))" "rp_exits ?r = (rp_exits r)(k \<mapsto> st)" "rp_wait ?r = rp_wait r"
    "rp_sent ?r = rp_sent r" "rp_next ?r = rp_next r" "rp_tracked ?r = rp_tracked r" "rp_signal ?r"
    by (simp_all add: child_exits_def)
  have only: "p = pid" if "rp_children r p = Some (k, x)" for p x using D(7) [OF run that] .
  have none: "rp_exits r k = None" using D(6) [OF run] .
  have "tracked_ok ?r c" if "c \<in> rp_tracked r" for c
    using D(1) [OF that] unfolding tracked_ok_def
  proof (elim disjE exE conjE)
    fix q assume q: "rp_children r q = Some (c, rp_exits r c)" "rp_wait r q = Some c" "rp_sent r c = []"
    have "rp_children ?r q = Some (c, rp_exits ?r c)"
    proof (cases "q = pid")
      case False
      then have "c \<noteq> k" using only q(1) by blast
      then show ?thesis using False q(1) by (simp add: r')
    qed (use q(1) run in \<open>auto simp: child_exits_def\<close>)
    then show "(\<exists>pid. rp_children ?r pid = Some (c, rp_exits ?r c) \<and> rp_wait ?r pid = Some c \<and> rp_sent ?r c = []) \<or>
        (\<exists>st. rp_exits ?r c = Some st \<and> rp_sent ?r c = [st] \<and> (\<forall>pid x. rp_children ?r pid \<noteq> Some (c, x)))"
      using q(2,3) unfolding r' by blast
  next
    fix x assume x: "rp_exits r c = Some x" "rp_sent r c = [x]" "\<forall>pid x. rp_children r pid \<noteq> Some (c, x)"
    then have "c \<noteq> k" using run by blast
    then show "(\<exists>pid. rp_children ?r pid = Some (c, rp_exits ?r c) \<and> rp_wait ?r pid = Some c \<and> rp_sent ?r c = []) \<or>
        (\<exists>st. rp_exits ?r c = Some st \<and> rp_sent ?r c = [st] \<and> (\<forall>pid x. rp_children ?r pid \<noteq> Some (c, x)))"
      using x by (simp add: r')
  qed
  moreover have "rp_exits ?r c = x \<and> c < rp_next r" if "rp_children ?r p = Some (c, x)" for p c x
  proof (cases "p = pid")
    case False
    then have p: "rp_children r p = Some (c, x)" using that by (simp add: r')
    then have "c \<noteq> k" using only False by blast
    then show ?thesis using D(5,6) [OF p] by (simp add: r')
  qed (use that run D(5) [OF run] in \<open>auto simp: child_exits_def\<close>)
  moreover have "q = p" if "rp_children ?r p = Some (c, x)" "rp_children ?r q = Some (c, y)" for p q c x y
  proof -
    have "\<exists>x. rp_children r p = Some (c, x)" "\<exists>y. rp_children r q = Some (c, y)" using that run by (auto simp: r' split: if_splits)
    then show ?thesis using D(7) by blast
  qed
  moreover have "\<exists>x. rp_children ?r p = Some (c, x)" if "rp_wait r p = Some c" for p c
    using D(4) [OF that] run by (cases "p = pid") (auto simp: child_exits_def)
  ultimately show ?thesis
    using D(2,3,4,8) D(5) [OF run] by (intro reap_invI) (auto simp: r'(3-7), auto simp: r'(2))
qed

lemma reap_one_inv:
  assumes inv: "reap_inv reapAll r" and zombie: "rp_children r pid = Some (k, Some st)" and pass: "rp_pass r"
  shows "reap_inv reapAll (reap_one pid st r)"
proof -
  note D = reap_invD [OF inv]
  let ?r = "reap_one pid st r"
  have wait: "rp_wait r pid = None \<or> rp_wait r pid = Some k \<and> k \<in> rp_tracked r" using D(4) [of pid] zombie by (cases "rp_wait r pid") auto
  have r': "rp_children ?r = (rp_children r)(pid := None)" "rp_exits ?r = rp_exits r" "rp_next ?r = rp_next r" "rp_tracked ?r = rp_tracked r" "rp_pass ?r"
    "rp_wait ?r = (rp_wait r)(pid := None)" "rp_sent ?r = (if rp_wait r pid = None then rp_sent r else (rp_sent r)(k := rp_sent r k @ [st]))"
    using wait pass by (auto simp: reap_one_def Let_def fun_upd_idem split: option.splits)
  have only: "p = pid" if "rp_children r p = Some (k, x)" for p x using D(7) [OF zombie that] .
  have "tracked_ok ?r c" if c: "c \<in> rp_tracked r" for c
  proof (cases "c = k")
    case True
    have "rp_wait r pid = Some k \<and> rp_sent r k = []"
      using D(1) [OF c] zombie only unfolding tracked_ok_def True by blast
    then have "rp_sent ?r k = [st]" "\<forall>p x. rp_children ?r p \<noteq> Some (k, x)" using only by (auto simp: r')
    then show ?thesis using D(6) [OF zombie] unfolding tracked_ok_def True r'(2) by blast
  next
    case False
    then have "rp_sent ?r c = rp_sent r c" by (simp add: r')
    moreover have "rp_children r p = Some (c, x) \<Longrightarrow> p \<noteq> pid" for p x using zombie False by auto
    ultimately show ?thesis using D(1) [OF c] unfolding tracked_ok_def r'(1,2,6) by auto
  qed
  moreover have "rp_sent ?r c = []" if "c \<notin> rp_tracked r" for c using D(3) [OF that] wait that by (auto simp: r')
  moreover have "\<exists>x. rp_children ?r p = Some (c, x)" if "rp_wait ?r p = Some c" for p c
    using D(4) [of p c] that by (cases "p = pid") (auto simp: r')
  ultimately show ?thesis
    using D(2,8) D(4) D(5,6) D(7) r'(5)
    by (intro reap_invI) (auto simp: r'(1-4,6) split: if_splits)
qed

lemma reap_step_inv: "reap_step reapAll r r' \<Longrightarrow> reap_inv reapAll r \<Longrightarrow> reap_inv reapAll r'"
proof (induction rule: reap_step.induct)
  case (rp_start r pid)
  show ?case by (rule new_child_inv [OF rp_start.prems rp_start.hyps(2), where b = True]) (simp_all add: startTracked_def Let_def)
next
  case (rp_adopt r pid)
  show ?case by (rule new_child_inv [OF rp_adopt.prems rp_adopt.hyps, where b = False]) (simp_all add: adopt_def)
next
  case (rp_exit r pid k st)
  then show ?case by (intro exit_inv)
next
  case (rp_reap r pid k st)
  then show ?case by (intro reap_one_inv)
next
  case (rp_begin r)
  then show ?case by (auto simp: reap_inv_def tracked_ok_def)
next
  case (rp_end r)
  note D = reap_invD [OF rp_end.prems]
  have "rp_signal r" if "rp_children r pid = Some (k, Some st)" "reapAll \<or> rp_wait r pid \<noteq> None" for pid k st
    using rp_end.hyps(2) [OF that(1)] that(2) by blast
  moreover have "tracked_ok (r\<lparr>rp_pass := False\<rparr>) c" if "c \<in> rp_tracked r" for c using D(1) [OF that] by (simp add: tracked_ok_def)
  ultimately show ?case using D(2-8) by (intro reap_invI) simp_all
qed

text \<open>
  C32: no exit is lost and none is mixed up. In every interleaving of starts, adopted orphans, exits and passes, with process ids reused, at most one status is ever sent on a channel of
  size one, so the reaper never blocks on it; that status is the one the channel's own process exited with; and whenever the reaper is neither
  in a pass nor about to start one, every tracked process that has exited has had its status sent and, in process 1, no zombie is left.
\<close>

theorem reaper_exact:
  assumes "(reap_step reapAll)\<^sup>*\<^sup>* no_children r"
  shows "length (rp_sent r c) \<le> 1 \<and> set (rp_sent r c) \<subseteq> set_option (rp_exits r c) \<and>
    (rp_pass r \<or> rp_signal r \<or>
      (c \<in> rp_tracked r \<longrightarrow> rp_sent r c = (case rp_exits r c of None \<Rightarrow> [] | Some st \<Rightarrow> [st])) \<and>
      (reapAll \<longrightarrow> (\<forall>pid k st. rp_children r pid \<noteq> Some (k, Some st))))"
proof -
  have "reap_inv reapAll no_children" by (simp add: reap_inv_def no_children_def)
  with assms have inv: "reap_inv reapAll r" by (induction rule: rtranclp_induct) (use reap_step_inv in blast)+
  note D = reap_invD [OF inv]
  have sent: "rp_sent r c = [] \<or> (\<exists>st. rp_exits r c = Some st \<and> rp_sent r c = [st])"
    using D(1,3) [of c] unfolding tracked_ok_def by blast
  have "rp_sent r c = (case rp_exits r c of None \<Rightarrow> [] | Some st \<Rightarrow> [st])" if "\<not> rp_pass r" "\<not> rp_signal r" "c \<in> rp_tracked r"
    using D(1) [OF that(3)] unfolding tracked_ok_def
  proof (elim disjE exE conjE)
    fix pid assume p: "rp_children r pid = Some (c, rp_exits r c)" "rp_wait r pid = Some c" "rp_sent r c = []"
    then have "rp_exits r c = None" using D(9) [of pid c] that by (cases "rp_exits r c") auto
    with p show ?thesis by simp
  qed auto
  then show ?thesis using sent D(9) by auto
qed

lemma reaper_exact_witness:
  "let r = reap_one 7 (Exited 3) ((child_exits 7 0 (Exited 3) (snd (startTracked 7 no_children)))\<lparr>rp_signal := False, rp_pass := True\<rparr>) in
   rp_sent r 0 = [Exited 3] \<and> length (rp_sent r 0) \<le> 1"
proof -
  define r1 where "r1 = snd (startTracked 7 no_children)"
  define r2 where "r2 = child_exits 7 0 (Exited 3) r1"
  define r3 where "r3 = r2\<lparr>rp_signal := False, rp_pass := True\<rparr>"
  have "reap_step True no_children r1" unfolding r1_def by (rule reap_step.rp_start) (simp_all add: no_children_def)
  moreover have "reap_step True r1 r2" unfolding r2_def by (rule reap_step.rp_exit) (simp add: r1_def startTracked_def no_children_def)
  moreover have "reap_step True r2 r3" unfolding r3_def
    by (rule reap_step.rp_begin) (simp_all add: r2_def r1_def startTracked_def no_children_def child_exits_def Let_def)
  moreover have "reap_step True r3 (reap_one 7 (Exited 3) r3)"
    by (rule reap_step.rp_reap [where k = 0]) (simp_all add: r3_def r2_def child_exits_def)
  ultimately have "(reap_step True)\<^sup>*\<^sup>* no_children (reap_one 7 (Exited 3) r3)" by (meson converse_rtranclp_into_rtranclp rtranclp.rtrancl_refl)
  from reaper_exact [OF this, of 0]
  show ?thesis unfolding Let_def r1_def [symmetric] r2_def [symmetric] r3_def [symmetric]
    by (simp add: reap_one_def r3_def r2_def r1_def startTracked_def no_children_def child_exits_def Let_def)
qed

end
