(* ===== verification/Supervisor.thy ===== *)
theory Supervisor
  imports Unit_File Rate_Window Reaper
begin

text \<open>
  How \<open>lohar\<close> keeps one service running, \<^verbatim>\<open>src/cmd/lohar/systemctl.go\<close>: starting and stopping it, the watcher that sees its exit and applies the restart policy, and
  the limit on restarts. Requests of the administrator run one at a time (\<open>captureOutputMu\<close>); a watcher runs beside them, and both work on the pid file, the
  marker of a failed run, and the request to stop, each in steps of its own. An exit status comes from the reaper (\<open>Reaper\<close>).
\<close>

section \<open>Policy\<close>

definition shouldRestart :: "string \<Rightarrow> int \<Rightarrow> bool \<Rightarrow> bool" where
  "shouldRestart policy exitCode signaled =
     (let failed = exitCode \<noteq> 0 in
      if policy = ''always'' then True
      else if policy = ''on-success'' then \<not> failed
      else if policy = ''on-failure'' then failed
      else if policy = ''on-abnormal'' then signaled
      else False)"

definition millisecond :: int where "millisecond = 1000000"

text \<open>\<open>ParseDuration\<close> is \<^verbatim>\<open>time.ParseDuration\<close>.\<close>

definition parseRestartSec :: "(string \<Rightarrow> int option) \<Rightarrow> string \<Rightarrow> int" where
  "parseRestartSec ParseDuration v =
     (if v = [] then 100 * millisecond
      else case Atoi (trim_space v) of
          Some n \<Rightarrow> n * second
        | None \<Rightarrow> (case ParseDuration (trim_space v) of Some d \<Rightarrow> d | None \<Rightarrow> 100 * millisecond))"

record restart_cfg =
  rc_Restart :: string
  rc_RestartSec :: int
  rc_Burst :: int
  rc_Interval :: int

text \<open>What the watcher reads of the unit file.\<close>

definition restart_cfg_of :: "(string \<Rightarrow> int option) \<Rightarrow> serviceFile \<Rightarrow> restart_cfg" where
  "restart_cfg_of ParseDuration sf =
     \<lparr>rc_Restart = get sf ''Service'' ''Restart'',
      rc_RestartSec = parseRestartSec ParseDuration (get sf ''Service'' ''RestartSec''),
      rc_Burst = (let v = get sf ''Service'' ''StartLimitBurst'' in
        if v = [] then 5 else case Atoi (trim_space v) of Some n \<Rightarrow> n | None \<Rightarrow> 5),
      rc_Interval = (let v = get sf ''Service'' ''StartLimitIntervalSec'' in if v = [] then 10 * second else parseRestartSec ParseDuration v)\<rparr>"

definition restartBurstAllowed :: "restart_cfg \<Rightarrow> int \<Rightarrow> int list \<Rightarrow> bool \<times> int list" where
  "restartBurstAllowed cfg now history =
     (let fresh = filter (\<lambda>t. t > now - rc_Interval cfg) history in
      if int (length fresh) \<ge> rc_Burst cfg then (False, fresh) else (True, fresh @ [now]))"

section \<open>State and steps\<close>

text \<open>
  A watcher: waiting for the exit; with the status; after removing the pid file; after writing the marker; asleep until a time; past the checks of \<open>svcStart\<close>.
\<close>

datatype watcher = Watching | Reaped childExit | Unlinked childExit | MarkedExit childExit | Sleeping int | Restarting

text \<open>The request in progress; the flag of a stop says that a start follows, as in a restart.\<close>

datatype request = Idle | Checking | Starting | StopMarked bool | StopKilling nat bool | StopRemoving bool

text \<open>\<open>sp_procs\<close>: the daemon's processes that were not reaped, with the status of those that have exited.\<close>

record supervisor =
  sp_pidfile :: "nat option"
  sp_failed :: "int option"
  sp_stopReq :: bool
  sp_burst :: "int list"
  sp_procs :: "nat \<rightharpoonup> childExit option"
  sp_watch :: "nat \<rightharpoonup> watcher"
  sp_request :: request
  sp_nextPid :: nat

text \<open>A zombie still has its entry under \<^verbatim>\<open>/proc\<close>; \<open>executes\<close> is the process itself.\<close>

definition processAlive :: "supervisor \<Rightarrow> nat \<Rightarrow> bool" where
  "processAlive s p \<longleftrightarrow> sp_procs s p \<noteq> None"

definition executes :: "supervisor \<Rightarrow> nat \<Rightarrow> bool" where
  "executes s p \<longleftrightarrow> sp_procs s p = Some None"

definition IsRunning :: "supervisor \<Rightarrow> bool" where
  "IsRunning s = (case sp_pidfile s of None \<Rightarrow> False | Some p \<Rightarrow> processAlive s p)"

text \<open>The end of \<open>startDaemon\<close>: a process, its pid file, a clean slate and a watcher.\<close>

definition startDaemon :: "supervisor \<Rightarrow> supervisor" where
  "startDaemon s =
     (let p = sp_nextPid s in
      s\<lparr>sp_procs := (sp_procs s)(p \<mapsto> None), sp_pidfile := Some p, sp_failed := None, sp_watch := (sp_watch s)(p \<mapsto> Watching), sp_nextPid := p + 1\<rparr>)"

text \<open>Every return of \<open>svcStop\<close> clears the failed marker; a restart then goes on to \<open>svcStart\<close>.\<close>

definition stop_done :: "bool \<Rightarrow> supervisor \<Rightarrow> supervisor" where
  "stop_done restart s = s\<lparr>sp_failed := None, sp_request := (if restart then Checking else Idle)\<rparr>"

definition svcStop_look :: "bool \<Rightarrow> supervisor \<Rightarrow> supervisor" where
  "svcStop_look restart s =
     (case sp_pidfile s of
        None \<Rightarrow> stop_done restart (s\<lparr>sp_stopReq := False\<rparr>)
      | Some p \<Rightarrow>
          if processAlive s p then s\<lparr>sp_request := StopKilling p restart\<rparr>
          else stop_done restart (s\<lparr>sp_pidfile := None, sp_stopReq := False\<rparr>))"

text \<open>The watcher's decision: a requested stop is consumed, else policy and limit decide.\<close>

definition watch_decide :: "restart_cfg \<Rightarrow> int \<Rightarrow> nat \<Rightarrow> childExit \<Rightarrow> supervisor \<Rightarrow> supervisor" where
  "watch_decide cfg now p st s =
     (if sp_stopReq s then s\<lparr>sp_stopReq := False, sp_watch := (sp_watch s)(p := None)\<rparr>
      else if \<not> shouldRestart (rc_Restart cfg) (exit_code st) (case st of Signaled _ \<Rightarrow> True | _ \<Rightarrow> False) then s\<lparr>sp_watch := (sp_watch s)(p := None)\<rparr>
      else case restartBurstAllowed cfg now (sp_burst s) of
          (False, h) \<Rightarrow> s\<lparr>sp_burst := h, sp_watch := (sp_watch s)(p := None)\<rparr>
        | (True, h) \<Rightarrow> s\<lparr>sp_burst := h, sp_watch := (sp_watch s)(p \<mapsto> Sleeping (now + rc_RestartSec cfg))\<rparr>)"

datatype act =
    StartBegin | StartCheck | StartSpawn | StartAbort
  | StopBegin bool | StopLook | StopKill childExit | StopFail | StopFinish
  | Dies nat childExit
  | WatchReap nat | WatchUnlink nat | WatchMark nat | WatchDecide nat int | WatchWake nat int | WatchSpawn nat | WatchAbort nat

text \<open>
  One step, \<open>None\<close> when it is not enabled. \<open>StartAbort\<close> and \<open>WatchAbort\<close> are the returns of \<open>svcStart\<close> before it spawns: masked, a condition, a failed
  preparation. \<open>StopKill\<close> is the kill and the wait for its effect, \<open>StopFail\<close> a kill that the kernel refused.
\<close>

fun sup_do :: "restart_cfg \<Rightarrow> act \<Rightarrow> supervisor \<Rightarrow> supervisor option" where
  "sup_do cfg StartBegin s = (if sp_request s = Idle then Some (s\<lparr>sp_request := Checking\<rparr>) else None)"
| "sup_do cfg StartCheck s = (if sp_request s = Checking then Some (s\<lparr>sp_request := (if IsRunning s then Idle else Starting)\<rparr>) else None)"
| "sup_do cfg StartSpawn s = (if sp_request s = Starting then Some ((startDaemon s)\<lparr>sp_request := Idle\<rparr>) else None)"
| "sup_do cfg StartAbort s = (if sp_request s = Starting then Some (s\<lparr>sp_request := Idle\<rparr>) else None)"
| "sup_do cfg (StopBegin r) s = (if sp_request s = Idle then Some (s\<lparr>sp_stopReq := True, sp_request := StopMarked r\<rparr>) else None)"
| "sup_do cfg StopLook s = (case sp_request s of StopMarked r \<Rightarrow> Some (svcStop_look r s) | _ \<Rightarrow> None)"
| "sup_do cfg (StopKill st) s = (case sp_request s of
     StopKilling p r \<Rightarrow> Some (s\<lparr>sp_procs := (if executes s p then (sp_procs s)(p \<mapsto> Some st) else sp_procs s), sp_request := StopRemoving r\<rparr>) | _ \<Rightarrow> None)"
| "sup_do cfg StopFail s = (case sp_request s of StopKilling p r \<Rightarrow> Some (stop_done r s) | _ \<Rightarrow> None)"
| "sup_do cfg StopFinish s = (case sp_request s of StopRemoving r \<Rightarrow> Some (stop_done r (s\<lparr>sp_pidfile := None\<rparr>)) | _ \<Rightarrow> None)"
| "sup_do cfg (Dies p st) s = (if executes s p then Some (s\<lparr>sp_procs := (sp_procs s)(p \<mapsto> Some st)\<rparr>) else None)"
| "sup_do cfg (WatchReap p) s = (case (sp_watch s p, sp_procs s p) of
     (Some Watching, Some (Some st)) \<Rightarrow> Some (s\<lparr>sp_watch := (sp_watch s)(p \<mapsto> Reaped st), sp_procs := (sp_procs s)(p := None)\<rparr>) | _ \<Rightarrow> None)"
| "sup_do cfg (WatchUnlink p) s = (case sp_watch s p of
     Some (Reaped st) \<Rightarrow> Some (s\<lparr>sp_pidfile := None, sp_watch := (sp_watch s)(p \<mapsto> Unlinked st)\<rparr>) | _ \<Rightarrow> None)"
| "sup_do cfg (WatchMark p) s = (case sp_watch s p of
     Some (Unlinked st) \<Rightarrow> Some (s\<lparr>sp_failed := (if exit_code st = 0 then None else Some (exit_code st)), sp_watch := (sp_watch s)(p \<mapsto> MarkedExit st)\<rparr>) | _ \<Rightarrow> None)"
| "sup_do cfg (WatchDecide p now) s = (case sp_watch s p of Some (MarkedExit st) \<Rightarrow> Some (watch_decide cfg now p st s) | _ \<Rightarrow> None)"
| "sup_do cfg (WatchWake p now) s = (case sp_watch s p of
     Some (Sleeping t) \<Rightarrow> (if now < t then None else Some (s\<lparr>sp_watch := (sp_watch s)(p := if IsRunning s then None else Some Restarting)\<rparr>)) | _ \<Rightarrow> None)"
| "sup_do cfg (WatchSpawn p) s = (case sp_watch s p of Some Restarting \<Rightarrow> Some (startDaemon (s\<lparr>sp_watch := (sp_watch s)(p := None)\<rparr>)) | _ \<Rightarrow> None)"
| "sup_do cfg (WatchAbort p) s = (case sp_watch s p of Some Restarting \<Rightarrow> Some (s\<lparr>sp_watch := (sp_watch s)(p := None)\<rparr>) | _ \<Rightarrow> None)"

fun sup_run :: "restart_cfg \<Rightarrow> act list \<Rightarrow> supervisor \<Rightarrow> supervisor option" where
  "sup_run cfg [] s = Some s"
| "sup_run cfg (a # as) s = (case sup_do cfg a s of None \<Rightarrow> None | Some s' \<Rightarrow> sup_run cfg as s')"

definition no_service :: supervisor where
  "no_service = \<lparr>sp_pidfile = None, sp_failed = None, sp_stopReq = False, sp_burst = [], sp_procs = Map.empty, sp_watch = Map.empty, sp_request = Idle, sp_nextPid = 2\<rparr>"

section \<open>The limit\<close>

text \<open>A step as a limiter sees it: whether it granted a restart.\<close>

definition sup_grant :: "restart_cfg \<Rightarrow> act \<Rightarrow> supervisor \<Rightarrow> bool \<times> supervisor" where
  "sup_grant cfg a s =
     (case sup_do cfg a s of
        None \<Rightarrow> (False, s)
      | Some s' \<Rightarrow> (case a of WatchDecide p now \<Rightarrow> (case sp_watch s' p of Some (Sleeping _) \<Rightarrow> True | _ \<Rightarrow> False, s') | _ \<Rightarrow> (False, s')))"

fun act_clock :: "act \<Rightarrow> int option" where
  "act_clock (WatchDecide p now) = Some now"
| "act_clock _ = None"

lemma sup_do_burst: "act_clock a = None \<Longrightarrow> sup_do cfg a s = Some s' \<Longrightarrow> sp_burst s' = sp_burst s"
  by (cases a) (auto simp: svcStop_look_def stop_done_def startDaemon_def Let_def split: request.splits option.splits watcher.splits if_splits)

interpretation supervisor: sliding_window "sup_grant cfg" act_clock sp_burst "rc_Interval cfg" "nat (rc_Burst cfg)" for cfg
proof unfold_locales
  fix a s granted s'
  assume "act_clock a = None" "sup_grant cfg a s = (granted, s')"
  then show "\<not> granted \<and> sp_burst s' = sp_burst s"
  proof (cases "sup_do cfg a s")
    case (Some s1)
    then have "\<not> granted \<and> s' = s1" using \<open>act_clock a = None\<close> \<open>sup_grant cfg a s = (granted, s')\<close> by (cases a) (simp_all add: sup_grant_def)
    then show ?thesis using sup_do_burst [OF \<open>act_clock a = None\<close> Some] by simp
  qed (simp add: sup_grant_def)
next
  fix a now s granted s'
  assume a: "act_clock a = Some now" "sup_grant cfg a s = (granted, s')"
  then obtain p where p: "a = WatchDecide p now" by (cases a) auto
  show "\<not> granted \<and> sp_burst s' = sp_burst s \<or> \<not> granted \<and> sp_burst s' = filter (\<lambda>t. t > now - rc_Interval cfg) (sp_burst s) \<or>
    granted \<and> length (filter (\<lambda>t. t > now - rc_Interval cfg) (sp_burst s)) < nat (rc_Burst cfg) \<and>
    sp_burst s' = filter (\<lambda>t. t > now - rc_Interval cfg) (sp_burst s) @ [now]"
    using a(2) unfolding p
    by (auto simp: sup_grant_def watch_decide_def restartBurstAllowed_def Let_def split: option.splits watcher.splits if_splits)
qed

text \<open>
  A flapping service is given up. However requests, exits and watchers interleave, in the order of the clock, no window of \<open>StartLimitIntervalSec\<close> sees more
  automatic restarts granted than \<open>StartLimitBurst\<close> says.
\<close>

theorem restart_burst_bound:
  assumes "sorted (window_times act_clock acts)"
  shows "length (filter (\<lambda>t. t0 < t \<and> t \<le> t0 + rc_Interval cfg) (window_grants (sup_grant cfg) act_clock acts no_service)) \<le> nat (rc_Burst cfg)"
  by (rule supervisor.grants_bounded) (use assms in \<open>simp_all add: no_service_def\<close>)

lemma restart_burst_bound_witness:
  "length (filter (\<lambda>t. 0 < t \<and> t \<le> 0 + 10) (window_grants (sup_grant \<lparr>rc_Restart = ''always'', rc_RestartSec = 0, rc_Burst = 1, rc_Interval = 10\<rparr>) act_clock
     [StartBegin, StartCheck, StartSpawn, Dies 2 (Exited 1), WatchReap 2, WatchUnlink 2, WatchMark 2, WatchDecide 2 5, WatchWake 2 5, WatchSpawn 2,
      Dies 3 (Exited 1), WatchReap 3, WatchUnlink 3, WatchMark 3, WatchDecide 3 6] no_service)) \<le> 1"
  using restart_burst_bound [of "[StartBegin, StartCheck, StartSpawn, Dies 2 (Exited 1), WatchReap 2, WatchUnlink 2, WatchMark 2, WatchDecide 2 5, WatchWake 2 5, WatchSpawn 2,
      Dies 3 (Exited 1), WatchReap 3, WatchUnlink 3, WatchMark 3, WatchDecide 3 6]" 0 "\<lparr>rc_Restart = ''always'', rc_RestartSec = 0, rc_Burst = 1, rc_Interval = 10\<rparr>"]
  by simp

section \<open>Stopping\<close>

text \<open>A stop has found the process \<open>p\<close>; \<open>n\<close> is the next process id.\<close>

definition stop_seen :: "nat \<Rightarrow> nat \<Rightarrow> supervisor \<Rightarrow> bool" where
  "stop_seen p n s \<longleftrightarrow> sp_request s \<in> {StopKilling p False, StopRemoving False, Idle} \<and> sp_nextPid s = n \<and>
     (\<forall>q. q \<noteq> p \<longrightarrow> \<not> executes s q \<and> sp_watch s q = None) \<and>
     (sp_watch s p = None \<or> sp_stopReq s \<and> (\<forall>t. sp_watch s p \<noteq> Some (Sleeping t)) \<and> sp_watch s p \<noteq> Some Restarting) \<and>
     (sp_request s = StopKilling p False \<or> \<not> executes s p)"

fun new_request :: "act \<Rightarrow> bool" where
  "new_request StartBegin = True"
| "new_request (StopBegin _) = True"
| "new_request StopFail = True"
| "new_request _ = False"

lemma stop_seen_step:
  assumes "stop_seen p n s" "sup_do cfg a s = Some s'" "\<not> new_request a"
  shows "stop_seen p n s'"
proof -
  have watch: "sp_watch s q = Some w \<Longrightarrow> q = p \<and> sp_stopReq s \<and> w \<noteq> Restarting \<and> (\<forall>t. w \<noteq> Sleeping t)" for q w
    using assms(1) by (cases "q = p") (auto simp: stop_seen_def)
  have req: "sp_request s = StopKilling p False \<or> sp_request s = StopRemoving False \<or> sp_request s = Idle" using assms(1) by (simp add: stop_seen_def)
  show ?thesis
  proof (cases a)
    case (WatchDecide q now)
    then obtain st where "sp_watch s q = Some (MarkedExit st)" "s' = watch_decide cfg now q st s"
      using assms(2) by (auto split: option.splits watcher.splits)
    with watch show ?thesis using assms(1) by (auto simp: stop_seen_def watch_decide_def processAlive_def executes_def)
  next
    case (StopKill st)
    then show ?thesis using assms req by (auto simp: stop_seen_def processAlive_def executes_def split: request.splits if_splits)
  next
    case StopFinish
    then show ?thesis using assms req by (auto simp: stop_seen_def processAlive_def executes_def stop_done_def)
  next
    case (Dies q st)
    then show ?thesis using assms by (auto simp: stop_seen_def processAlive_def executes_def split: if_splits)
  next
    case (WatchReap q)
    then show ?thesis using assms watch [of q] by (auto simp: stop_seen_def processAlive_def executes_def split: option.splits watcher.splits)
  next
    case (WatchUnlink q)
    then show ?thesis using assms watch [of q] by (auto simp: stop_seen_def processAlive_def executes_def split: option.splits watcher.splits)
  next
    case (WatchMark q)
    then show ?thesis using assms watch [of q] by (auto simp: stop_seen_def processAlive_def executes_def split: option.splits watcher.splits)
  next
    case (WatchWake q now)
    then show ?thesis using assms watch [of q] by (auto split: option.splits watcher.splits if_splits)
  next
    case (WatchSpawn q)
    then show ?thesis using assms watch [of q] by (auto split: option.splits watcher.splits)
  next
    case (WatchAbort q)
    then show ?thesis using assms watch [of q] by (auto split: option.splits watcher.splits)
  qed (use assms req in auto)
qed

lemma stop_seen_run: "stop_seen p n s \<Longrightarrow> sup_run cfg acts s = Some s' \<Longrightarrow> list_all (\<lambda>a. \<not> new_request a) acts \<Longrightarrow> stop_seen p n s'"
proof (induction acts arbitrary: s)
  case (Cons a acts)
  then obtain s1 where s1: "sup_do cfg a s = Some s1" "sup_run cfg acts s1 = Some s'" by (auto split: option.splits)
  have "stop_seen p n s1" using stop_seen_step [OF Cons.prems(1) s1(1)] Cons.prems(3) by simp
  then show ?case using Cons.IH s1(2) Cons.prems(3) by simp
qed simp

text \<open>
  Stopping a running service stops it. If the stop finds the service's process, then, however its exit and the watcher interleave with the rest of the stop and whatever the
  restart policy is, no new process is started until somebody asks for one, and when the stop has returned none runs.
\<close>

theorem stop_of_running_service:
  assumes s: "sp_request s = StopMarked False" "sp_stopReq s" "sp_pidfile s = Some p" "processAlive s p" "sp_watch s = [p \<mapsto> Watching]" "\<And>q. q \<noteq> p \<Longrightarrow> \<not> executes s q"
    and run: "sup_run cfg (StopLook # acts) s = Some s'" and quiet: "list_all (\<lambda>a. \<not> new_request a) acts"
  shows "sp_nextPid s' = sp_nextPid s \<and> (sp_request s' \<noteq> Idle \<or> (\<forall>q. \<not> executes s' q))"
proof -
  have "stop_seen p (sp_nextPid s) (svcStop_look False s)" using s by (auto simp: stop_seen_def svcStop_look_def processAlive_def executes_def)
  moreover have "sup_run cfg acts (svcStop_look False s) = Some s'" using run s(1) by simp
  ultimately have "stop_seen p (sp_nextPid s) s'" using quiet by (rule stop_seen_run)
  then show ?thesis by (auto simp: stop_seen_def)
qed

definition always_cfg :: restart_cfg where
  "always_cfg = \<lparr>rc_Restart = ''always'', rc_RestartSec = 100 * millisecond, rc_Burst = 5, rc_Interval = 10 * second\<rparr>"

definition running_service :: supervisor where
  "running_service = (startDaemon no_service)"

lemma stop_of_running_service_witness:
  "case sup_run always_cfg [StopBegin False, StopLook, StopKill (Signaled 9), StopFinish, WatchReap 2, WatchUnlink 2, WatchMark 2, WatchDecide 2 5] running_service of
     None \<Rightarrow> False | Some s' \<Rightarrow> sp_nextPid s' = 3 \<and> \<not> executes s' 2"
proof -
  define s where "s = running_service\<lparr>sp_stopReq := True, sp_request := StopMarked False\<rparr>"
  define acts where "acts = [StopKill (Signaled 9), StopFinish, WatchReap 2, WatchUnlink 2, WatchMark 2, WatchDecide 2 5]"
  have run: "sup_run always_cfg [StopBegin False, StopLook, StopKill (Signaled 9), StopFinish, WatchReap 2, WatchUnlink 2, WatchMark 2, WatchDecide 2 5] running_service =
      sup_run always_cfg (StopLook # acts) s"
    by (simp add: acts_def s_def running_service_def startDaemon_def no_service_def)
  obtain s' where s': "sup_run always_cfg (StopLook # acts) s = Some s'" "sp_request s' = Idle"
    by (simp add: acts_def s_def running_service_def startDaemon_def no_service_def svcStop_look_def processAlive_def executes_def stop_done_def watch_decide_def)
  have "sp_nextPid s' = sp_nextPid s \<and> (sp_request s' \<noteq> Idle \<or> (\<forall>q. \<not> executes s' q))"
    by (rule stop_of_running_service [OF _ _ _ _ _ _ s'(1), where p = 2])
      (auto simp: s_def acts_def running_service_def startDaemon_def no_service_def processAlive_def executes_def)
  then show ?thesis unfolding run s'(1) using s'(2) by (simp add: s_def running_service_def startDaemon_def no_service_def)
qed


end
