(* ===== verification/Unit_Graph.thy ===== *)
theory Unit_Graph
  imports Unit_File
begin

text \<open>
  The order in which \<open>lohar\<close> starts the enabled units at boot: \<^verbatim>\<open>src/cmd/lohar/depgraph.go\<close> and the waves of
  \<open>startEnabledServices\<close> in \<open>systemctl.go\<close>. A Go map is iterated in no fixed order; the units of one wave start in parallel, so
  the model lists a wave in the order of the input. The property: every unit is
  started exactly once, and a unit starts only after the waves of all it is ordered after, unless the ordering
  has a cycle, when only the last wave is out of order.
\<close>

section \<open>The graph\<close>

definition deps :: "Unit \<Rightarrow> string \<Rightarrow> string list" where
  "deps u key = concat (map parseDepList (getAll (un_Sections u) ''Unit'' key))"

definition by_name :: "Unit list \<Rightarrow> string \<rightharpoonup> Unit" where
  "by_name units = fold (\<lambda>u m. m(un_Canonical u \<mapsto> u)) units Map.empty"

type_synonym parents = "string \<Rightarrow> string list"

text \<open>The two inner loops; an edge to the unit itself or to one outside the start set is dropped.\<close>

definition add_after :: "(string \<rightharpoonup> Unit) \<Rightarrow> Unit \<Rightarrow> parents \<Rightarrow> parents" where
  "add_after byName u =
     fold (\<lambda>dep ps. if dep = un_Canonical u \<or> byName dep = None then ps
                    else ps(un_Canonical u := List.insert dep (ps (un_Canonical u)))) (deps u ''After'')"

definition add_before :: "(string \<rightharpoonup> Unit) \<Rightarrow> Unit \<Rightarrow> parents \<Rightarrow> parents" where
  "add_before byName u =
     fold (\<lambda>dep ps. if dep = un_Canonical u \<or> byName dep = None then ps
                    else ps(dep := List.insert (un_Canonical u) (ps dep))) (deps u ''Before'')"

definition start_parents :: "Unit list \<Rightarrow> parents" where
  "start_parents units = fold (\<lambda>u ps. add_before (by_name units) u (add_after (by_name units) u ps)) units (\<lambda>_. [])"

text \<open>The rounds: all names with no parent left form a group; when there is none, the rest is one group.\<close>

function kahn :: "parents \<Rightarrow> string list \<Rightarrow> string list list" where
  "kahn ps remaining =
     (if remaining = [] then []
      else let ready = filter (\<lambda>n. ps n = []) remaining in
        if ready = [] then [remaining]
        else ready # kahn (\<lambda>c. filter (\<lambda>p. p \<notin> set ready) (ps c)) (filter (\<lambda>n. n \<notin> set ready) remaining))"
  by pat_completeness auto
termination
proof (relation "measure (\<lambda>(ps, remaining). length remaining)")
  fix ps :: parents and remaining ready
  assume ready: "remaining \<noteq> []" "ready = filter (\<lambda>n. ps n = []) remaining" "ready \<noteq> []"
  from ready(3) obtain n where "n \<in> set ready" by (cases ready) auto
  with ready(2) have "n \<in> set ready" "n \<in> set remaining" by auto
  then have "length (filter (\<lambda>n. n \<notin> set ready) remaining) < length remaining"
    by (intro length_filter_less [of n]) auto
  then show "((\<lambda>c. filter (\<lambda>p. p \<notin> set ready) (ps c), filter (\<lambda>n. n \<notin> set ready) remaining), ps, remaining)
     \<in> measure (\<lambda>(ps, remaining). length remaining)" by simp
qed simp

declare kahn.simps [simp del]

definition buildStartGraph :: "Unit list \<Rightarrow> Unit list list" where
  "buildStartGraph units =
     map (map (\<lambda>n. the (by_name units n))) (kahn (start_parents units) (remdups (map un_Canonical units)))"

text \<open>
  The boot: \<open>entries\<close> are the names in \<open>multi-user.target.wants\<close>, \<open>resolve\<close> the registry's lookup. Each
  wave is started in parallel and waited for.
\<close>

definition startEnabledServices :: "(string \<Rightarrow> Unit option) \<Rightarrow> string list \<Rightarrow> Unit list list" where
  "startEnabledServices resolve entries =
     buildStartGraph (List.map_filter (\<lambda>e. if has_suffix e ''.service'' then resolve (trim_suffix e ''.service'') else None) entries)"

section \<open>Edges\<close>

text \<open>\<open>p\<close> is ordered before \<open>c\<close>: \<open>c\<close> names it in \<open>After=\<close>, or it names \<open>c\<close> in \<open>Before=\<close>.\<close>

definition orders :: "Unit list \<Rightarrow> string \<Rightarrow> string \<Rightarrow> bool" where
  "orders units p c \<longleftrightarrow> p \<noteq> c \<and> p \<in> un_Canonical ` set units \<and> c \<in> un_Canonical ` set units \<and>
     (\<exists>u \<in> set units. un_Canonical u = c \<and> p \<in> set (deps u ''After'') \<or> un_Canonical u = p \<and> c \<in> set (deps u ''Before''))"

lemma by_name_dom: "by_name units n = None \<longleftrightarrow> n \<notin> un_Canonical ` set units"
proof -
  have "fold (\<lambda>u m. m(un_Canonical u \<mapsto> u)) us m n = None \<longleftrightarrow> n \<notin> un_Canonical ` set us \<and> m n = None"
    for us and m :: "string \<rightharpoonup> Unit" by (induction us arbitrary: m) auto
  then show ?thesis by (simp add: by_name_def)
qed

lemma by_name_Some: "by_name units n = Some u \<Longrightarrow> u \<in> set units \<and> un_Canonical u = n"
proof -
  have "fold (\<lambda>u m. m(un_Canonical u \<mapsto> u)) us m n = Some u \<Longrightarrow> (u \<in> set us \<and> un_Canonical u = n) \<or> m n = Some u"
    for us and m :: "string \<rightharpoonup> Unit"
  proof (induction us arbitrary: m)
    case (Cons a us)
    from Cons.IH [of "m(un_Canonical a \<mapsto> a)"] Cons.prems show ?case by (auto split: if_splits)
  qed simp
  then show "by_name units n = Some u \<Longrightarrow> ?thesis" unfolding by_name_def by fastforce
qed

lemma add_after_iff:
  "p \<in> set (add_after b u ps c) \<longleftrightarrow> p \<in> set (ps c) \<or>
     c = un_Canonical u \<and> p \<in> set (deps u ''After'') \<and> p \<noteq> c \<and> b p \<noteq> None"
proof -
  let ?step = "\<lambda>dep ps. if dep = un_Canonical u \<or> b dep = None then ps
      else ps(un_Canonical u := List.insert dep (ps (un_Canonical u)))"
  have step: "p \<in> set (?step dep ps c) \<longleftrightarrow> p \<in> set (ps c) \<or> c = un_Canonical u \<and> p = dep \<and> p \<noteq> c \<and> b p \<noteq> None" for dep ps
    by auto
  have "p \<in> set (fold ?step ds ps c) \<longleftrightarrow> p \<in> set (ps c) \<or> c = un_Canonical u \<and> p \<in> set ds \<and> p \<noteq> c \<and> b p \<noteq> None" for ds
  proof (induction ds rule: rev_induct)
    case (snoc d ds)
    then show ?case unfolding fold_append comp_apply fold.simps id_apply step by auto
  qed simp
  then show ?thesis by (simp add: add_after_def)
qed

lemma add_before_iff:
  "p \<in> set (add_before b u ps c) \<longleftrightarrow> p \<in> set (ps c) \<or>
     p = un_Canonical u \<and> c \<in> set (deps u ''Before'') \<and> p \<noteq> c \<and> b c \<noteq> None"
proof -
  let ?step = "\<lambda>dep ps. if dep = un_Canonical u \<or> b dep = None then ps
      else ps(dep := List.insert (un_Canonical u) (ps dep))"
  have step: "p \<in> set (?step dep ps c) \<longleftrightarrow> p \<in> set (ps c) \<or> c = dep \<and> p = un_Canonical u \<and> p \<noteq> c \<and> b c \<noteq> None" for dep ps
    by auto
  have "p \<in> set (fold ?step ds ps c) \<longleftrightarrow> p \<in> set (ps c) \<or> p = un_Canonical u \<and> c \<in> set ds \<and> p \<noteq> c \<and> b c \<noteq> None" for ds
  proof (induction ds rule: rev_induct)
    case (snoc d ds)
    then show ?case unfolding fold_append comp_apply fold.simps id_apply step by auto
  qed simp
  then show ?thesis by (simp add: add_before_def)
qed

lemma start_parents_iff: "p \<in> set (start_parents units c) \<longleftrightarrow> orders units p c"
proof -
  let ?b = "by_name units"
  have "p \<in> set (fold (\<lambda>u ps. add_before ?b u (add_after ?b u ps)) us ps c) \<longleftrightarrow> p \<in> set (ps c) \<or>
     (\<exists>u \<in> set us. c = un_Canonical u \<and> p \<in> set (deps u ''After'') \<and> p \<noteq> c \<and> ?b p \<noteq> None \<or>
        p = un_Canonical u \<and> c \<in> set (deps u ''Before'') \<and> p \<noteq> c \<and> ?b c \<noteq> None)" for us ps
    by (induction us arbitrary: ps) (auto simp: add_after_iff add_before_iff)
  from this [of units "\<lambda>_. []"] have "p \<in> set (start_parents units c) \<longleftrightarrow>
     (\<exists>u \<in> set units. c = un_Canonical u \<and> p \<in> set (deps u ''After'') \<and> p \<noteq> c \<and> ?b p \<noteq> None \<or>
        p = un_Canonical u \<and> c \<in> set (deps u ''Before'') \<and> p \<noteq> c \<and> ?b c \<noteq> None)"
    by (simp add: start_parents_def)
  then show ?thesis by (auto simp: orders_def by_name_dom)
qed

section \<open>Rounds\<close>

lemma kahn_partition:
  "distinct remaining \<Longrightarrow> distinct (concat (kahn ps remaining)) \<and> set (concat (kahn ps remaining)) = set remaining"
proof (induction ps remaining rule: kahn.induct)
  case (1 ps remaining)
  let ?ready = "filter (\<lambda>n. ps n = []) remaining"
  show ?case
  proof (cases "remaining = [] \<or> ?ready = []")
    case True
    then show ?thesis using "1.prems" by (subst (1 2) kahn.simps) (auto simp: Let_def)
  next
    case False
    let ?rest = "kahn (\<lambda>c. filter (\<lambda>p. p \<notin> set ?ready) (ps c)) (filter (\<lambda>n. n \<notin> set ?ready) remaining)"
    have "distinct (concat ?rest) \<and> set (concat ?rest) = set (filter (\<lambda>n. n \<notin> set ?ready) remaining)"
      using False "1.prems" by (intro "1.IH") auto
    moreover have "kahn ps remaining = ?ready # ?rest" using False by (subst kahn.simps) (simp add: Let_def)
    ultimately show ?thesis using "1.prems" by auto
  qed
qed

lemma ready_if_acyclic:
  assumes "acyclic {(p, c). p \<in> set (ps c) \<and> c \<in> set remaining}" and "remaining \<noteq> []"
    and "\<And>c. c \<in> set remaining \<Longrightarrow> set (ps c) \<subseteq> set remaining"
  shows "\<exists>n \<in> set remaining. ps n = []"
proof -
  define R where "R = {(p, c). p \<in> set (ps c) \<and> c \<in> set remaining}"
  have "R \<subseteq> set remaining \<times> set remaining" using assms(3) by (auto simp: R_def)
  then have "finite R" by (rule finite_subset) simp
  then have wf: "wf R" using assms(1) unfolding R_def by (rule finite_acyclic_wf)
  obtain x where x: "x \<in> set remaining" using assms(2) by (cases remaining) auto
  from wf [unfolded wf_eq_minimal, rule_format, OF x]
  obtain z where z: "z \<in> set remaining" "\<forall>y. (y, z) \<in> R \<longrightarrow> y \<notin> set remaining" by blast
  have "y \<notin> set (ps z)" for y
  proof
    assume y: "y \<in> set (ps z)"
    with z(1) have "(y, z) \<in> R" by (simp add: R_def)
    with z(2) have "y \<notin> set remaining" by blast
    with y assms(3) [OF z(1)] show False by blast
  qed
  then have "ps z = []" by (cases "ps z") auto
  with z(1) show ?thesis by blast
qed

lemma kahn_order:
  assumes "\<And>c. c \<in> set remaining \<Longrightarrow> set (ps c) \<subseteq> set remaining"
    and "i < length (kahn ps remaining)" and "c \<in> set (kahn ps remaining ! i)" and "p \<in> set (ps c)"
    and "acyclic {(p, c). p \<in> set (ps c) \<and> c \<in> set remaining} \<or> Suc i < length (kahn ps remaining)"
  shows "\<exists>j < i. p \<in> set (kahn ps remaining ! j)"
  using assms
proof (induction ps remaining arbitrary: i rule: kahn.induct)
  case (1 ps remaining)
  let ?ready = "filter (\<lambda>n. ps n = []) remaining"
  have ne: "remaining \<noteq> []" using "1.prems"(2) by (auto simp: kahn.simps [of ps "[]"])
  show ?case
  proof (cases "?ready = []")
    case True
    with ne have "kahn ps remaining = [remaining]" by (subst kahn.simps) (simp add: Let_def)
    then have "acyclic {(p, c). p \<in> set (ps c) \<and> c \<in> set remaining}" using "1.prems"(2,5) by simp
    from ready_if_acyclic [OF this ne "1.prems"(1)] True show ?thesis by (auto simp: filter_empty_conv)
  next
    case False
    let ?ps = "\<lambda>c. filter (\<lambda>p. p \<notin> set ?ready) (ps c)" and ?rem = "filter (\<lambda>n. n \<notin> set ?ready) remaining"
    have k: "kahn ps remaining = ?ready # kahn ?ps ?rem" using ne False by (subst kahn.simps) (simp add: Let_def)
    show ?thesis
    proof (cases i)
      case 0
      with "1.prems"(3,4) k show ?thesis by auto
    next
      case (Suc i')
      show ?thesis
      proof (cases "p \<in> set ?ready")
        case True
        with Suc k show ?thesis by auto
      next
        case pr: False
        have "{(p, c). p \<in> set (?ps c) \<and> c \<in> set ?rem} \<subseteq> {(p, c). p \<in> set (ps c) \<and> c \<in> set remaining}" by auto
        then have "acyclic {(p, c). p \<in> set (?ps c) \<and> c \<in> set ?rem} \<or> Suc i' < length (kahn ?ps ?rem)"
          using "1.prems"(5) k Suc acyclic_subset by auto
        then have "\<exists>j < i'. p \<in> set (kahn ?ps ?rem ! j)"
          using "1.prems"(1-4) k Suc ne False pr by (intro "1.IH") auto
        then obtain j where "j < i'" "p \<in> set (kahn ?ps ?rem ! j)" by blast
        with k Suc show ?thesis by (intro exI [of _ "Suc j"]) simp
      qed
    qed
  qed
qed

text \<open>The rounds on names and the groups of units they stand for.\<close>

abbreviation name_groups :: "Unit list \<Rightarrow> string list list" where
  "name_groups units \<equiv> kahn (start_parents units) (remdups (map un_Canonical units))"

lemma name_groups_set: "distinct (concat (name_groups units)) \<and> set (concat (name_groups units)) = un_Canonical ` set units"
  using kahn_partition [of "remdups (map un_Canonical units)" "start_parents units"] by simp

lemma unit_of_name:
  "n \<in> un_Canonical ` set units \<Longrightarrow> the (by_name units n) \<in> set units \<and> un_Canonical (the (by_name units n)) = n"
  using by_name_dom [of units n] by_name_Some [of units n] by (cases "by_name units n") auto

lemma name_groups_nth: "n \<in> set (name_groups units ! i) \<Longrightarrow> i < length (name_groups units) \<Longrightarrow> n \<in> un_Canonical ` set units"
  using name_groups_set by (metis UN_I nth_mem set_concat)

lemma canonical_groups: "map un_Canonical (concat (buildStartGraph units)) = concat (name_groups units)"
proof -
  have "map (\<lambda>n. un_Canonical (the (by_name units n))) (concat (name_groups units)) = concat (name_groups units)"
  proof (rule map_idI)
    fix n assume "n \<in> set (concat (name_groups units))"
    then show "un_Canonical (the (by_name units n)) = n" using name_groups_set unit_of_name by blast
  qed
  then show ?thesis by (simp add: buildStartGraph_def map_concat comp_def)
qed

lemma groups_ordered:
  assumes "i < length (buildStartGraph units)" and "acyclic {(p, c). orders units p c} \<or> Suc i < length (buildStartGraph units)"
    and "x \<in> set (buildStartGraph units ! i)" and "orders units p (un_Canonical x)"
  shows "\<exists>j < i. \<exists>v \<in> set (buildStartGraph units ! j). un_Canonical v = p"
proof -
  let ?ps = "start_parents units" and ?names = "remdups (map un_Canonical units)"
  have len: "i < length (name_groups units)" using assms(1) by (simp add: buildStartGraph_def)
  with assms(3) obtain n where n: "n \<in> set (name_groups units ! i)" "x = the (by_name units n)"
    by (auto simp: buildStartGraph_def)
  then have "un_Canonical x = n" using unit_of_name name_groups_nth [OF n(1) len] by blast
  with assms(4) have p: "p \<in> set (?ps n)" by (simp add: start_parents_iff)
  have closed: "set (?ps c) \<subseteq> set ?names" for c by (auto simp: start_parents_iff orders_def)
  have "{(p, c). p \<in> set (?ps c) \<and> c \<in> set ?names} = {(p, c). orders units p c}"
    by (auto simp: start_parents_iff orders_def)
  then have "\<exists>j < i. p \<in> set (name_groups units ! j)"
    by (intro kahn_order [OF closed len n(1) p]) (use assms(2) in \<open>simp_all add: buildStartGraph_def\<close>)
  then obtain j where j: "j < i" "p \<in> set (name_groups units ! j)" by blast
  then have "un_Canonical (the (by_name units p)) = p" using unit_of_name name_groups_nth [OF j(2)] len by simp
  moreover have "the (by_name units p) \<in> set (buildStartGraph units ! j)" using j len by (simp add: buildStartGraph_def)
  ultimately show ?thesis using j(1) by blast
qed

text \<open>
  C18: units boot in the order their files ask for. Every enabled unit is started exactly once, whatever the files say. A unit's wave comes
  after the waves of all units it is ordered after (named in its \<open>After=\<close>, or naming it in \<open>Before=\<close>) when
  the ordering has no cycle; with a cycle the same holds of every wave but the last.
\<close>

theorem boot_order:
  "let groups = buildStartGraph units in
     distinct (map un_Canonical (concat groups)) \<and> set (concat groups) \<subseteq> set units \<and>
     un_Canonical ` set (concat groups) = un_Canonical ` set units \<and>
     (\<forall>i u p. i < length groups \<and> (acyclic {(p, c). orders units p c} \<or> Suc i < length groups) \<and>
        u \<in> set (groups ! i) \<and> orders units p (un_Canonical u) \<longrightarrow>
        (\<exists>j < i. \<exists>v \<in> set (groups ! j). un_Canonical v = p))"
proof -
  let ?g = "buildStartGraph units"
  have "un_Canonical ` set (concat ?g) = un_Canonical ` set units"
    using name_groups_set [of units] arg_cong [OF canonical_groups [of units], of set] by (simp only: set_map)
  moreover have "distinct (map un_Canonical (concat ?g))" unfolding canonical_groups using name_groups_set by blast
  moreover have "set (concat ?g) \<subseteq> set units"
  proof
    fix u assume "u \<in> set (concat ?g)"
    then obtain n where "n \<in> set (concat (name_groups units))" "u = the (by_name units n)" by (auto simp: buildStartGraph_def)
    then show "u \<in> set units" using name_groups_set unit_of_name by blast
  qed
  ultimately show ?thesis unfolding Let_def
  proof (intro conjI allI impI)
    fix i u p
    assume "i < length ?g \<and> (acyclic {(p, c). orders units p c} \<or> Suc i < length ?g) \<and> u \<in> set (?g ! i) \<and> orders units p (un_Canonical u)"
    then show "\<exists>j < i. \<exists>v \<in> set (?g ! j). un_Canonical v = p" by (elim conjE) (rule groups_ordered)
  qed
qed

definition unit_with :: "string \<Rightarrow> kvPair list \<Rightarrow> Unit" where
  "unit_with n kvs = \<lparr>un_Canonical = n, un_Suffix = ''.service'', un_Aliases = [], un_Path = [], un_Instance = [],
     un_Template = [], un_Sections = (no_sections(''Unit'' := kvs)), un_Masked = False\<rparr>"

definition example_units :: "Unit list" where
  "example_units = [unit_with ''web'' [\<lparr>kv_key = ''After'', kv_value = ''pgbouncer.service db.service''\<rparr>],
     unit_with ''db'' [\<lparr>kv_key = ''Before'', kv_value = ''pgbouncer.service''\<rparr>], unit_with ''pgbouncer'' []]"

lemma boot_order_witness:
  "\<exists>j < 2. \<exists>v \<in> set (buildStartGraph example_units ! j). un_Canonical v = ''pgbouncer''"
proof -
  have g: "map (map un_Canonical) (buildStartGraph example_units) = [[''db''], [''pgbouncer''], [''web'']]" by code_simp
  have len: "length (buildStartGraph example_units) = 3" using arg_cong [OF g, of length] by simp
  have web: "\<exists>u \<in> set (buildStartGraph example_units ! 2). un_Canonical u = ''web''"
    using arg_cong [OF g, of "\<lambda>x. x ! 2"] len by (cases "buildStartGraph example_units ! 2") auto
  then obtain u where u: "u \<in> set (buildStartGraph example_units ! 2)" "un_Canonical u = ''web''" by blast
  have ord: "orders example_units p c \<longleftrightarrow> (p, c) \<in> {(''db'', ''pgbouncer''), (''pgbouncer'', ''web''), (''db'', ''web'')}" for p c
  proof -
    have "map (\<lambda>u. (un_Canonical u, deps u ''After'', deps u ''Before'')) example_units =
      [(''web'', [''pgbouncer'', ''db''], []), (''db'', [], [''pgbouncer'']), (''pgbouncer'', [], [])]" by code_simp
    then show ?thesis by (auto simp: orders_def example_units_def)
  qed
  have acyc: "acyclic {(p, c). orders example_units p c}"
    unfolding ord by (rule acyclicI_order [where f = "\<lambda>n. if n = ''web'' then 0 else if n = ''db'' then 2 else (1 :: nat)"]) auto
  have all: "\<forall>i u p. i < length (buildStartGraph example_units) \<and>
       (acyclic {(p, c). orders example_units p c} \<or> Suc i < length (buildStartGraph example_units)) \<and>
       u \<in> set (buildStartGraph example_units ! i) \<and> orders example_units p (un_Canonical u) \<longrightarrow>
       (\<exists>j < i. \<exists>v \<in> set (buildStartGraph example_units ! j). un_Canonical v = p)"
    using boot_order [of example_units] unfolding Let_def by (elim conjE)
  show ?thesis using all [rule_format, of 2 u "''pgbouncer''"] acyc u len ord [of "''pgbouncer''" "''web''"] by simp
qed

end
