(* ===== verification/Tunnels.thy ===== *)
theory Tunnels
  imports Bhatti_Prelude
begin

text \<open>
  Port tunnels, \<^verbatim>\<open>src/pkg/server/tunnel_handlers.go\<close>: a handler per WebSocket that opens a stream to a port of the guest and relays, and the
  destruction of a sandbox that must close the tunnels to it and let no new one in. They share the table of live tunnels
  and the count of destructions in progress under \<open>tunnelMu\<close>; everything outside that lock interleaves. The property: while a sandbox is
  destroyed a stream to it is open only if the destruction is about to close it, and no handler leaves a stream open.
\<close>

section \<open>State\<close>

text \<open>Where a handler is: the socket upgraded, registered and waking the guest, the guest's stream open, relaying, on the way out, returned.\<close>

datatype tunnel_pc = Upgraded | Registered | Opened | Relaying | Leaving | Returned

text \<open>A \<open>tunnelSession\<close> and the locals of its handler. \<open>ts_guest\<close> is whether the field \<open>guest\<close> is set.\<close>

record tunnel_session =
  ts_engine :: string
  ts_pc :: tunnel_pc
  ts_ws_open :: bool
  ts_cancelled :: bool
  ts_guest :: bool
  ts_stream_open :: bool

text \<open>
  \<open>tn_tunnels\<close> is the map \<open>tunnels\<close>, keyed by the session, whose engine is its own; \<open>tn_closing\<close> are the destructions in progress: the engine and the
  sessions a destruction took out of the map and has not closed yet.
\<close>

record tunnel_state =
  tn_sessions :: "nat \<Rightarrow> tunnel_session option"
  tn_tunnels :: "nat set"
  tn_destroying :: "string \<Rightarrow> nat"
  tn_closing :: "nat \<Rightarrow> (string \<times> nat set) option"

definition put_session :: "nat \<Rightarrow> tunnel_session \<Rightarrow> tunnel_state \<Rightarrow> tunnel_state" where
  "put_session i t s = s\<lparr>tn_sessions := (tn_sessions s)(i \<mapsto> t)\<rparr>"

section \<open>Operations\<close>

text \<open>The port of the query: exactly one, a decimal number between 1 and 65535.\<close>

definition tunnel_port :: "string list \<Rightarrow> int option" where
  "tunnel_port ports =
     (case ports of
        [p] \<Rightarrow> (case Atoi p of None \<Rightarrow> None | Some n \<Rightarrow> if n < 1 \<or> n > 65535 then None else Some n)
      | _ \<Rightarrow> None)"

definition registerTunnel :: "string \<Rightarrow> nat \<Rightarrow> tunnel_state \<Rightarrow> bool \<times> tunnel_state" where
  "registerTunnel engineID i s =
     (if tn_destroying s engineID > 0 then (False, s) else (True, s\<lparr>tn_tunnels := insert i (tn_tunnels s)\<rparr>))"

definition setTunnelGuest :: "nat \<Rightarrow> tunnel_session \<Rightarrow> tunnel_state \<Rightarrow> bool \<times> tunnel_session" where
  "setTunnelGuest i t s = (if i \<notin> tn_tunnels s then (False, t) else (True, t\<lparr>ts_guest := True\<rparr>))"

definition unregisterTunnel :: "nat \<Rightarrow> tunnel_state \<Rightarrow> tunnel_state" where
  "unregisterTunnel i s = s\<lparr>tn_tunnels := tn_tunnels s - {i}\<rparr>"

definition of_engine :: "string \<Rightarrow> tunnel_state \<Rightarrow> nat set" where
  "of_engine e s = {i \<in> tn_tunnels s. \<exists>t. tn_sessions s i = Some t \<and> ts_engine t = e}"

text \<open>\<open>closeTunnels\<close>: the part under the lock, and the body of the loop for one session.\<close>

definition take_tunnels :: "nat \<Rightarrow> string \<Rightarrow> tunnel_state \<Rightarrow> tunnel_state" where
  "take_tunnels k e s = s\<lparr>tn_destroying := (tn_destroying s)(e := tn_destroying s e + 1),
     tn_closing := (tn_closing s)(k \<mapsto> (e, of_engine e s)), tn_tunnels := tn_tunnels s - of_engine e s\<rparr>"

definition close_session :: "tunnel_session \<Rightarrow> tunnel_session" where
  "close_session t = t\<lparr>ts_cancelled := True, ts_ws_open := False,
     ts_stream_open := (if ts_guest t then False else ts_stream_open t)\<rparr>"

definition finishTunnelDestroy :: "nat \<Rightarrow> string \<Rightarrow> tunnel_state \<Rightarrow> tunnel_state" where
  "finishTunnelDestroy k e s = s\<lparr>tn_closing := (tn_closing s)(k := None),
     tn_destroying := (tn_destroying s)(e := (if tn_destroying s e \<le> 1 then 0 else tn_destroying s e - 1))\<rparr>"

section \<open>Interleavings\<close>

text \<open>
  The steps of handlers and destructions. \<open>handleSandboxTunnel\<close>: upgrade, register or return, wake and open the stream or leave, hand the stream over or close it, relay, leave. A
  handler leaves by its deferred calls: it unregisters, cancels and closes the socket. \<open>Relay\<close> returns after it has closed both ends.
\<close>

inductive tunnel_step :: "tunnel_state \<Rightarrow> tunnel_state \<Rightarrow> bool" where
  upgrade: "tn_sessions s i = None \<Longrightarrow>
     tunnel_step s (put_session i \<lparr>ts_engine = e, ts_pc = Upgraded, ts_ws_open = True, ts_cancelled = False, ts_guest = False, ts_stream_open = False\<rparr> s)"
| register: "tn_sessions s i = Some t \<Longrightarrow> ts_pc t = Upgraded \<Longrightarrow> registerTunnel (ts_engine t) i s = (True, s') \<Longrightarrow>
     tunnel_step s (put_session i (t\<lparr>ts_pc := Registered\<rparr>) s')"
| refuse: "tn_sessions s i = Some t \<Longrightarrow> ts_pc t = Upgraded \<Longrightarrow> registerTunnel (ts_engine t) i s = (False, s') \<Longrightarrow>
     tunnel_step s (put_session i (t\<lparr>ts_pc := Returned, ts_cancelled := True, ts_ws_open := False\<rparr>) s')"
| fail: "tn_sessions s i = Some t \<Longrightarrow> ts_pc t = Registered \<Longrightarrow> tunnel_step s (put_session i (t\<lparr>ts_pc := Leaving\<rparr>) s)"
| open_stream: "tn_sessions s i = Some t \<Longrightarrow> ts_pc t = Registered \<Longrightarrow>
     tunnel_step s (put_session i (t\<lparr>ts_pc := Opened, ts_stream_open := True\<rparr>) s)"
| hand_over: "tn_sessions s i = Some t \<Longrightarrow> ts_pc t = Opened \<Longrightarrow> setTunnelGuest i t s = (True, t') \<Longrightarrow>
     tunnel_step s (put_session i (t'\<lparr>ts_pc := Relaying\<rparr>) s)"
| too_late: "tn_sessions s i = Some t \<Longrightarrow> ts_pc t = Opened \<Longrightarrow> setTunnelGuest i t s = (False, t') \<Longrightarrow>
     tunnel_step s (put_session i (t'\<lparr>ts_pc := Leaving, ts_stream_open := False\<rparr>) s)"
| relayed: "tn_sessions s i = Some t \<Longrightarrow> ts_pc t = Relaying \<Longrightarrow>
     tunnel_step s (put_session i (t\<lparr>ts_pc := Leaving, ts_ws_open := False, ts_stream_open := False\<rparr>) s)"
| leave: "tn_sessions s i = Some t \<Longrightarrow> ts_pc t = Leaving \<Longrightarrow>
     tunnel_step s (put_session i (t\<lparr>ts_pc := Returned, ts_cancelled := True, ts_ws_open := False\<rparr>) (unregisterTunnel i s))"
| destroy: "tn_closing s k = None \<Longrightarrow> tunnel_step s (take_tunnels k e s)"
| close: "tn_closing s k = Some (e, A) \<Longrightarrow> i \<in> A \<Longrightarrow> tn_sessions s i = Some t \<Longrightarrow>
     tunnel_step s (put_session i (close_session t) (s\<lparr>tn_closing := (tn_closing s)(k \<mapsto> (e, A - {i}))\<rparr>))"
| finish: "tn_closing s k = Some (e, {}) \<Longrightarrow> tunnel_step s (finishTunnelDestroy k e s)"

definition tunnel_start :: tunnel_state where
  "tunnel_start = \<lparr>tn_sessions = \<lambda>_. None, tn_tunnels = {}, tn_destroying = \<lambda>_. 0, tn_closing = \<lambda>_. None\<rparr>"

section \<open>The invariant\<close>

definition destructions :: "string \<Rightarrow> tunnel_state \<Rightarrow> nat set" where
  "destructions e s = {k. \<exists>A. tn_closing s k = Some (e, A)}"

definition taken :: "nat \<Rightarrow> string \<Rightarrow> tunnel_state \<Rightarrow> bool" where
  "taken i e s \<longleftrightarrow> (\<exists>k A. tn_closing s k = Some (e, A) \<and> i \<in> A)"

text \<open>One session: its stream is open only between opening and the end of the relay, and once handed over only while it is in the map or taken.\<close>

definition session_ok :: "tunnel_state \<Rightarrow> nat \<Rightarrow> tunnel_session \<Rightarrow> bool" where
  "session_ok s i t \<longleftrightarrow> (ts_stream_open t \<longrightarrow> ts_pc t \<in> {Opened, Relaying}) \<and> (ts_guest t \<longrightarrow> ts_pc t \<in> {Relaying, Leaving, Returned}) \<and>
     (ts_guest t \<and> ts_stream_open t \<longrightarrow> i \<in> tn_tunnels s \<or> taken i (ts_engine t) s) \<and>
     (ts_pc t = Returned \<longrightarrow> i \<notin> tn_tunnels s \<and> \<not> ts_ws_open t) \<and> (ts_pc t = Upgraded \<longrightarrow> i \<notin> tn_tunnels s) \<and>
     (i \<in> tn_tunnels s \<longrightarrow> tn_destroying s (ts_engine t) = 0)"

definition tunnel_inv :: "tunnel_state \<Rightarrow> bool" where
  "tunnel_inv s \<longleftrightarrow> (\<forall>i t. tn_sessions s i = Some t \<longrightarrow> session_ok s i t) \<and> (\<forall>i \<in> tn_tunnels s. tn_sessions s i \<noteq> None) \<and>
     (\<forall>k e A i. tn_closing s k = Some (e, A) \<and> i \<in> A \<longrightarrow> (\<exists>t. tn_sessions s i = Some t \<and> ts_engine t = e)) \<and>
     (\<forall>e. finite (destructions e s) \<and> tn_destroying s e = card (destructions e s))"

lemma tunnel_invD:
  assumes "tunnel_inv s"
  shows "tn_sessions s i = Some t \<Longrightarrow> session_ok s i t" "i \<in> tn_tunnels s \<Longrightarrow> \<exists>t. tn_sessions s i = Some t"
    "tn_closing s k = Some (e, A) \<Longrightarrow> i \<in> A \<Longrightarrow> \<exists>t. tn_sessions s i = Some t \<and> ts_engine t = e"
    "finite (destructions e s)" "tn_destroying s e = card (destructions e s)"
  using assms unfolding tunnel_inv_def by blast+

lemma takenI: "tn_closing s k = Some (e, A) \<Longrightarrow> i \<in> A \<Longrightarrow> taken i e s"
  unfolding taken_def by blast

text \<open>A step of a handler changes its own session and its own place in the map.\<close>

lemma inv_put:
  assumes "tunnel_inv s" and "tn_sessions s i = Some t" and "ts_engine t' = ts_engine t"
    and "\<And>j. j \<noteq> i \<Longrightarrow> j \<in> T \<longleftrightarrow> j \<in> tn_tunnels s" and "session_ok (s\<lparr>tn_tunnels := T\<rparr>) i t'"
  shows "tunnel_inv (put_session i t' (s\<lparr>tn_tunnels := T\<rparr>))"
  unfolding tunnel_inv_def
proof (intro conjI allI impI ballI)
  let ?s = "put_session i t' (s\<lparr>tn_tunnels := T\<rparr>)"
  have frame: "tn_closing ?s = tn_closing s" "tn_destroying ?s = tn_destroying s" "tn_tunnels ?s = T" "destructions e ?s = destructions e s" "taken j e ?s = taken j e s"
    for e j by (simp_all add: put_session_def destructions_def taken_def)
  fix j u assume j: "tn_sessions ?s j = Some u"
  show "session_ok ?s j u"
  proof (cases "j = i")
    case True
    with j assms(5) show ?thesis by (simp add: session_ok_def frame put_session_def taken_def)
  next
    case False
    with j have "session_ok s j u" using tunnel_invD(1) [OF assms(1)] by (simp add: put_session_def)
    then show ?thesis unfolding session_ok_def frame using assms(4) [OF False] by simp
  qed
next
  let ?s = "put_session i t' (s\<lparr>tn_tunnels := T\<rparr>)"
  fix j assume "j \<in> tn_tunnels ?s"
  then show "tn_sessions ?s j \<noteq> None" using tunnel_invD(2) [OF assms(1), of j] assms(4) [of j] by (cases "j = i") (auto simp: put_session_def)
next
  let ?s = "put_session i t' (s\<lparr>tn_tunnels := T\<rparr>)"
  fix k e A j assume "tn_closing ?s k = Some (e, A) \<and> j \<in> A"
  then show "\<exists>t. tn_sessions ?s j = Some t \<and> ts_engine t = e"
    using tunnel_invD(3) [OF assms(1), of k e A j] assms(2,3) by (cases "j = i") (auto simp: put_session_def)
next
  fix e
  show "finite (destructions e (put_session i t' (s\<lparr>tn_tunnels := T\<rparr>)))" using tunnel_invD(4) [OF assms(1)] by (simp add: destructions_def put_session_def)
  show "tn_destroying (put_session i t' (s\<lparr>tn_tunnels := T\<rparr>)) e = card (destructions e (put_session i t' (s\<lparr>tn_tunnels := T\<rparr>)))"
    using tunnel_invD(5) [OF assms(1), of e] by (simp add: destructions_def put_session_def)
qed

lemma inv_put_same:
  assumes "tunnel_inv s" and "tn_sessions s i = Some t" and "ts_engine t' = ts_engine t" and "session_ok s i t'"
  shows "tunnel_inv (put_session i t' s)"
  using inv_put [OF assms(1-3), of "tn_tunnels s"] assms(4) by simp

text \<open>The lock of a destruction: its sessions leave the map and become its own.\<close>

lemma inv_take:
  assumes "tunnel_inv s" and "tn_closing s k = None"
  shows "tunnel_inv (take_tunnels k e s)"
  unfolding tunnel_inv_def
proof (intro conjI allI impI ballI)
  let ?s = "take_tunnels k e s"
  have dest: "destructions e' ?s = (if e' = e then insert k (destructions e s) else destructions e' s)" for e'
    using assms(2) by (auto simp: destructions_def take_tunnels_def)
  have new: "k \<notin> destructions e' s" for e' using assms(2) by (simp add: destructions_def)
  fix e'
  show "finite (destructions e' ?s)" using tunnel_invD(4) [OF assms(1)] by (simp add: dest)
  show "tn_destroying ?s e' = card (destructions e' ?s)"
    using tunnel_invD(4,5) [OF assms(1)] new by (simp add: dest) (simp add: take_tunnels_def)
next
  let ?s = "take_tunnels k e s"
  fix i t assume t: "tn_sessions ?s i = Some t"
  then have ok: "session_ok s i t" using tunnel_invD(1) [OF assms(1)] by (simp add: take_tunnels_def)
  have old: "taken i e' ?s" if tk: "taken i e' s" for e'
  proof -
    from tk obtain k' B where b: "tn_closing s k' = Some (e', B)" "i \<in> B" unfolding taken_def by blast
    with assms(2) have "tn_closing ?s k' = Some (e', B)" by (auto simp: take_tunnels_def)
    then show ?thesis using b(2) by (rule takenI)
  qed
  have mine: "i \<in> tn_tunnels s \<Longrightarrow> ts_engine t = e \<Longrightarrow> taken i e ?s"
    using t unfolding taken_def by (auto simp: take_tunnels_def of_engine_def)
  have "i \<in> tn_tunnels ?s \<longleftrightarrow> i \<in> tn_tunnels s \<and> ts_engine t \<noteq> e" using t by (auto simp: take_tunnels_def of_engine_def)
  then show "session_ok ?s i t" using ok old mine unfolding session_ok_def by (auto simp: take_tunnels_def)
next
  fix i assume "i \<in> tn_tunnels (take_tunnels k e s)"
  then show "tn_sessions (take_tunnels k e s) i \<noteq> None" using tunnel_invD(2) [OF assms(1), of i] by (auto simp: take_tunnels_def)
next
  fix k' e' A i assume "tn_closing (take_tunnels k e s) k' = Some (e', A) \<and> i \<in> A"
  then show "\<exists>t. tn_sessions (take_tunnels k e s) i = Some t \<and> ts_engine t = e'"
    using tunnel_invD(3) [OF assms(1), of k' e' A i] by (auto simp: take_tunnels_def of_engine_def split: if_splits)
qed

lemma inv_close:
  assumes "tunnel_inv s" and "tn_closing s k = Some (e, A)" and "i \<in> A" and "tn_sessions s i = Some t"
  shows "tunnel_inv (put_session i (close_session t) (s\<lparr>tn_closing := (tn_closing s)(k \<mapsto> (e, A - {i}))\<rparr>))"
    (is "tunnel_inv ?s")
  unfolding tunnel_inv_def
proof (intro conjI allI impI ballI)
  have dest: "destructions e' ?s = destructions e' s" for e' using assms(2) by (auto simp: destructions_def put_session_def)
  fix e'
  show "finite (destructions e' ?s)" "tn_destroying ?s e' = card (destructions e' ?s)"
    using tunnel_invD(4,5) [OF assms(1)] by (simp_all add: dest) (simp add: put_session_def)
next
  fix j u assume u: "tn_sessions ?s j = Some u"
  show "session_ok ?s j u"
  proof (cases "j = i")
    case True
    with u have "u = close_session t" by (simp add: put_session_def)
    then show ?thesis using True tunnel_invD(1) [OF assms(1,4)] unfolding session_ok_def by (auto simp: close_session_def put_session_def)
  next
    case False
    with u have ok: "session_ok s j u" using tunnel_invD(1) [OF assms(1)] by (simp add: put_session_def)
    have "taken j e' ?s" if tk: "taken j e' s" for e'
    proof -
      from tk obtain k' B where b: "tn_closing s k' = Some (e', B)" "j \<in> B" unfolding taken_def by blast
      with assms(2) False have "tn_closing ?s k' = Some (e', if k' = k then B - {i} else B)" by (auto simp: put_session_def)
      then show ?thesis using b(2) False by (auto intro: takenI)
    qed
    with ok show ?thesis unfolding session_ok_def by (auto simp: put_session_def)
  qed
next
  fix j assume "j \<in> tn_tunnels ?s"
  then show "tn_sessions ?s j \<noteq> None" using tunnel_invD(2) [OF assms(1), of j] by (auto simp: put_session_def)
next
  fix k' e' B j assume "tn_closing ?s k' = Some (e', B) \<and> j \<in> B"
  then have "\<exists>v. tn_sessions s j = Some v \<and> ts_engine v = e'"
    using tunnel_invD(3) [OF assms(1), of k' e' B j] tunnel_invD(3) [OF assms(1,2), of j] by (auto simp: put_session_def split: if_splits)
  then show "\<exists>v. tn_sessions ?s j = Some v \<and> ts_engine v = e'" using assms(4) by (cases "j = i") (auto simp: put_session_def close_session_def)
qed

lemma inv_finish:
  assumes "tunnel_inv s" and "tn_closing s k = Some (e, {})"
  shows "tunnel_inv (finishTunnelDestroy k e s)"
    (is "tunnel_inv ?s")
  unfolding tunnel_inv_def
proof (intro conjI allI impI ballI)
  have dest: "destructions e' ?s = (if e' = e then destructions e s - {k} else destructions e' s)" for e'
    using assms(2) by (auto simp: destructions_def finishTunnelDestroy_def)
  have k: "k \<in> destructions e s" using assms(2) by (simp add: destructions_def)
  fix e'
  show "finite (destructions e' ?s)" using tunnel_invD(4) [OF assms(1)] by (simp add: dest)
  have "card (destructions e s - {k}) = card (destructions e s) - 1" by (rule card_Diff_singleton [OF k])
  moreover have "tn_destroying ?s e' = (if e' = e then card (destructions e s) - 1 else card (destructions e' s))"
    by (simp add: finishTunnelDestroy_def tunnel_invD(5) [OF assms(1)])
  ultimately show "tn_destroying ?s e' = card (destructions e' ?s)" by (simp add: dest)
next
  fix j u assume u: "tn_sessions ?s j = Some u"
  then have ok: "session_ok s j u" using tunnel_invD(1) [OF assms(1)] by (simp add: finishTunnelDestroy_def)
  have "taken j e' ?s" if tk: "taken j e' s" for e'
  proof -
    from tk obtain k' B where b: "tn_closing s k' = Some (e', B)" "j \<in> B" unfolding taken_def by blast
    with assms(2) have "tn_closing ?s k' = Some (e', B)" by (auto simp: finishTunnelDestroy_def)
    then show ?thesis using b(2) by (rule takenI)
  qed
  with ok show "session_ok ?s j u" unfolding session_ok_def by (auto simp: finishTunnelDestroy_def)
next
  fix j assume "j \<in> tn_tunnels ?s"
  then show "tn_sessions ?s j \<noteq> None" using tunnel_invD(2) [OF assms(1), of j] by (auto simp: finishTunnelDestroy_def)
next
  fix k' e' B j assume "tn_closing ?s k' = Some (e', B) \<and> j \<in> B"
  then show "\<exists>v. tn_sessions ?s j = Some v \<and> ts_engine v = e'"
    using tunnel_invD(3) [OF assms(1), of k' e' B j] by (auto simp: finishTunnelDestroy_def split: if_splits)
qed

lemma tunnel_step_inv:
  assumes "tunnel_step s s'" and "tunnel_inv s"
  shows "tunnel_inv s'"
  using assms
proof (cases rule: tunnel_step.cases)
  case (upgrade i e)
  have "i \<notin> tn_tunnels s" "\<not> taken i e' s" for e'
    using tunnel_invD(2,3) [OF assms(2), of i] tunnel_invD(3) [OF assms(2), of _ _ _ i] upgrade(2) unfolding taken_def by fastforce+
  then show ?thesis using assms(2) upgrade unfolding tunnel_inv_def
    by (auto simp: put_session_def session_ok_def destructions_def taken_def)
next
  case (register i t s1)
  then have s1: "s1 = s\<lparr>tn_tunnels := insert i (tn_tunnels s)\<rparr>" "tn_destroying s (ts_engine t) = 0"
    by (auto simp: registerTunnel_def split: if_splits)
  show ?thesis unfolding register(1) s1(1)
    by (rule inv_put [OF assms(2) register(2)]) (use tunnel_invD(1) [OF assms(2) register(2)] register(3) s1(2) in \<open>auto simp: session_ok_def taken_def\<close>)
next
  case (refuse i t s1)
  then have s1: "s1 = s" by (auto simp: registerTunnel_def split: if_splits)
  show ?thesis unfolding refuse(1) s1
    by (rule inv_put_same [OF assms(2) refuse(2)]) (use tunnel_invD(1) [OF assms(2) refuse(2)] refuse(3) in \<open>auto simp: session_ok_def\<close>)
next
  case (fail i t)
  show ?thesis unfolding fail(1)
    by (rule inv_put_same [OF assms(2) fail(2)]) (use tunnel_invD(1) [OF assms(2) fail(2)] fail(3) in \<open>auto simp: session_ok_def\<close>)
next
  case (open_stream i t)
  show ?thesis unfolding open_stream(1)
    by (rule inv_put_same [OF assms(2) open_stream(2)]) (use tunnel_invD(1) [OF assms(2) open_stream(2)] open_stream(3) in \<open>auto simp: session_ok_def\<close>)
next
  case (hand_over i t t')
  then have t': "t' = t\<lparr>ts_guest := True\<rparr>" "i \<in> tn_tunnels s" by (auto simp: setTunnelGuest_def split: if_splits)
  show ?thesis unfolding hand_over(1)
    by (rule inv_put_same [OF assms(2) hand_over(2)]) (use tunnel_invD(1) [OF assms(2) hand_over(2)] t' hand_over(3) in \<open>auto simp: session_ok_def\<close>)
next
  case (too_late i t t')
  then have t': "t' = t" by (auto simp: setTunnelGuest_def split: if_splits)
  show ?thesis unfolding too_late(1) t'
    by (rule inv_put_same [OF assms(2) too_late(2)]) (use tunnel_invD(1) [OF assms(2) too_late(2)] too_late(3) in \<open>auto simp: session_ok_def\<close>)
next
  case (relayed i t)
  show ?thesis unfolding relayed(1)
    by (rule inv_put_same [OF assms(2) relayed(2)]) (use tunnel_invD(1) [OF assms(2) relayed(2)] relayed(3) in \<open>auto simp: session_ok_def\<close>)
next
  case (leave i t)
  show ?thesis unfolding leave(1) unregisterTunnel_def
    by (rule inv_put [OF assms(2) leave(2)]) (use tunnel_invD(1) [OF assms(2) leave(2)] leave(3) in \<open>auto simp: session_ok_def\<close>)
next
  case (destroy k e)
  then show ?thesis using inv_take [OF assms(2)] by simp
next
  case (close k e A i t)
  then show ?thesis using inv_close [OF assms(2)] by simp
next
  case (finish k e)
  then show ?thesis using inv_finish [OF assms(2)] by simp
qed

section \<open>Destruction\<close>

definition tunnel_reach :: "tunnel_state \<Rightarrow> bool" where
  "tunnel_reach s \<longleftrightarrow> tunnel_step\<^sup>*\<^sup>* tunnel_start s"

lemma tunnel_reach_inv: "tunnel_reach s \<Longrightarrow> tunnel_inv s"
  unfolding tunnel_reach_def
proof (induction rule: rtranclp_induct)
  case base
  show ?case by (simp add: tunnel_inv_def tunnel_start_def destructions_def)
next
  case (step s s')
  then show ?case by (blast intro: tunnel_step_inv)
qed

text \<open>
  C23: destroying a sandbox cuts every tunnel to it. Whatever handlers and destructions interleave: while a destruction of a sandbox is in progress no tunnel to it
  is registered and none can register, and a stream that was handed over is open only if a destruction in progress has it on its list to close;
  so once the only destruction has closed its list, no tunnel relays to the sandbox. And a handler that has returned
  has left nothing open: no stream, no socket, no entry.
\<close>

theorem destroy_cuts_tunnels:
  assumes "tunnel_reach s" and "tn_sessions s i = Some t"
  shows "(\<forall>k A. tn_closing s k = Some (ts_engine t, A) \<longrightarrow>
      i \<notin> tn_tunnels s \<and> fst (registerTunnel (ts_engine t) i s) = False \<and> fst (setTunnelGuest i t s) = False \<and>
      (ts_guest t \<and> ts_stream_open t \<longrightarrow> (\<exists>k' B. tn_closing s k' = Some (ts_engine t, B) \<and> i \<in> B)) \<and>
      (destructions (ts_engine t) s = {k} \<and> A = {} \<longrightarrow> \<not> (ts_guest t \<and> ts_stream_open t))) \<and>
    (ts_pc t = Returned \<longrightarrow> \<not> ts_stream_open t \<and> \<not> ts_ws_open t \<and> i \<notin> tn_tunnels s)"
proof -
  note inv = tunnel_reach_inv [OF assms(1)]
  note ok = tunnel_invD(1) [OF inv assms(2), unfolded session_ok_def]
  have main: "i \<notin> tn_tunnels s \<and> tn_destroying s (ts_engine t) > 0 \<and> (ts_guest t \<and> ts_stream_open t \<longrightarrow> taken i (ts_engine t) s)"
    if c: "tn_closing s k = Some (ts_engine t, A)" for k A
  proof -
    have "k \<in> destructions (ts_engine t) s" using c by (simp add: destructions_def)
    then have "tn_destroying s (ts_engine t) > 0" using tunnel_invD(4,5) [OF inv, of "ts_engine t"] by (auto simp: card_gt_0_iff)
    then show ?thesis using ok by auto
  qed
  show ?thesis
  proof (intro conjI allI impI)
    fix k A assume c: "tn_closing s k = Some (ts_engine t, A)"
    note m = main [OF c]
    show "i \<notin> tn_tunnels s" "fst (registerTunnel (ts_engine t) i s) = False" "fst (setTunnelGuest i t s) = False"
      using m by (simp_all add: registerTunnel_def setTunnelGuest_def)
    show tk: "\<exists>k' B. tn_closing s k' = Some (ts_engine t, B) \<and> i \<in> B" if "ts_guest t \<and> ts_stream_open t"
      using m that by (simp add: taken_def)
    show "\<not> (ts_guest t \<and> ts_stream_open t)" if sole: "destructions (ts_engine t) s = {k} \<and> A = {}"
    proof
      assume "ts_guest t \<and> ts_stream_open t"
      then obtain k' B where b: "tn_closing s k' = Some (ts_engine t, B)" "i \<in> B" using tk by blast
      then have "k' = k" using sole by (auto simp: destructions_def)
      with b c sole show False by simp
    qed
  qed (use ok in auto)
qed

text \<open>A tunnel that relays when its sandbox is destroyed.\<close>

lemma destroy_cuts_tunnels_witness:
  "\<exists>s t. tunnel_reach s \<and> tn_sessions s 0 = Some t \<and> tn_closing s 7 = Some (''vm1'', {}) \<and> \<not> ts_stream_open t \<and> ts_pc t = Relaying"
proof -
  define t1 where "t1 = \<lparr>ts_engine = ''vm1'', ts_pc = Upgraded, ts_ws_open = True, ts_cancelled = False, ts_guest = False, ts_stream_open = False\<rparr>"
  define t2 where "t2 = t1\<lparr>ts_pc := Registered\<rparr>"
  define t3 where "t3 = t2\<lparr>ts_pc := Opened, ts_stream_open := True\<rparr>"
  define t4 where "t4 = t3\<lparr>ts_guest := True, ts_pc := Relaying\<rparr>"
  define s1 where "s1 = put_session 0 t1 tunnel_start"
  define s2 where "s2 = put_session 0 t2 (s1\<lparr>tn_tunnels := insert 0 (tn_tunnels s1)\<rparr>)"
  define s3 where "s3 = put_session 0 t3 s2"
  define s4 where "s4 = put_session 0 t4 s3"
  define s5 where "s5 = take_tunnels 7 ''vm1'' s4"
  define s6 where "s6 = put_session 0 (close_session t4) (s5\<lparr>tn_closing := (tn_closing s5)(7 \<mapsto> (''vm1'', {0} - {0}))\<rparr>)"
  have step1: "tunnel_step tunnel_start s1" unfolding s1_def t1_def by (rule upgrade) (simp add: tunnel_start_def)
  have step2: "tunnel_step s1 s2" unfolding s2_def t2_def
    by (rule register [of _ _ t1]) (simp_all add: s1_def put_session_def t1_def registerTunnel_def tunnel_start_def)
  have step3: "tunnel_step s2 s3" unfolding s3_def t3_def by (rule open_stream) (simp_all add: s2_def put_session_def t2_def)
  have step4: "tunnel_step s3 s4" unfolding s4_def t4_def
    by (rule hand_over [of _ _ t3 "t3\<lparr>ts_guest := True\<rparr>", simplified]) (simp_all add: s3_def s2_def put_session_def t3_def setTunnelGuest_def)
  have step5: "tunnel_step s4 s5" unfolding s5_def by (rule destroy) (simp add: s4_def s3_def s2_def s1_def put_session_def tunnel_start_def)
  have own: "of_engine ''vm1'' s4 = {0}"
    by (auto simp: of_engine_def s4_def s3_def s2_def s1_def put_session_def tunnel_start_def t4_def t3_def t2_def t1_def)
  have step6: "tunnel_step s5 s6" unfolding s6_def
    by (rule close) (simp_all add: s5_def take_tunnels_def own, simp add: s4_def put_session_def)
  have reach: "tunnel_reach s6" unfolding tunnel_reach_def
    using step1 step2 step3 step4 step5 step6 by (meson converse_rtranclp_into_rtranclp rtranclp.rtrancl_refl)
  have t: "tn_sessions s6 0 = Some (close_session t4)" "tn_closing s6 7 = Some (''vm1'', {})" "ts_engine (close_session t4) = ''vm1''"
    "ts_guest (close_session t4)" "ts_pc (close_session t4) = Relaying"
    by (simp_all add: s6_def put_session_def close_session_def t4_def t3_def t2_def t1_def)
  have "destructions ''vm1'' s6 = {7}"
    by (auto simp: destructions_def s6_def s5_def s4_def s3_def s2_def s1_def put_session_def take_tunnels_def tunnel_start_def)
  then have "\<not> ts_stream_open (close_session t4)" using destroy_cuts_tunnels [OF reach t(1)] t by auto
  with reach t show ?thesis by blast
qed

end
