(* ===== verification/Route_Cache.thy ===== *)
theory Route_Cache
  imports Bhatti_Prelude
begin

text \<open>
  The public proxy's cache of routes, \<open>routeCache\<close> of \<^verbatim>\<open>src/pkg/server/public_proxy.go\<close>: a map from alias to an element of a doubly linked list ordered by
  use, bounded by evicting the element at the back. Elements are numbered here, as a pointer identifies them in the code. The
  refinement: on every sequence of operations map and list agree, and together they are a list of
  aliases and routes in the order of their last use, with one entry per alias. The locale \<open>route_store\<close> is what the proxy relies on of a cache.
\<close>

section \<open>The cache\<close>

record resolvedRoute =
  rr_engineID :: string
  rr_sandboxID :: string
  rr_port :: int
  rr_hasInit :: bool

text \<open>An element is its number, the alias and the route (\<open>routeCacheNode\<close>); \<open>rc_fresh\<close> is the number of the next element.\<close>

type_synonym route_element = "nat \<times> string \<times> resolvedRoute"

record routeCache =
  rc_entries :: "string \<Rightarrow> nat option"
  rc_order :: "route_element list"
  rc_fresh :: nat

definition routeCacheMaxSize :: nat where "routeCacheMaxSize = 10000"

definition newRouteCache :: routeCache where
  "newRouteCache = \<lparr>rc_entries = \<lambda>_. None, rc_order = [], rc_fresh = 0\<rparr>"

text \<open>\<^verbatim>\<open>container/list\<close>: the value of an element, \<open>MoveToFront\<close> and \<open>Remove\<close>.\<close>

definition element_value :: "nat \<Rightarrow> route_element list \<Rightarrow> (string \<times> resolvedRoute) option" where
  "element_value e order = map_of order e"

definition Remove :: "nat \<Rightarrow> route_element list \<Rightarrow> route_element list" where
  "Remove e order = filter (\<lambda>x. fst x \<noteq> e) order"

definition MoveToFront :: "nat \<Rightarrow> route_element list \<Rightarrow> route_element list" where
  "MoveToFront e order = filter (\<lambda>x. fst x = e) order @ Remove e order"

definition Get :: "string \<Rightarrow> routeCache \<Rightarrow> resolvedRoute option \<times> routeCache" where
  "Get alias rc =
     (case rc_entries rc alias of
        None \<Rightarrow> (None, rc)
      | Some e \<Rightarrow> (map_option snd (element_value e (rc_order rc)), rc\<lparr>rc_order := MoveToFront e (rc_order rc)\<rparr>))"

text \<open>The eviction of the back element when the list is full.\<close>

definition evict :: "routeCache \<Rightarrow> routeCache" where
  "evict rc =
     (if length (rc_order rc) \<ge> routeCacheMaxSize \<and> rc_order rc \<noteq> [] then
        (case last (rc_order rc) of
           (e, alias, _) \<Rightarrow> rc\<lparr>rc_entries := (rc_entries rc)(alias := None), rc_order := Remove e (rc_order rc)\<rparr>)
      else rc)"

definition Set :: "string \<Rightarrow> resolvedRoute \<Rightarrow> routeCache \<Rightarrow> routeCache" where
  "Set alias route rc =
     (case rc_entries rc alias of
        Some e \<Rightarrow> rc\<lparr>rc_order := MoveToFront e (map (\<lambda>(i, a, r). if i = e then (i, a, route) else (i, a, r)) (rc_order rc))\<rparr>
      | None \<Rightarrow>
          (let rc' = evict rc in
           rc'\<lparr>rc_entries := (rc_entries rc')(alias \<mapsto> rc_fresh rc'), rc_order := (rc_fresh rc', alias, route) # rc_order rc',
               rc_fresh := rc_fresh rc' + 1\<rparr>))"

definition Invalidate :: "string \<Rightarrow> routeCache \<Rightarrow> routeCache" where
  "Invalidate alias rc =
     (case rc_entries rc alias of
        None \<Rightarrow> rc
      | Some e \<Rightarrow> rc\<lparr>rc_entries := (rc_entries rc)(alias := None), rc_order := Remove e (rc_order rc)\<rparr>)"

text \<open>The loop visits every entry of the map; the order does not matter, since each visit removes its own entry only.\<close>

definition InvalidateSandbox :: "string \<Rightarrow> routeCache \<Rightarrow> routeCache" where
  "InvalidateSandbox sandboxID rc =
     fold (\<lambda>(e, alias, route) rc. if rr_sandboxID route = sandboxID
         then rc\<lparr>rc_entries := (rc_entries rc)(alias := None), rc_order := Remove e (rc_order rc)\<rparr> else rc)
       (rc_order rc) rc"

section \<open>Refinement of a list ordered by use\<close>

definition by_use :: "routeCache \<Rightarrow> (string \<times> resolvedRoute) list" where
  "by_use rc = map snd (rc_order rc)"

definition cache_ok :: "routeCache \<Rightarrow> bool" where
  "cache_ok rc \<longleftrightarrow> distinct (map fst (rc_order rc)) \<and> distinct (map fst (by_use rc)) \<and>
     rc_entries rc = map_of (map (\<lambda>(e, a, r). (a, e)) (rc_order rc)) \<and> (\<forall>x \<in> set (rc_order rc). fst x < rc_fresh rc) \<and>
     length (rc_order rc) \<le> routeCacheMaxSize"

text \<open>The abstract operations, on a list with one entry per alias.\<close>

definition use_get :: "string \<Rightarrow> (string \<times> resolvedRoute) list \<Rightarrow> resolvedRoute option \<times> (string \<times> resolvedRoute) list" where
  "use_get a l = (case map_of l a of None \<Rightarrow> (None, l) | Some r \<Rightarrow> (Some r, (a, r) # filter (\<lambda>x. fst x \<noteq> a) l))"

definition use_set :: "string \<Rightarrow> resolvedRoute \<Rightarrow> (string \<times> resolvedRoute) list \<Rightarrow> (string \<times> resolvedRoute) list" where
  "use_set a r l = (a, r) # (if a \<in> fst ` set l then filter (\<lambda>x. fst x \<noteq> a) l
     else if length l \<ge> routeCacheMaxSize then butlast l else l)"

lemma cache_okD:
  assumes "cache_ok rc"
  shows "distinct (map fst (rc_order rc))" "distinct (map fst (by_use rc))" "\<And>x. x \<in> set (rc_order rc) \<Longrightarrow> fst x < rc_fresh rc"
    "length (rc_order rc) \<le> routeCacheMaxSize" "rc_entries rc = map_of (map (\<lambda>(e, a, r). (a, e)) (rc_order rc))"
  using assms by (simp_all add: cache_ok_def)

lemma entries_iff:
  assumes "cache_ok rc"
  shows "rc_entries rc a = Some e \<longleftrightarrow> (\<exists>r. (e, a, r) \<in> set (rc_order rc))"
proof -
  have "map fst (map (\<lambda>(e, a, r). (a, e)) (rc_order rc)) = map fst (by_use rc)" by (auto simp: by_use_def)
  then have "distinct (map fst (map (\<lambda>(e, a, r). (a, e)) (rc_order rc)))" using cache_okD(2) [OF assms] by simp
  from map_of_eq_Some_iff [OF this, of a e] show ?thesis unfolding cache_okD(5) [OF assms] by force
qed

lemma filter_single: "distinct l \<Longrightarrow> x \<in> set l \<Longrightarrow> filter (\<lambda>y. y = x) l = [x]"
  by (induction l) (auto simp: filter_empty_conv)

text \<open>An element and an alias each identify a node; removing the element of an alias is dropping the entry of the alias.\<close>

lemma one_node:
  assumes "cache_ok rc" and "(e, a, r) \<in> set (rc_order rc)" and "x \<in> set (rc_order rc)"
  shows "fst x = e \<longleftrightarrow> x = (e, a, r)" and "fst (snd x) = a \<longleftrightarrow> x = (e, a, r)"
proof -
  have "inj_on fst (set (rc_order rc))" "inj_on (\<lambda>x. fst (snd x)) (set (rc_order rc))"
    using cache_okD(1,2) [OF assms(1)] by (simp_all add: distinct_map by_use_def comp_def inj_on_def)
  from inj_onD [OF this(1) _ assms(3,2)] inj_onD [OF this(2) _ assms(3,2)]
  show "fst x = e \<longleftrightarrow> x = (e, a, r)" "fst (snd x) = a \<longleftrightarrow> x = (e, a, r)" by auto
qed

lemma Remove_alias:
  assumes "cache_ok rc" and "(e, a, r) \<in> set (rc_order rc)"
  shows "Remove e (rc_order rc) = filter (\<lambda>x. fst (snd x) \<noteq> a) (rc_order rc)"
    and "filter (\<lambda>x. fst x = e) (rc_order rc) = [(e, a, r)]"
    and "set (filter (\<lambda>x. fst (snd x) \<noteq> a) (rc_order rc)) = set (rc_order rc) - {(e, a, r)}"
proof -
  note one = one_node [OF assms]
  show "Remove e (rc_order rc) = filter (\<lambda>x. fst (snd x) \<noteq> a) (rc_order rc)"
    unfolding Remove_def by (rule filter_cong [OF refl]) (simp add: one)
  show "set (filter (\<lambda>x. fst (snd x) \<noteq> a) (rc_order rc)) = set (rc_order rc) - {(e, a, r)}"
    unfolding set_filter using one(2) by blast
  have "distinct (rc_order rc)" using cache_okD(1) [OF assms(1)] by (simp add: distinct_map)
  then have "filter (\<lambda>x. x = (e, a, r)) (rc_order rc) = [(e, a, r)]" using assms(2) by (rule filter_single)
  moreover have "filter (\<lambda>x. fst x = e) (rc_order rc) = filter (\<lambda>x. x = (e, a, r)) (rc_order rc)"
    by (rule filter_cong [OF refl]) (rule one(1))
  ultimately show "filter (\<lambda>x. fst x = e) (rc_order rc) = [(e, a, r)]" by simp
qed

text \<open>Dropping aliases from both structures, and reordering the list.\<close>

lemma map_of_filter_key: "map_of (filter (\<lambda>x. \<not> P (fst x)) l) = (\<lambda>a. if P a then None else map_of l a)"
  by (induction l) (auto simp: fun_eq_iff)

lemma ok_drop:
  assumes "cache_ok rc"
  shows "cache_ok (rc\<lparr>rc_entries := (\<lambda>a. if P a then None else rc_entries rc a), rc_order := filter (\<lambda>x. \<not> P (fst (snd x))) (rc_order rc)\<rparr>)"
proof -
  have "map (\<lambda>(e, a, r). (a, e)) (filter (\<lambda>x. \<not> P (fst (snd x))) (rc_order rc)) = filter (\<lambda>x. \<not> P (fst x)) (map (\<lambda>(e, a, r). (a, e)) (rc_order rc))"
    by (auto simp: filter_map comp_def case_prod_beta)
  moreover have "length (filter (\<lambda>x. \<not> P (fst (snd x))) (rc_order rc)) \<le> routeCacheMaxSize"
    using cache_okD(4) [OF assms] length_filter_le le_trans by blast
  ultimately show ?thesis
    using cache_okD [OF assms] unfolding cache_ok_def by (auto simp: by_use_def distinct_map_filter map_of_filter_key)
qed

lemma ok_front:
  assumes "cache_ok rc" and "(e, a, r) \<in> set (rc_order rc)"
  shows "cache_ok (rc\<lparr>rc_order := (e, a, r') # filter (\<lambda>x. fst (snd x) \<noteq> a) (rc_order rc)\<rparr>)"
    and "length (filter (\<lambda>x. fst (snd x) \<noteq> a) (rc_order rc)) < length (rc_order rc)"
proof -
  let ?rest = "filter (\<lambda>x. fst (snd x) \<noteq> a) (rc_order rc)"
  show len: "length ?rest < length (rc_order rc)" using assms(2) by (intro length_filter_less) auto
  note rest = Remove_alias(3) [OF assms]
  have new: "e \<notin> fst ` set ?rest" unfolding rest using one_node(1) [OF assms] by blast
  have all: "set (rc_order rc) = insert (e, a, r) (set ?rest)" using assms(2) rest by blast
  have keys: "set (map (\<lambda>(e, a, r). (a, e)) ((e, a, r') # ?rest)) = set (map (\<lambda>(e, a, r). (a, e)) (rc_order rc))"
    unfolding set_map all by simp
  have d: "distinct (map fst ((e, a, r') # ?rest))" "distinct (map fst (map snd ((e, a, r') # ?rest)))"
    using cache_okD(1,2) [OF assms(1)] new by (auto simp: distinct_map_filter by_use_def)
  have "map_of (map (\<lambda>(e, a, r). (a, e)) ((e, a, r') # ?rest)) = map_of (map (\<lambda>(e, a, r). (a, e)) (rc_order rc))"
    by (rule map_of_inject_set [THEN iffD2, OF _ _ keys]) (use d cache_okD(2) [OF assms(1)] in \<open>auto simp: by_use_def comp_def case_prod_beta\<close>)
  then show "cache_ok (rc\<lparr>rc_order := (e, a, r') # ?rest\<rparr>)"
    using cache_okD [OF assms(1)] d len assms(2) unfolding cache_ok_def by (auto simp: by_use_def)
qed

section \<open>The operations\<close>

lemma by_use_drop: "map snd (filter (\<lambda>x. fst (snd x) \<noteq> a) l) = filter (\<lambda>x. fst x \<noteq> a) (map snd l)"
  by (simp add: filter_map comp_def)

lemma by_use_front:
  "by_use (rc\<lparr>rc_order := (e, a, r) # filter (\<lambda>x. fst (snd x) \<noteq> a) (rc_order rc)\<rparr>) = (a, r) # filter (\<lambda>x. fst x \<noteq> a) (by_use rc)"
  by (simp add: by_use_def by_use_drop)

lemma lookup_by_use:
  assumes "cache_ok rc"
  shows "map_of (by_use rc) a = (case rc_entries rc a of None \<Rightarrow> None | Some e \<Rightarrow> map_option snd (element_value e (rc_order rc)))"
proof (cases "rc_entries rc a")
  case None
  have "a \<notin> fst ` set (by_use rc)"
  proof
    assume "a \<in> fst ` set (by_use rc)"
    then obtain e r where "(e, a, r) \<in> set (rc_order rc)" by (auto simp: by_use_def)
    then have "rc_entries rc a = Some e" using entries_iff [OF assms] by blast
    with None show False by simp
  qed
  with None show ?thesis by (simp add: map_of_eq_None_iff)
next
  case (Some e)
  then obtain r where r: "(e, a, r) \<in> set (rc_order rc)" using entries_iff [OF assms] by blast
  then have "(a, r) \<in> set (by_use rc)" by (force simp: by_use_def)
  then have "map_of (by_use rc) a = Some r" using cache_okD(2) [OF assms] by simp
  moreover have "map_of (rc_order rc) e = Some (a, r)" using r cache_okD(1) [OF assms] by simp
  ultimately show ?thesis using Some by (simp add: element_value_def)
qed

lemma Get_refines:
  assumes "cache_ok rc"
  shows "cache_ok (snd (Get a rc)) \<and> (fst (Get a rc), by_use (snd (Get a rc))) = use_get a (by_use rc)"
proof (cases "rc_entries rc a")
  case None
  with lookup_by_use [OF assms, of a] assms show ?thesis by (simp add: Get_def use_get_def)
next
  case (Some e)
  then obtain r where r: "(e, a, r) \<in> set (rc_order rc)" using entries_iff [OF assms] by blast
  have move: "MoveToFront e (rc_order rc) = (e, a, r) # filter (\<lambda>x. fst (snd x) \<noteq> a) (rc_order rc)"
    by (simp add: MoveToFront_def Remove_alias(1,2) [OF assms r])
  have "map_of (rc_order rc) e = Some (a, r)" using r cache_okD(1) [OF assms] by simp
  with Some lookup_by_use [OF assms, of a] have m: "map_of (by_use rc) a = Some r" "fst (Get a rc) = Some r"
    by (simp_all add: element_value_def Get_def)
  have g: "snd (Get a rc) = rc\<lparr>rc_order := (e, a, r) # filter (\<lambda>x. fst (snd x) \<noteq> a) (rc_order rc)\<rparr>"
    using Some by (simp add: Get_def move)
  show ?thesis using ok_front(1) [OF assms r] by (simp add: g m use_get_def by_use_front)
qed

lemma Invalidate_refines:
  assumes "cache_ok rc"
  shows "cache_ok (Invalidate a rc) \<and> by_use (Invalidate a rc) = filter (\<lambda>x. fst x \<noteq> a) (by_use rc)"
proof (cases "rc_entries rc a")
  case None
  then have "a \<notin> fst ` set (by_use rc)" using lookup_by_use [OF assms, of a] by (simp add: map_of_eq_None_iff)
  then have "filter (\<lambda>x. fst x \<noteq> a) (by_use rc) = by_use rc" by (auto simp: filter_id_conv)
  with None assms show ?thesis by (simp add: Invalidate_def)
next
  case (Some e)
  then obtain r where r: "(e, a, r) \<in> set (rc_order rc)" using entries_iff [OF assms] by blast
  have "(rc_entries rc)(a := None) = (\<lambda>b. if b = a then None else rc_entries rc b)" by auto
  then have "Invalidate a rc = rc\<lparr>rc_entries := (\<lambda>b. if b = a then None else rc_entries rc b), rc_order := filter (\<lambda>x. fst (snd x) \<noteq> a) (rc_order rc)\<rparr>"
    using Some by (simp add: Invalidate_def Remove_alias(1) [OF assms r])
  with ok_drop [OF assms, of "\<lambda>b. b = a"] show ?thesis by (simp add: by_use_def by_use_drop)
qed

lemma evict_refines:
  assumes "cache_ok rc"
  shows "cache_ok (evict rc) \<and> length (rc_order (evict rc)) < routeCacheMaxSize \<and> rc_fresh (evict rc) = rc_fresh rc \<and>
    by_use (evict rc) = (if length (by_use rc) \<ge> routeCacheMaxSize then butlast (by_use rc) else by_use rc)"
proof (cases "length (rc_order rc) \<ge> routeCacheMaxSize")
  case False
  with assms show ?thesis by (simp add: evict_def by_use_def)
next
  case True
  then have ne: "rc_order rc \<noteq> []" by (auto simp: routeCacheMaxSize_def)
  obtain e a r where lst: "last (rc_order rc) = (e, a, r)" by (cases "last (rc_order rc)")
  with ne have mem: "(e, a, r) \<in> set (rc_order rc)" by (metis last_in_set)
  have "rc_entries rc a = Some e" using entries_iff [OF assms] mem by blast
  then have ev: "evict rc = Invalidate a rc" using True ne lst by (simp add: evict_def Invalidate_def)
  have d: "distinct (map fst (by_use rc))" by (rule cache_okD(2) [OF assms])
  have app: "by_use rc = butlast (by_use rc) @ [(a, r)]"
    using ne lst by (metis append_butlast_last_id by_use_def last_map map_is_Nil_conv snd_conv)
  have "filter (\<lambda>x. fst x \<noteq> a) (by_use rc) = butlast (by_use rc)"
  proof -
    have "a \<notin> fst ` set (butlast (by_use rc))" using d app by (metis distinct.simps(2) distinct1_rotate fst_conv list.set_map list.simps(9) map_append rotate1.simps(2) rotate1_map)
    then have "filter (\<lambda>x. fst x \<noteq> a) (butlast (by_use rc)) = butlast (by_use rc)" by (auto simp: filter_id_conv)
    then show ?thesis by (subst app) simp
  qed
  with Invalidate_refines [OF assms, of a] have bu: "cache_ok (evict rc)" "by_use (evict rc) = butlast (by_use rc)" by (simp_all add: ev)
  moreover have "length (rc_order (evict rc)) = length (butlast (by_use rc))" using arg_cong [OF bu(2), of length] by (simp add: by_use_def)
  moreover have "length (butlast (by_use rc)) < routeCacheMaxSize"
    using cache_okD(4) [OF assms] True ne by (simp add: by_use_def) (simp add: routeCacheMaxSize_def)
  moreover have "rc_fresh (evict rc) = rc_fresh rc" using True ne lst by (simp add: evict_def)
  ultimately show ?thesis using True by (simp add: by_use_def)
qed

lemma Set_refines:
  assumes "cache_ok rc"
  shows "cache_ok (Set a r rc) \<and> by_use (Set a r rc) = use_set a r (by_use rc)"
proof (cases "rc_entries rc a")
  case (Some e)
  then obtain r0 where r0: "(e, a, r0) \<in> set (rc_order rc)" using entries_iff [OF assms] by blast
  let ?order = "map (\<lambda>(i, b, q). if i = e then (i, b, r) else (i, b, q)) (rc_order rc)"
  have "filter (\<lambda>x. fst x = e) ?order = map (\<lambda>(i, b, q). (i, b, r)) (filter (\<lambda>x. fst x = e) (rc_order rc))"
    by (auto simp: filter_map comp_def case_prod_beta intro: map_cong)
  moreover have "Remove e ?order = Remove e (rc_order rc)"
    by (auto simp: Remove_def filter_map comp_def case_prod_beta intro!: map_idI)
  ultimately have "MoveToFront e ?order = (e, a, r) # filter (\<lambda>x. fst (snd x) \<noteq> a) (rc_order rc)"
    by (simp add: MoveToFront_def Remove_alias(1,2) [OF assms r0])
  then have s: "Set a r rc = rc\<lparr>rc_order := (e, a, r) # filter (\<lambda>x. fst (snd x) \<noteq> a) (rc_order rc)\<rparr>" using Some by (simp add: Set_def)
  have "a \<in> fst ` set (by_use rc)" using r0 by (force simp: by_use_def)
  then show ?thesis using ok_front(1) [OF assms r0] by (simp only: s by_use_front use_set_def) simp
next
  case None
  define rc' where "rc' = evict rc"
  note ev = evict_refines [OF assms, folded rc'_def]
  then have ok: "cache_ok rc'" by simp
  have len: "length (rc_order rc') < routeCacheMaxSize" using ev by simp
  have new: "a \<notin> fst ` set (by_use rc)" using None lookup_by_use [OF assms, of a] by (simp add: map_of_eq_None_iff)
  have sub: "set (by_use rc') \<subseteq> set (by_use rc)" using ev in_set_butlastD by (auto split: if_splits)
  have s: "Set a r rc = rc'\<lparr>rc_entries := (rc_entries rc')(a \<mapsto> rc_fresh rc'), rc_order := (rc_fresh rc', a, r) # rc_order rc', rc_fresh := rc_fresh rc' + 1\<rparr>"
    using None by (simp add: Set_def rc'_def Let_def)
  have "rc_fresh rc' \<notin> fst ` set (rc_order rc')" using cache_okD(3) [OF ok] by (metis imageE less_irrefl_nat)
  moreover have "a \<notin> fst ` set (map snd (rc_order rc'))" using contra_subsetD [OF image_mono [OF sub, of fst] new] by (simp only: by_use_def not_False_eq_True)
  moreover have "x < rc_fresh rc' + 1" if "(x, y) \<in> set (rc_order rc')" for x y using cache_okD(3) [OF ok that] by simp
  ultimately have "cache_ok (Set a r rc)"
    using cache_okD(1,2,5) [OF ok] len unfolding cache_ok_def s by (auto simp: by_use_def)
  then show ?thesis using ev new by (simp add: s by_use_def use_set_def)
qed

lemma invalidate_loop:
  assumes "cache_ok rc" and "distinct l" and "set l \<subseteq> set (rc_order rc)"
  shows "cache_ok (fold (\<lambda>(e, b, q) rc. if rr_sandboxID q = s
      then rc\<lparr>rc_entries := (rc_entries rc)(b := None), rc_order := Remove e (rc_order rc)\<rparr> else rc) l rc) \<and>
    rc_order (fold (\<lambda>(e, b, q) rc. if rr_sandboxID q = s
      then rc\<lparr>rc_entries := (rc_entries rc)(b := None), rc_order := Remove e (rc_order rc)\<rparr> else rc) l rc) =
    filter (\<lambda>x. \<not> (x \<in> set l \<and> rr_sandboxID (snd (snd x)) = s)) (rc_order rc)"
  using assms
proof (induction l arbitrary: rc)
  case (Cons x l)
  obtain e b q where x: "x = (e, b, q)" by (cases x)
  have mem: "(e, b, q) \<in> set (rc_order rc)" using Cons.prems(3) by (simp add: x)
  show ?case
  proof (cases "rr_sandboxID q = s")
    case False
    with Cons.IH [of rc] Cons.prems show ?thesis by (auto simp: x intro: filter_cong)
  next
    case True
    define rc' where "rc' = rc\<lparr>rc_entries := (rc_entries rc)(b := None), rc_order := Remove e (rc_order rc)\<rparr>"
    have "rc_entries rc b = Some e" using entries_iff [OF Cons.prems(1)] mem by blast
    then have rc': "rc' = Invalidate b rc" by (simp add: rc'_def Invalidate_def)
    have ok: "cache_ok rc'" using Invalidate_refines [OF Cons.prems(1)] by (simp add: rc')
    have ord: "rc_order rc' = filter (\<lambda>y. y \<noteq> x) (rc_order rc)"
    proof -
      have "rc_order rc' = filter (\<lambda>x. fst (snd x) \<noteq> b) (rc_order rc)" unfolding rc'_def by (simp add: Remove_alias(1) [OF Cons.prems(1) mem])
      also have "\<dots> = filter (\<lambda>y. y \<noteq> x) (rc_order rc)" by (rule filter_cong [OF refl]) (simp add: one_node(2) [OF Cons.prems(1) mem] x)
      finally show ?thesis .
    qed
    have "set l \<subseteq> set (rc_order rc')" using Cons.prems(2,3) by (auto simp: ord)
    with Cons.IH [OF ok] Cons.prems(2) have "cache_ok (fold (\<lambda>(e, b, q) rc. if rr_sandboxID q = s
      then rc\<lparr>rc_entries := (rc_entries rc)(b := None), rc_order := Remove e (rc_order rc)\<rparr> else rc) l rc')"
      "rc_order (fold (\<lambda>(e, b, q) rc. if rr_sandboxID q = s
      then rc\<lparr>rc_entries := (rc_entries rc)(b := None), rc_order := Remove e (rc_order rc)\<rparr> else rc) l rc') =
       filter (\<lambda>y. \<not> (y \<in> set l \<and> rr_sandboxID (snd (snd y)) = s)) (rc_order rc')" by simp_all
    then show ?thesis using True by (auto simp: x rc'_def [symmetric] ord intro!: filter_cong)
  qed
qed simp

lemma InvalidateSandbox_refines:
  assumes "cache_ok rc"
  shows "cache_ok (InvalidateSandbox s rc) \<and> by_use (InvalidateSandbox s rc) = filter (\<lambda>x. rr_sandboxID (snd x) \<noteq> s) (by_use rc)"
proof -
  have "distinct (rc_order rc)" using cache_okD(1) [OF assms] by (simp add: distinct_map)
  from invalidate_loop [OF assms this subset_refl, of s]
  have "cache_ok (InvalidateSandbox s rc)" "rc_order (InvalidateSandbox s rc) = filter (\<lambda>x. rr_sandboxID (snd (snd x)) \<noteq> s) (rc_order rc)"
    unfolding InvalidateSandbox_def by (auto intro: filter_cong)
  then show ?thesis by (simp add: by_use_def filter_map comp_def)
qed

section \<open>Histories\<close>

datatype cache_op = CGet string | CSet string resolvedRoute | CInvalidate string | CInvalidateSandbox string

fun cache_exec :: "cache_op \<Rightarrow> routeCache \<Rightarrow> routeCache" where
  "cache_exec (CGet a) rc = snd (Get a rc)"
| "cache_exec (CSet a r) rc = Set a r rc"
| "cache_exec (CInvalidate a) rc = Invalidate a rc"
| "cache_exec (CInvalidateSandbox s) rc = InvalidateSandbox s rc"

fun use_exec :: "cache_op \<Rightarrow> (string \<times> resolvedRoute) list \<Rightarrow> (string \<times> resolvedRoute) list" where
  "use_exec (CGet a) l = snd (use_get a l)"
| "use_exec (CSet a r) l = use_set a r l"
| "use_exec (CInvalidate a) l = filter (\<lambda>x. fst x \<noteq> a) l"
| "use_exec (CInvalidateSandbox s) l = filter (\<lambda>x. rr_sandboxID (snd x) \<noteq> s) l"

lemma cache_exec_refines: "cache_ok rc \<Longrightarrow> cache_ok (cache_exec op rc) \<and> by_use (cache_exec op rc) = use_exec op (by_use rc)"
  using Get_refines [of rc] Set_refines [of rc] Invalidate_refines [of rc] InvalidateSandbox_refines [of rc]
  by (cases op) (auto simp: prod_eq_iff)

text \<open>
  C24: the map and the linked list are one cache ordered by use. After any sequence of lookups, stores and
  invalidations from an empty cache, the map points at exactly the elements of the list, no alias has two, the list is no longer than the
  bound, its order is that of the abstract cache ordered by last use, which forgets the alias not used longest, and a lookup answers what the abstract cache holds.
\<close>

theorem route_cache_refines:
  "let rc = fold cache_exec ops newRouteCache; l = fold use_exec ops [] in
     by_use rc = l \<and> distinct (map fst l) \<and> length l \<le> 10000 \<and> fst (Get a rc) = map_of l a \<and>
     (\<forall>a e. rc_entries rc a = Some e \<longleftrightarrow> (\<exists>r. (e, a, r) \<in> set (rc_order rc)))"
proof -
  have run: "cache_ok rc \<Longrightarrow> cache_ok (fold cache_exec ops rc) \<and> by_use (fold cache_exec ops rc) = fold use_exec ops (by_use rc)" for rc
    by (induction ops arbitrary: rc) (simp_all add: cache_exec_refines)
  have "cache_ok newRouteCache" "by_use newRouteCache = []" by (simp_all add: cache_ok_def newRouteCache_def by_use_def)
  with run [of newRouteCache] have ok: "cache_ok (fold cache_exec ops newRouteCache)"
    and bu: "by_use (fold cache_exec ops newRouteCache) = fold use_exec ops []" by simp_all
  have "fst (Get a (fold cache_exec ops newRouteCache)) = map_of (fold use_exec ops []) a"
    using Get_refines [OF ok, of a] by (auto simp: bu use_get_def split: option.splits)
  moreover have "length (fold use_exec ops []) \<le> 10000"
    using cache_okD(4) [OF ok] bu [THEN arg_cong, of length] by (simp add: by_use_def routeCacheMaxSize_def)
  ultimately show ?thesis using cache_okD(2) [OF ok] entries_iff [OF ok] bu by (simp add: Let_def)
qed

section \<open>What the proxy relies on\<close>

text \<open>The entries of a cache, and what each operation does to them: a store may forget others, nothing else appears.\<close>

locale route_store =
  fixes valid :: "'c \<Rightarrow> bool" and entries :: "'c \<Rightarrow> (string \<times> resolvedRoute) set" and get :: "string \<Rightarrow> 'c \<Rightarrow> resolvedRoute option \<times> 'c"
    and store :: "string \<Rightarrow> resolvedRoute \<Rightarrow> 'c \<Rightarrow> 'c" and drop_alias :: "string \<Rightarrow> 'c \<Rightarrow> 'c" and drop_sandbox :: "string \<Rightarrow> 'c \<Rightarrow> 'c"
  assumes get: "valid c \<Longrightarrow> valid (snd (get a c)) \<and> entries (snd (get a c)) = entries c \<and> (\<forall>r. fst (get a c) = Some r \<longleftrightarrow> (a, r) \<in> entries c)"
    and store: "valid c \<Longrightarrow> valid (store a r c) \<and> entries (store a r c) \<subseteq> insert (a, r) {x \<in> entries c. fst x \<noteq> a} \<and> (a, r) \<in> entries (store a r c)"
    and drop_alias: "valid c \<Longrightarrow> valid (drop_alias a c) \<and> entries (drop_alias a c) = {x \<in> entries c. fst x \<noteq> a}"
    and drop_sandbox: "valid c \<Longrightarrow> valid (drop_sandbox s c) \<and> entries (drop_sandbox s c) = {x \<in> entries c. rr_sandboxID (snd x) \<noteq> s}"
begin

text \<open>Every entry is good, or about to be dropped by alias or by sandbox.\<close>

definition covered :: "(string \<times> resolvedRoute \<Rightarrow> bool) \<Rightarrow> string set \<Rightarrow> string set \<Rightarrow> 'c \<Rightarrow> bool" where
  "covered good A S c \<longleftrightarrow> valid c \<and> (\<forall>x \<in> entries c. good x \<or> fst x \<in> A \<or> rr_sandboxID (snd x) \<in> S)"

lemma covered_get: "covered good A S c \<Longrightarrow> covered good A S (snd (get a c))"
  using get by (auto simp: covered_def)

lemma covered_store: "covered good A S c \<Longrightarrow> good (a, r) \<Longrightarrow> covered good A S (store a r c)"
  using store [of c a r] by (fastforce simp: covered_def)

lemma covered_drop_alias: "covered good (insert a A) S c \<Longrightarrow> covered good A S (drop_alias a c)"
  using drop_alias [of c a] by (auto simp: covered_def)

lemma covered_drop_sandbox: "covered good A (insert s S) c \<Longrightarrow> covered good A S (drop_sandbox s c)"
  using drop_sandbox [of c s] by (auto simp: covered_def)

lemma covered_hit: "covered good A S c \<Longrightarrow> fst (get a c) = Some r \<Longrightarrow> a \<notin> A \<Longrightarrow> rr_sandboxID r \<notin> S \<Longrightarrow> good (a, r)"
  using get [of c a] by (fastforce simp: covered_def)

lemma covered_mono:
  "covered good A S c \<Longrightarrow> (\<And>x. good x \<Longrightarrow> good' x \<or> fst x \<in> A' \<or> rr_sandboxID (snd x) \<in> S') \<Longrightarrow> A \<subseteq> A' \<Longrightarrow> S \<subseteq> S' \<Longrightarrow> covered good' A' S' c"
  unfolding covered_def by blast

end

lemma map_of_entries: "distinct (map fst l) \<Longrightarrow> map_of l a = Some r \<longleftrightarrow> (a, r) \<in> set l"
  by (rule map_of_eq_Some_iff)

interpretation rc: route_store cache_ok "\<lambda>rc. set (by_use rc)" Get Set Invalidate InvalidateSandbox
proof unfold_locales
  fix c a
  assume ok: "cache_ok c"
  note g = Get_refines [OF ok, of a] and d = cache_okD(2) [OF ok]
  show "cache_ok (snd (Get a c)) \<and> set (by_use (snd (Get a c))) = set (by_use c) \<and> (\<forall>r. fst (Get a c) = Some r \<longleftrightarrow> (a, r) \<in> set (by_use c))"
  proof (cases "map_of (by_use c) a")
    case None
    with g show ?thesis using d by (auto simp: use_get_def)
  next
    case (Some r)
    have "set ((a, r) # filter (\<lambda>x. fst x \<noteq> a) (by_use c)) = set (by_use c)"
      using Some d by (auto simp: map_of_eq_Some_iff [OF d]) (metis map_of_eq_Some_iff option.inject)
    with g Some d show ?thesis by (auto simp: use_get_def)
  qed
  fix r
  show "cache_ok (Set a r c) \<and> set (by_use (Set a r c)) \<subseteq> insert (a, r) {x \<in> set (by_use c). fst x \<noteq> a} \<and> (a, r) \<in> set (by_use (Set a r c))"
    using Set_refines [OF ok, of a r] by (auto simp: use_set_def image_iff dest: in_set_butlastD)
next
  fix c a
  assume ok: "cache_ok c"
  show "cache_ok (Invalidate a c) \<and> set (by_use (Invalidate a c)) = {x \<in> set (by_use c). fst x \<noteq> a}"
    using Invalidate_refines [OF ok, of a] by auto
next
  fix c s
  assume ok: "cache_ok c"
  show "cache_ok (InvalidateSandbox s c) \<and> set (by_use (InvalidateSandbox s c)) = {x \<in> set (by_use c). rr_sandboxID (snd x) \<noteq> s}"
    using InvalidateSandbox_refines [OF ok, of s] by auto
qed

end
