(* ===== verification/Requests.thy ===== *)
theory Requests
  imports Complex_Main Mount_Policy Sandboxes
begin

text \<open>
  The tests a request passes before a handler acts on it: names and mount points
  (\<^verbatim>\<open>src/pkg/server/routes.go\<close>), labels (\<^verbatim>\<open>src/pkg/server/labels.go\<close>), and the caps of a user on the size of a
  sandbox (\<^verbatim>\<open>src/pkg/server/sandbox_handlers.go\<close>). Number of CPUs is a float in the API and an integer in
  the cap, so the comparison is the one of Go on 64-bit floats, on their bit patterns.
\<close>

section \<open>Names and mount points\<close>

definition is_alnum :: "char \<Rightarrow> bool" where
  "is_alnum c \<longleftrightarrow> (let n = of_char c :: nat in 48 \<le> n \<and> n \<le> 57 \<or> 65 \<le> n \<and> n \<le> 90 \<or> 97 \<le> n \<and> n \<le> 122)"

text \<open>The class \<^verbatim>\<open>[a-zA-Z0-9._-]\<close>.\<close>

definition is_word :: "char \<Rightarrow> bool" where
  "is_word c \<longleftrightarrow> is_alnum c \<or> c = CHR ''.'' \<or> c = CHR ''_'' \<or> c = CHR ''-''"

text \<open>\<^verbatim>\<open>^[a-zA-Z0-9][a-zA-Z0-9._-]{0,62}$\<close>\<close>

definition isValidName :: "string \<Rightarrow> bool" where
  "isValidName name = (case name of [] \<Rightarrow> False | c # cs \<Rightarrow> is_alnum c \<and> length cs \<le> 62 \<and> list_all is_word cs)"

definition forbidden_mounts :: "string list" where
  "forbidden_mounts = [''/'', ''/proc'', ''/sys'', ''/dev'', ''/dev/pts'', ''/run'', ''/tmp'', ''/etc'', ''/bin'', ''/sbin'',
     ''/lib'', ''/lib64'', ''/usr'', ''/usr/local/bin'', ''/boot'', ''/root'']"

definition isValidMountPath :: "string \<Rightarrow> bool" where
  "isValidMountPath mount =
     (if mount = [] \<or> hd mount \<noteq> CHR ''/'' then False
      else let clean = Clean mount in \<not> contains clean ''..'' \<and> clean \<notin> set forbidden_mounts)"

section \<open>Labels\<close>

definition maxLabelsPerSandbox :: nat where "maxLabelsPerSandbox = 16"
definition maxLabelValueLen :: nat where "maxLabelValueLen = 256"
definition reservedLabelPrefix :: string where "reservedLabelPrefix = ''bhatti.sh/''"

text \<open>\<^verbatim>\<open>[a-zA-Z0-9]([a-zA-Z0-9._-]{0,61}[a-zA-Z0-9])?\<close>, and the key: one such segment, or two joined by a slash.\<close>

definition label_segment :: "string \<Rightarrow> bool" where
  "label_segment s \<longleftrightarrow> s \<noteq> [] \<and> is_alnum (hd s) \<and> is_alnum (last s) \<and> length s \<le> 63 \<and> list_all is_word s"

definition labelKeyRe :: "string \<Rightarrow> bool" where
  "labelKeyRe key =
     (case split_on CHR ''/'' key of
        [k] \<Rightarrow> label_segment k
      | [p, k] \<Rightarrow> label_segment p \<and> label_segment k
      | _ \<Rightarrow> False)"

definition labelValueRe :: "string \<Rightarrow> bool" where
  "labelValueRe v \<longleftrightarrow> v \<noteq> [] \<and> list_all is_word v"

datatype label_error =
    InvalidKey string
  | ReservedPrefix string
  | ValueTooLong string nat
  | InvalidValue string string
  | TooManyLabels nat
  | NotKeyValue string
  | EmptyKey string

definition validateLabel :: "string \<Rightarrow> string \<Rightarrow> label_error option" where
  "validateLabel key v =
     (if \<not> labelKeyRe key then Some (InvalidKey key)
      else if has_prefix key reservedLabelPrefix then Some (ReservedPrefix key)
      else if length v > maxLabelValueLen then Some (ValueTooLong key (length v))
      else if v \<noteq> [] \<and> \<not> labelValueRe v then Some (InvalidValue v key)
      else None)"

text \<open>The first error of a list of checks. A Go map has no order; the order here is the list's.\<close>

fun first_error :: "('a \<Rightarrow> 'e option) \<Rightarrow> 'a list \<Rightarrow> 'e option" where
  "first_error f [] = None"
| "first_error f (x # xs) = (case f x of Some e \<Rightarrow> Some e | None \<Rightarrow> first_error f xs)"

lemma first_error_None [simp]: "first_error f xs = None \<longleftrightarrow> (\<forall>x \<in> set xs. f x = None)"
  by (induction xs) (auto split: option.splits)

definition validateLabels :: "(string \<times> string) list \<Rightarrow> label_error option" where
  "validateLabels labels =
     (if length labels > maxLabelsPerSandbox then Some (TooManyLabels (length labels))
      else first_error (\<lambda>(k, v). validateLabel k v) labels)"

definition validateLabelKeys :: "string list \<Rightarrow> label_error option" where
  "validateLabelKeys keys =
     (if length keys > maxLabelsPerSandbox then Some (TooManyLabels (length keys))
      else first_error (\<lambda>k. if \<not> labelKeyRe k then Some (InvalidKey k)
        else if has_prefix k reservedLabelPrefix then Some (ReservedPrefix k) else None) keys)"

definition parse_label_filter :: "string \<Rightarrow> label_error + (string \<times> string)" where
  "parse_label_filter raw =
     (case index_of raw ''='' of
        None \<Rightarrow> Inl (NotKeyValue raw)
      | Some eq \<Rightarrow>
          (let key = take eq raw in
           if key = [] then Inl (EmptyKey raw)
           else if has_prefix key reservedLabelPrefix then Inl (ReservedPrefix key)
           else Inr (key, drop (eq + 1) raw)))"

text \<open>A later value of a key replaces an earlier one.\<close>

definition parseLabelQueryParams :: "string list \<Rightarrow> label_error + (string \<times> string) list" where
  "parseLabelQueryParams raws =
     res_bind (map_res parse_label_filter raws) (\<lambda>kvs. Inr (fold (\<lambda>(k, v) m. AList.update k v m) kvs []))"

section \<open>Floats and integers\<close>

text \<open>
  A finite float is \<open>m * 2 ^ e\<close>: the sign bit, eleven bits of exponent with bias 1023 and 52 bits of
  fraction, without the leading one when the exponent bits are zero. Comparison with an integer is
  exact; \<open>float64(n)\<close> of a Go integer rounds to 53 bits, ties to even, which \<open>round53\<close> does.
\<close>

definition f64_neg :: "float64 \<Rightarrow> bool" where "f64_neg x = bit x 63"
definition f64_exp :: "float64 \<Rightarrow> nat" where "f64_exp x = unat (take_bit 11 (drop_bit 52 x))"
definition f64_frac :: "float64 \<Rightarrow> int" where "f64_frac x = uint (take_bit 52 x)"

definition f64_mant :: "float64 \<Rightarrow> int" where
  "f64_mant x = (let m = (if f64_exp x = 0 then f64_frac x else f64_frac x + 2 ^ 52) in if f64_neg x then - m else m)"

text \<open>The exponent of the last bit, and the comparison \<open>m * 2 ^ e > n\<close> without fractions.\<close>

definition f64_scale :: "float64 \<Rightarrow> int" where
  "f64_scale x = (if f64_exp x = 0 then - 1074 else int (f64_exp x) - 1075)"

definition f64_gt_int :: "float64 \<Rightarrow> int \<Rightarrow> bool" where
  "f64_gt_int x n =
     (if f64_exp x = 2047 then f64_frac x = 0 \<and> \<not> f64_neg x
      else if f64_scale x \<ge> 0 then f64_mant x * 2 ^ nat (f64_scale x) > n
      else f64_mant x > n * 2 ^ nat (- f64_scale x))"

definition f64_is_zero :: "float64 \<Rightarrow> bool" where
  "f64_is_zero x \<longleftrightarrow> x = 0 \<or> x = push_bit 63 1"

fun bit_len :: "nat \<Rightarrow> nat" where
  "bit_len n = (if n = 0 then 0 else Suc (bit_len (n div 2)))"

declare bit_len.simps [simp del]

definition round53 :: "int \<Rightarrow> int" where
  "round53 n =
     (let a = \<bar>n\<bar>; k = bit_len (nat a) - 53; q = a div 2 ^ k; r = a mod 2 ^ k;
          q' = (if 2 * r > 2 ^ k \<or> 2 * r = 2 ^ k \<and> odd q then q + 1 else q) in
      (if n < 0 then - 1 else 1) * q' * 2 ^ k)"

section \<open>Caps\<close>

text \<open>\<open>None\<close> when the size is allowed, or the status of the refusal.\<close>

definition checkSandboxSize :: "User \<Rightarrow> float64 \<Rightarrow> int \<Rightarrow> nat option" where
  "checkSandboxSize user cpus memoryMB =
     (if f64_gt_int cpus (round53 (u_MaxCPUsPerSandbox user)) then Some 400
      else if memoryMB > u_MaxMemoryMBPerSandbox user then Some 400
      else None)"

definition checkSandboxQuota :: "User \<Rightarrow> db \<Rightarrow> nat option" where
  "checkSandboxQuota user d = (if int (CountUserSandboxes (u_ID user) d) \<ge> u_MaxSandboxes user then Some 429 else None)"

section \<open>What the tests ensure\<close>

text \<open>
  A float above an integer is above it as a number, whatever the exponent: \<open>f64_val\<close> is the real a pattern stands for.
\<close>

definition f64_val :: "float64 \<Rightarrow> real" where
  "f64_val x = of_int (f64_mant x) * 2 powr of_int (f64_scale x)"

lemma f64_gt_int_val:
  assumes "f64_exp x \<noteq> 2047"
  shows "f64_gt_int x n \<longleftrightarrow> f64_val x > of_int n"
proof (cases "f64_scale x \<ge> 0")
  case True
  then obtain k where k: "f64_scale x = int k" using that [of "nat (f64_scale x)"] by simp
  have "f64_val x = of_int (f64_mant x * 2 ^ k)" by (simp add: f64_val_def k powr_realpow)
  then have "f64_val x > of_int n \<longleftrightarrow> f64_mant x * 2 ^ k > n" by (simp only: of_int_less_iff)
  then show ?thesis using assms by (simp add: f64_gt_int_def k)
next
  case False
  then obtain k where k: "f64_scale x = - int k" using that [of "nat (- f64_scale x)"] by simp
  have "f64_val x = of_int (f64_mant x) / 2 ^ k" by (simp add: f64_val_def k powr_minus powr_realpow divide_simps)
  then have "f64_val x > of_int n \<longleftrightarrow> (of_int n * 2 ^ k :: real) < of_int (f64_mant x)" by (simp add: pos_less_divide_eq)
  also have "\<dots> \<longleftrightarrow> of_int (n * 2 ^ k) < (of_int (f64_mant x) :: real)" by simp
  also have "\<dots> \<longleftrightarrow> n * 2 ^ k < f64_mant x" by (simp only: of_int_less_iff)
  finally show ?thesis using assms False k by (simp add: f64_gt_int_def)
qed

lemma round53_small: "\<bar>n\<bar> < 2 ^ 53 \<Longrightarrow> round53 n = n"
proof -
  assume "\<bar>n\<bar> < 2 ^ 53"
  have len: "a < 2 ^ k \<Longrightarrow> bit_len a \<le> k" for a k
  proof (induction k arbitrary: a)
    case (Suc k)
    then show ?case by (subst bit_len.simps) (auto simp: less_mult_imp_div_less mult.commute)
  qed (simp add: bit_len.simps)
  have "nat \<bar>n\<bar> < 2 ^ 53" using \<open>\<bar>n\<bar> < 2 ^ 53\<close> by (simp add: nat_less_iff)
  from len [OF this] show ?thesis by (simp add: round53_def Let_def abs_if)
qed

end
