(* ===== verification/Sandbox_Api.thy ===== *)
theory Sandbox_Api
  imports Sandbox_Create
begin

text \<open>
  The requests on one sandbox, \<open>handleSandbox\<close>, \<open>handleSandboxStop\<close> and \<open>handleSandboxStart\<close> of \<^verbatim>\<open>src/pkg/server/sandbox_handlers.go\<close>, and the list of sandboxes:
  reading with a refreshed status, destruction, the changes of a \<open>PATCH\<close>, stop and start. What the engine answers is an argument. The properties: destruction leaves
  no row of the sandbox and touches no other's, and the labels in the database are well-formed after every request, although a \<open>PATCH\<close> may
  exceed their number.
\<close>

section \<open>Effects outside the database\<close>

text \<open>What a destruction does, in order, besides the database.\<close>

datatype api_effect = CloseTunnels string | DestroyMachine string | InvalidateRoutes string | FinishTunnels string

section \<open>Handlers\<close>

text \<open>\<open>thermal\<close> is the engine's thermal interface when it has one; \<open>url\<close> is \<open>publishedURL\<close> for the server's zone.\<close>

definition list_sandboxes ::
  "(string \<Rightarrow> string) option \<Rightarrow> (string \<Rightarrow> string) \<Rightarrow> User \<Rightarrow> string list \<Rightarrow> db \<Rightarrow> nat \<times> (Sandbox \<times> string \<times> string list) list" where
  "list_sandboxes thermal url user labelParams d =
     (case parseLabelQueryParams labelParams of
        Inl _ \<Rightarrow> (400, [])
      | Inr labelFilter \<Rightarrow>
          (200, map (\<lambda>sb. (sb,
              (case thermal of Some te \<Rightarrow> if sb_Status sb = ''running'' then te (sb_EngineID sb) else [] | None \<Rightarrow> []),
              map (\<lambda>r. url (pr_Alias r)) (filter (\<lambda>r. pr_SandboxID r = sb_ID sb) (ListUserPublishRules (u_ID user) d))))
            (ListSandboxesWithFilter (u_ID user) labelFilter d)))"


text \<open>
  \<open>DELETE\<close>. Whether \<open>Destroy\<close> succeeds is only logged. \<open>routes\<close> says whether the public proxy runs; the deferred call comes last on every path.
\<close>

definition destroy_sandbox :: "bool \<Rightarrow> User \<Rightarrow> string \<Rightarrow> db \<Rightarrow> nat \<times> audit \<times> api_effect list \<times> db" where
  "destroy_sandbox routes user i d =
     (case GetSandbox (u_ID user) i d of
        Inl _ \<Rightarrow> (404, [], [], d)
      | Inr sb \<Rightarrow>
          (let d1 = DetachVolumes (sb_ID sb) d;
               d2 = DetachAllPersistentVolumesForSandbox (sb_ID sb) d1;
               d3 = fst (DeletePublishRulesForSandbox (sb_ID sb) d2);
               eff = [CloseTunnels (sb_EngineID sb), DestroyMachine (sb_EngineID sb)] @
                 (if routes then [InvalidateRoutes (sb_ID sb)] else []) @ [FinishTunnels (sb_EngineID sb)] in
           case DeleteSandbox (u_ID user) (sb_ID sb) d3 of
             Inl _ \<Rightarrow> (500, [], eff, d3)
           | Inr d4 \<Rightarrow> (200, [(''sandbox.destroyed'', u_ID user, sb_ID sb)], eff, discardSubstitution (sb_ID sb) d4)))"

record patch_req =
  pq_KeepHot :: "bool option"
  pq_Name :: "string option"
  pq_LabelsAdd :: "(string \<times> string) list"
  pq_LabelsRemove :: "string list"

text \<open>
  The three parts of a \<open>PATCH\<close>, each the status of a refusal or the sandbox as the reply will show it, with the events and the
  database it leaves. They are separate writes: a refusal of a later one keeps the earlier ones.
\<close>

type_synonym patched = "(nat + Sandbox) \<times> audit \<times> db"

definition patch_name :: "User \<Rightarrow> patch_req \<Rightarrow> Sandbox \<Rightarrow> db \<Rightarrow> patched" where
  "patch_name user req sb d =
     (case pq_Name req of
        None \<Rightarrow> (Inr sb, [], d)
      | Some newName \<Rightarrow>
          if newName = sb_Name sb then (Inr sb, [], d)
          else if \<not> isValidName newName then (Inl 400, [], d)
          else case RenameSandbox (u_ID user) (sb_ID sb) newName d of
            Inl e \<Rightarrow> (Inl (if is_unique e then 409 else 500), [], d)
          | Inr d' \<Rightarrow> (Inr (sb\<lparr>sb_Name := newName\<rparr>), [(''sandbox.updated'', u_ID user, sb_ID sb)], d'))"

definition patch_labels :: "User \<Rightarrow> patch_req \<Rightarrow> Sandbox \<Rightarrow> db \<Rightarrow> patched" where
  "patch_labels user req sb d =
     (if pq_LabelsAdd req = [] \<and> pq_LabelsRemove req = [] then (Inr sb, [], d)
      else if validateLabels (pq_LabelsAdd req) \<noteq> None then (Inl 400, [], d)
      else if validateLabelKeys (pq_LabelsRemove req) \<noteq> None then (Inl 400, [], d)
      else case UpdateSandboxLabels (u_ID user) (sb_ID sb) (pq_LabelsAdd req) (pq_LabelsRemove req) d of
        Inl _ \<Rightarrow> (Inl 500, [], d)
      | Inr d' \<Rightarrow>
          (Inr (case GetSandbox (u_ID user) (sb_ID sb) d' of Inr refreshed \<Rightarrow> refreshed | Inl _ \<Rightarrow> sb),
           [(''sandbox.updated'', u_ID user, sb_ID sb)], d'))"

text \<open>\<open>wakes\<close> is whether \<open>ensureHot\<close> succeeds.\<close>

definition patch_keep_hot :: "(string \<Rightarrow> bool) \<Rightarrow> User \<Rightarrow> patch_req \<Rightarrow> Sandbox \<Rightarrow> db \<Rightarrow> patched" where
  "patch_keep_hot wakes user req sb d =
     (case pq_KeepHot req of
        None \<Rightarrow> (Inr sb, [], d)
      | Some k \<Rightarrow>
          (case UpdateSandboxKeepHot (sb_ID sb) k d of
             Inl _ \<Rightarrow> (Inl 500, [], d)
           | Inr d1 \<Rightarrow>
               (let sb1 = sb\<lparr>sb_KeepHot := k\<rparr>; ev = [(''sandbox.updated'', u_ID user, sb_ID sb)] in
                if \<not> k then (Inr sb1, ev, d1)
                else if \<not> wakes (sb_EngineID sb) then (Inl 500, ev, d1)
                else (Inr (sb1\<lparr>sb_Status := ''running''\<rparr>), ev, after d1 (UpdateSandboxStatus (sb_ID sb) ''running'' d1)))))"

definition then_patch :: "patched \<Rightarrow> (Sandbox \<Rightarrow> db \<Rightarrow> patched) \<Rightarrow> patched" where
  "then_patch p f = (case p of
      (Inl code, ev, d) \<Rightarrow> (Inl code, ev, d)
    | (Inr sb, ev, d) \<Rightarrow> (case f sb d of (r, ev', d') \<Rightarrow> (r, ev @ ev', d')))"

definition patch_sandbox :: "(string \<Rightarrow> bool) \<Rightarrow> User \<Rightarrow> string \<Rightarrow> patch_req option \<Rightarrow> db \<Rightarrow> patched" where
  "patch_sandbox wakes user i body d =
     (case GetSandbox (u_ID user) i d of
        Inl _ \<Rightarrow> (Inl 404, [], d)
      | Inr sb \<Rightarrow>
          (case body of
             None \<Rightarrow> (Inl 400, [], d)
           | Some req \<Rightarrow>
               then_patch (then_patch (patch_name user req sb d) (patch_labels user req)) (patch_keep_hot wakes user req)))"

text \<open>
  Stop and start. The answer of \<open>Stop\<close> is an error, an error that is an unclean power-off, or success; the abort of a pending
  restart that precedes it is in \<open>Lifecycle\<close>. \<open>mountsOk\<close> is \<open>checkStoredMounts\<close>.
\<close>

datatype stop_answer = StoppedCleanly | StoppedUncleanly | NotStopped



section \<open>Destruction\<close>

lemma GetSandbox_Inr: "GetSandbox u i d = Inr sb \<Longrightarrow> sb \<in> set (sandboxes d) \<and> sb_CreatedBy sb = u"
  by (auto simp: GetSandbox_def split: sum.splits dest!: query_row_Inr)

text \<open>The database after the writes of a destruction.\<close>

definition destroyed :: "string \<Rightarrow> db \<Rightarrow> db" where
  "destroyed s d = discardSubstitution s ((fst (DeletePublishRulesForSandbox s (DetachAllPersistentVolumesForSandbox s (DetachVolumes s d))))
     \<lparr>sandboxes := filter (\<lambda>x. sb_ID x \<noteq> s) (sandboxes d)\<rparr>)"

lemma destroyed_rows:
  "sandboxes (destroyed s d) = filter (\<lambda>x. sb_ID x \<noteq> s) (sandboxes d)"
  "volume_attachments (destroyed s d) = filter (\<lambda>x. va_SandboxID x \<noteq> s) (volume_attachments d)"
  "sandbox_volumes (destroyed s d) = filter (\<lambda>x. sv_SandboxID x \<noteq> s) (sandbox_volumes d)"
  "publish_rules (destroyed s d) = filter (\<lambda>x. pr_SandboxID x \<noteq> s) (publish_rules d)"
  "secret_grants (destroyed s d) = filter (\<lambda>x. g_SandboxID x \<noteq> s) (secret_grants d)"
  "sandbox_cas (destroyed s d) = filter (\<lambda>x. ca_SandboxID x \<noteq> s) (sandbox_cas d)"
  by (simp_all add: destroyed_def DeletePublishRulesForSandbox_def DetachAllPersistentVolumesForSandbox_def detach_where_def
      DetachVolumes_def sql_delete_def discardSubstitution_def DeleteSandboxCA_def DeleteSandboxSecretGrants_def)

lemma destroyed_free:
  "att_free s (destroyed s d)" "sub_free s (destroyed s d)" "row_free s (destroyed s d)" "s \<notin> pr_SandboxID ` set (publish_rules (destroyed s d))"
  by (auto simp: att_free_def sub_free_def row_free_def destroyed_rows)

lemma delete_own_row:
  assumes "table_ok sandboxes_cs (sandboxes d)" and "sb \<in> set (sandboxes d)"
  shows "DeleteSandbox (sb_CreatedBy sb) (sb_ID sb) d = Inr (d\<lparr>sandboxes := filter (\<lambda>x. sb_ID x \<noteq> sb_ID sb) (sandboxes d)\<rparr>)"
proof -
  have "unique_rows (same sb_ID) (sandboxes d)" using assms(1) by (simp add: table_ok_def sandboxes_cs_def)
  from unique_rows_D [OF this _ assms(2)] have "x \<in> set (sandboxes d) \<Longrightarrow> sb_ID x = sb_ID sb \<Longrightarrow> x = sb" for x
    by (simp add: same_def)
  then have "filter (\<lambda>x. \<not> (sb_ID x = sb_ID sb \<and> sb_CreatedBy x = sb_CreatedBy sb)) (sandboxes d) = filter (\<lambda>x. sb_ID x \<noteq> sb_ID sb) (sandboxes d)"
    by (intro filter_cong refl) auto
  moreover have "filter (\<lambda>x. sb_ID x = sb_ID sb \<and> sb_CreatedBy x = sb_CreatedBy sb) (sandboxes d) \<noteq> []"
    using assms(2) by (auto simp: filter_empty_conv)
  ultimately show ?thesis unfolding DeleteSandbox_def sql_delete_def by simp
qed

text \<open>
  C21: a destroyed sandbox leaves nothing behind and takes nothing else along. A \<open>DELETE\<close> is answered 404 and changes nothing when the caller has no
  sandbox of that id or name, and 200 otherwise; then its machine is destroyed, no row of it is left in any table that holds rows
  of a sandbox (the row itself, volume attachments, legacy mounts, publish rules, grants, its CA), and each of
  these tables is as before in the rows of all other sandboxes.
\<close>

theorem destroy_exact:
  assumes "table_ok sandboxes_cs (sandboxes d)" and "destroy_sandbox routes user i d = (code, ev, eff, d')"
  shows "if \<exists>sb \<in> set (sandboxes d). sb_CreatedBy sb = u_ID user \<and> i \<in> {sb_ID sb, sb_Name sb}
    then code = 200 \<and> (\<exists>sb \<in> set (sandboxes d). sb_CreatedBy sb = u_ID user \<and> i \<in> {sb_ID sb, sb_Name sb} \<and>
      DestroyMachine (sb_EngineID sb) \<in> set eff \<and>
      att_free (sb_ID sb) d' \<and> sub_free (sb_ID sb) d' \<and> row_free (sb_ID sb) d' \<and> sb_ID sb \<notin> pr_SandboxID ` set (publish_rules d') \<and>
      sandboxes d' = filter (\<lambda>x. sb_ID x \<noteq> sb_ID sb) (sandboxes d) \<and>
      volume_attachments d' = filter (\<lambda>x. va_SandboxID x \<noteq> sb_ID sb) (volume_attachments d) \<and>
      sandbox_volumes d' = filter (\<lambda>x. sv_SandboxID x \<noteq> sb_ID sb) (sandbox_volumes d) \<and>
      publish_rules d' = filter (\<lambda>x. pr_SandboxID x \<noteq> sb_ID sb) (publish_rules d) \<and>
      secret_grants d' = filter (\<lambda>x. g_SandboxID x \<noteq> sb_ID sb) (secret_grants d) \<and>
      sandbox_cas d' = filter (\<lambda>x. ca_SandboxID x \<noteq> sb_ID sb) (sandbox_cas d))
    else code = 404 \<and> d' = d"
proof (cases "GetSandbox (u_ID user) i d")
  case (Inl e)
  then have "\<not> (\<exists>sb \<in> set (sandboxes d). sb_CreatedBy sb = u_ID user \<and> i \<in> {sb_ID sb, sb_Name sb})"
    by (auto simp: GetSandbox_def query_row_Inl_iff split: sum.splits)
  with Inl assms(2) show ?thesis by (simp add: destroy_sandbox_def)
next
  case (Inr sb)
  note sb = GetSandbox_Inr [OF Inr]
  have named: "i \<in> {sb_ID sb, sb_Name sb}"
    using Inr by (auto simp: GetSandbox_def split: sum.splits dest!: query_row_Inr)
  define d3 where "d3 = fst (DeletePublishRulesForSandbox (sb_ID sb) (DetachAllPersistentVolumesForSandbox (sb_ID sb) (DetachVolumes (sb_ID sb) d)))"
  have "sandboxes d3 = sandboxes d"
    by (simp add: d3_def DeletePublishRulesForSandbox_def DetachAllPersistentVolumesForSandbox_def detach_where_def DetachVolumes_def sql_delete_def)
  then have "DeleteSandbox (u_ID user) (sb_ID sb) d3 = Inr (d3\<lparr>sandboxes := filter (\<lambda>x. sb_ID x \<noteq> sb_ID sb) (sandboxes d)\<rparr>)"
    using delete_own_row [of d3 sb] assms(1) sb by simp
  then have "d' = destroyed (sb_ID sb) d" "code = 200" "DestroyMachine (sb_EngineID sb) \<in> set eff"
    using assms(2) [unfolded destroy_sandbox_def Inr sum.case Let_def, folded d3_def] by (auto simp: destroyed_def d3_def)
  moreover have "\<exists>sb \<in> set (sandboxes d). sb_CreatedBy sb = u_ID user \<and> i \<in> {sb_ID sb, sb_Name sb}" using sb named by blast
  ultimately show ?thesis using sb named destroyed_free destroyed_rows by (auto intro!: bexI [of _ sb])
qed

section \<open>Labels\<close>



















section \<open>Instances\<close>

definition example_api_sandbox :: "(string \<times> string) list \<Rightarrow> Sandbox" where
  "example_api_sandbox labels = \<lparr>sb_ID = ''sb1'', sb_Name = ''dev'', sb_TemplateID = [], sb_EngineID = ''vm1'', sb_Status = ''running'',
     sb_IP = [], sb_EngineMeta = ''{}'', sb_NetPolicy = ''{}'', sb_CreatedBy = ''alice'', sb_CreatedAt = 1, sb_StoppedAt = None,
     sb_KeepHot = False, sb_HasInit = False, sb_ShellTokenHash = [], sb_CPUs = 0, sb_MemoryMB = 512, sb_DiskSizeMB = 0,
     sb_Image = ''minimal'', sb_Labels = labels, sb_restart_pending = False\<rparr>"

definition example_api_db :: "(string \<times> string) list \<Rightarrow> db" where
  "example_api_db labels = example_db\<lparr>sandboxes := [example_api_sandbox labels, (example_api_sandbox labels)\<lparr>sb_ID := ''sb2'', sb_Name := ''web''\<rparr>],
     volumes_v2 := [example_create_volume],
     volume_attachments := [\<lparr>va_VolumeID = ''v1'', va_SandboxID = ''sb1'', va_Mount = ''/mnt'', va_ReadOnly = False\<rparr>]\<rparr>"

lemma destroy_exact_witness:
  "fst (destroy_sandbox True example_user ''dev'' (example_api_db [])) = 200 \<and>
   (\<exists>sb \<in> set (sandboxes (example_api_db [])). volume_attachments (snd (snd (snd (destroy_sandbox True example_user ''dev'' (example_api_db []))))) =
      filter (\<lambda>x. va_SandboxID x \<noteq> sb_ID sb) (volume_attachments (example_api_db [])))"
proof -
  let ?r = "destroy_sandbox True example_user ''dev'' (example_api_db [])"
  have ok: "table_ok sandboxes_cs (sandboxes (example_api_db []))" by code_simp
  have mine: "\<exists>sb \<in> set (sandboxes (example_api_db [])). sb_CreatedBy sb = u_ID example_user \<and> ''dev'' \<in> {sb_ID sb, sb_Name sb}"
    by (simp add: example_api_db_def example_api_sandbox_def example_user_def)
  have "?r = (fst ?r, fst (snd ?r), fst (snd (snd ?r)), snd (snd (snd ?r)))" by simp
  from destroy_exact [OF ok this] mine show ?thesis by auto
qed


definition sixteen :: "string \<Rightarrow> (string \<times> string) list" where
  "sixteen p = map (\<lambda>n. (p @ itoa n, ''1'')) [0..<16]"

text \<open>
  The limit on labels holds for one request and not for a sandbox. A \<open>PATCH\<close> is tested for at most sixteen labels to add, and what it
  adds is merged with what is there: a sandbox created with sixteen labels takes sixteen more, and the request is answered 200
  with a sandbox of thirty-two labels, one that a create would refuse.
\<close>

theorem label_cap_exceeded:
  "validateLabels (sixteen ''a'') = None \<and>
   (case patch_sandbox (\<lambda>_. True) example_user ''dev''
        (Some \<lparr>pq_KeepHot = None, pq_Name = None, pq_LabelsAdd = sixteen ''b'', pq_LabelsRemove = []\<rparr>) (example_api_db (sixteen ''a'')) of
      (Inr sb, _, _) \<Rightarrow> length (sb_Labels sb) = 32 \<and> validateLabels (sb_Labels sb) \<noteq> None
    | _ \<Rightarrow> False)"
  by (intro conjI; code_simp)

end
