(* ===== verification/Publishing.thy ===== *)
theory Publishing
  imports Route_Cache Sandbox_Api
begin

text \<open>
  Public aliases of sandbox ports: their names, the requests that publish and unpublish a port
  (\<^verbatim>\<open>src/pkg/server/publish_handlers.go\<close>), the routing of a public request to a sandbox by path or host and through the route cache
  (\<^verbatim>\<open>src/pkg/server/public_proxy.go\<close>, \<^verbatim>\<open>src/pkg/server/server.go\<close>). The properties: what a publication leaves in the table; that the route of a cached alias is
  the one of the table as long as no lookup overlaps a removal, by the contract \<open>route_store\<close> of the cache; and the run in which one does.
\<close>

section \<open>Aliases\<close>

text \<open>\<^verbatim>\<open>^[a-z0-9][a-z0-9-]{0,62}$\<close>\<close>

definition is_alias_start :: "char \<Rightarrow> bool" where
  "is_alias_start c \<longleftrightarrow> (let n = of_char c :: nat in 48 \<le> n \<and> n \<le> 57 \<or> 97 \<le> n \<and> n \<le> 122)"

definition is_alias_char :: "char \<Rightarrow> bool" where
  "is_alias_char c \<longleftrightarrow> is_alias_start c \<or> c = CHR ''-''"

definition aliasRegex :: "string \<Rightarrow> bool" where
  "aliasRegex alias = (case alias of [] \<Rightarrow> False | c # cs \<Rightarrow> is_alias_start c \<and> length cs \<le> 62 \<and> list_all is_alias_char cs)"

definition reservedAliases :: "string list" where
  "reservedAliases = [''www'', ''mail'', ''admin'', ''status'', ''ns1'', ''ns2'', ''api'', ''app'', ''_acme-challenge'']"

datatype alias_error = BadAlias | ReservedAlias

definition validateAlias :: "string \<Rightarrow> alias_error option" where
  "validateAlias alias =
     (if \<not> aliasRegex alias then Some BadAlias
      else if alias \<in> set reservedAliases then Some ReservedAlias
      else None)"

text \<open>The four random bytes are an argument.\<close>

definition trim_dashes :: "string \<Rightarrow> string" where
  "trim_dashes s = rev (dropWhile (\<lambda>c. c = CHR ''-'') (rev (dropWhile (\<lambda>c. c = CHR ''-'') s)))"

definition generateAlias :: "bytes \<Rightarrow> string \<Rightarrow> string" where
  "generateAlias rnd sandboxName =
     (let trimmed = trim_dashes (map (\<lambda>c. if is_alias_char c then c else CHR ''-'') (to_lower sandboxName));
          base = (if trimmed = [] then ''sandbox'' else trimmed);
          suffix = take 6 (hex_encode rnd);
          alias = base @ ''-'' @ suffix in
      if length alias > 63 then take (63 - 7) base @ ''-'' @ suffix else alias)"

fun first_free_alias :: "bytes list \<Rightarrow> string \<Rightarrow> db \<Rightarrow> string option" where
  "first_free_alias [] name d = None"
| "first_free_alias (rnd # rnds) name d =
     (case GetPublishRuleByAlias (generateAlias rnd name) d of
        Inl _ \<Rightarrow> Some (generateAlias rnd name)
      | Inr _ \<Rightarrow> first_free_alias rnds name d)"


definition publishedURL :: "string \<Rightarrow> string \<Rightarrow> string \<Rightarrow> string" where
  "publishedURL alias proxyZone publicProxyAddr =
     (if proxyZone \<noteq> [] then ''https://'' @ alias @ ''.'' @ proxyZone
      else if publicProxyAddr \<noteq> [] then ''http://'' @ publicProxyAddr @ ''/'' @ alias @ ''/''
      else ''(no public proxy configured) alias: '' @ alias)"

section \<open>The requests\<close>

datatype publish_call = Publish | ListRules | Unpublish int

text \<open>\<open>handleSandboxPublish\<close>: the request a method and the rest of the path ask for, or the code of the refusal.\<close>

definition handleSandboxPublish :: "string \<Rightarrow> string \<Rightarrow> nat + publish_call" where
  "handleSandboxPublish meth sub =
     (if meth = ''POST'' then if sub \<noteq> [] \<and> sub \<noteq> ''/'' then Inl 404 else Inr Publish
      else if meth = ''GET'' then if sub \<noteq> [] \<and> sub \<noteq> ''/'' then Inl 404 else Inr ListRules
      else if meth = ''DELETE'' then
        (case Atoi (trim_prefix sub ''/'') of
           None \<Rightarrow> Inl 400
         | Some port \<Rightarrow> if port < 1 \<or> port > 65535 then Inl 400 else Inr (Unpublish port))
      else Inl 405)"

text \<open>
  The server's configuration, whether its engine has thermal states, the next id, the random draws and the time. \<open>zero_time\<close> is the zero value of Go's
  \<open>time.Time\<close>, the first instant of year 1.
\<close>

record publish_env =
  pe_zone :: string
  pe_addr :: string
  pe_thermal :: bool
  pe_genID :: string
  pe_draw :: "nat \<Rightarrow> bytes"
  pe_now :: time








definition handleListPublishRules :: "publish_env \<Rightarrow> User \<Rightarrow> string \<Rightarrow> db \<Rightarrow> nat \<times> (PublishRule \<times> string) list" where
  "handleListPublishRules env user i d =
     (case GetSandbox (u_ID user) i d of
        Inl _ \<Rightarrow> (404, [])
      | Inr sb \<Rightarrow> (200, map (\<lambda>r. (r, publishedURL (pr_Alias r) (pe_zone env) (pe_addr env))) (ListPublishRules (sb_ID sb) d)))"

text \<open>The alias an unpublication drops from the cache: of the first rule listed for the port.\<close>

definition listed_alias :: "int \<Rightarrow> PublishRule list \<Rightarrow> string option" where
  "listed_alias port rules = map_option pr_Alias (find (\<lambda>r. pr_Port r = port) rules)"

definition handleUnpublish :: "User \<Rightarrow> string \<Rightarrow> int \<Rightarrow> db \<Rightarrow> routeCache option \<Rightarrow> nat \<times> audit \<times> routeCache option \<times> db" where
  "handleUnpublish user i port d proxy =
     (case GetSandbox (u_ID user) i d of
        Inl _ \<Rightarrow> (404, [], proxy, d)
      | Inr sb \<Rightarrow>
          (case DeletePublishRule (u_ID user) (sb_ID sb) port d of
             Inl _ \<Rightarrow> (404, [], proxy, d)
           | Inr d' \<Rightarrow>
               (case listed_alias port (ListPublishRules (sb_ID sb) d) of
                  None \<Rightarrow> (204, [], proxy, d')
                | Some a \<Rightarrow> (204, [(''publish.deleted'', u_ID user, sb_ID sb)], map_option (Invalidate a) proxy, d'))))"

section \<open>Routing of a public request\<close>

text \<open>\<open>ServeHTTPPathBased\<close>: the alias and the path behind it; \<open>None\<close> is the answer 404.\<close>

definition ServeHTTPPathBased :: "string \<Rightarrow> (string \<times> string) option" where
  "ServeHTTPPathBased urlPath =
     (let path = trim_prefix urlPath ''/'' in
      if path = [] then None
      else case index_of ''/'' path of
        Some idx \<Rightarrow> Some (take idx path, drop idx path)
      | None \<Rightarrow> Some (path, ''/''))"

text \<open>The first part of \<open>ServeHTTP\<close>: where a request goes by its host, before any authentication.\<close>

datatype host_route = ToApi | ToAlias string | ProxyOff | UnknownHost

definition server_stripPort :: "string \<Rightarrow> string" where
  "server_stripPort host = (case SplitHostPort host of Some (h, _) \<Rightarrow> h | None \<Rightarrow> host)"

definition route_host :: "string \<Rightarrow> string \<Rightarrow> bool \<Rightarrow> bool \<Rightarrow> string \<Rightarrow> host_route" where
  "route_host proxyZone apiHost proxyOn viaUnixSocket hostHeader =
     (if proxyZone \<noteq> [] \<and> \<not> viaUnixSocket then
        (let host = server_stripPort hostHeader in
         if host = apiHost \<or> host = ''localhost'' \<or> host = ''127.0.0.1'' then ToApi
         else if has_suffix host (''.'' @ proxyZone) then
           if proxyOn then ToAlias (trim_suffix host (''.'' @ proxyZone)) else ProxyOff
         else UnknownHost)
      else ToApi)"

text \<open>Whether a certificate may be issued for a host, and the cache, which a hit reorders.\<close>

definition HostPolicy :: "string \<Rightarrow> string \<Rightarrow> string \<Rightarrow> db \<Rightarrow> routeCache option \<Rightarrow> bool \<times> routeCache option" where
  "HostPolicy proxyZone apiHost host d proxy =
     (if host = apiHost then (True, proxy)
      else if proxyZone \<noteq> [] \<and> has_suffix host (''.'' @ proxyZone) then
        (let alias = trim_suffix host (''.'' @ proxyZone);
             known = is_ok (GetPublishRuleByAlias alias d) in
         case proxy of
           None \<Rightarrow> (known, None)
         | Some rc \<Rightarrow> (case Get alias rc of (hit, rc') \<Rightarrow> (if hit \<noteq> None then True else known, Some rc')))
      else (False, proxy))"

text \<open>
  The resolution of an alias in \<open>proxyToAlias\<close>, in its parts: the rule, the sandbox of the rule, and the store in the cache. \<open>None\<close> is the answer 404.
\<close>

definition route_of_rule :: "PublishRule \<Rightarrow> db \<Rightarrow> resolvedRoute option" where
  "route_of_rule rule d =
     (case GetSandboxByID (pr_SandboxID rule) d of
        Inl _ \<Rightarrow> None
      | Inr sb \<Rightarrow>
          if sb_Status sb = ''destroyed'' then None
          else Some \<lparr>rr_engineID = sb_EngineID sb, rr_sandboxID = sb_ID sb, rr_port = pr_Port rule, rr_hasInit = sb_HasInit sb\<rparr>)"

definition resolve_alias :: "string \<Rightarrow> db \<Rightarrow> routeCache \<Rightarrow> resolvedRoute option \<times> routeCache" where
  "resolve_alias alias d rc =
     (case Get alias rc of
        (Some route, rc') \<Rightarrow> (Some route, rc')
      | (None, rc') \<Rightarrow>
          (case GetPublishRuleByAlias alias d of
             Inl _ \<Rightarrow> (None, rc')
           | Inr rule \<Rightarrow>
               (case route_of_rule rule d of None \<Rightarrow> (None, rc') | Some route \<Rightarrow> (Some route, Set alias route rc'))))"

section \<open>Generated aliases\<close>

lemma lower_alias: "is_alnum c \<Longrightarrow> is_alias_start (lower_char c)"
  by (auto simp: is_alnum_def is_alias_start_def lower_char_def Let_def)

lemma hex_alias: "x < 16 \<Longrightarrow> is_alias_start (hex_digit x)"
  by (auto simp: is_alias_start_def hex_digit_def Let_def)

lemma hex_encode_alias: "list_all is_alias_char (hex_encode bs)"
proof (induction bs)
  case (Cons b bs)
  have "unat b div 16 < 16" using byte_lt [of b] by simp
  with Cons show ?case by (simp add: hex_encode_Cons hex_alias is_alias_char_def)
qed (simp add: hex_encode_def)

lemma trim_dashes_start:
  assumes "s \<noteq> []" and "hd s \<noteq> CHR ''-''"
  shows "\<exists>t. trim_dashes s = hd s # t \<and> set t \<subseteq> set s \<and> length t < length s"
proof -
  obtain c cs where s: "s = c # cs" using assms by (cases s) auto
  then have "dropWhile (\<lambda>c. c = CHR ''-'') s = c # cs" using assms by simp
  moreover have "dropWhile (\<lambda>c. c = CHR ''-'') (rev cs @ [c]) = dropWhile (\<lambda>c. c = CHR ''-'') (rev cs) @ [c]"
    using assms by (induction "rev cs" arbitrary: cs rule: list.induct) (auto simp: s dropWhile_append)
  moreover have "length (dropWhile (\<lambda>c. c = CHR ''-'') (rev cs)) \<le> length cs" by (metis length_dropWhile_le length_rev)
  ultimately show ?thesis using set_dropWhileD [of _ "\<lambda>c. c = CHR ''-''" "rev cs"] by (auto simp: trim_dashes_def s)
qed

text \<open>The alias generated for a sandbox with a valid name passes \<open>validateAlias\<close>.\<close>

lemma generated_alias_valid:
  assumes "isValidName name" and rnd: "length rnd = 4"
  shows "validateAlias (generateAlias rnd name) = None"
proof -
  obtain c cs where name: "name = c # cs" "is_alnum c" "list_all is_word cs" "length cs \<le> 62"
    using assms(1) by (auto simp: isValidName_def split: list.splits)
  let ?m = "map (\<lambda>c. if is_alias_char c then c else CHR ''-'') (to_lower name)"
  have hd: "is_alias_start (hd ?m)" using lower_alias [OF name(2)] by (simp add: name(1) to_lower_def is_alias_char_def)
  have dash: "\<not> is_alias_start CHR ''-''" by (simp add: is_alias_start_def)
  then have "hd ?m \<noteq> CHR ''-''" using hd by metis
  then obtain u where u: "trim_dashes ?m = hd ?m # u" "set u \<subseteq> set ?m" using trim_dashes_start [of ?m] by (auto simp: name(1) to_lower_def)
  have dc: "is_alias_char CHR ''-''" by (simp add: is_alias_char_def)
  have all: "list_all is_alias_char u" using u(2) by (auto simp: list_all_iff is_alias_char_def)
  define suffix where "suffix = take 6 (hex_encode rnd)"
  have suf: "length suffix = 6" "list_all is_alias_char suffix"
    using hex_encode_alias [of rnd] rnd by (auto simp: suffix_def length_hex_encode list_all_iff dest: in_set_takeD)
  define base where "base = take 56 (hd ?m # u)"
  have gen: "generateAlias rnd name = base @ ''-'' @ suffix"
    using suf by (auto simp: generateAlias_def Let_def u(1) base_def suffix_def [symmetric])
  obtain bs where base: "base = hd ?m # bs" "length bs \<le> 55" "list_all is_alias_char bs"
    using all by (auto simp: base_def take_Cons' list_all_iff dest: in_set_takeD)
  have "CHR ''-'' \<in> set (generateAlias rnd name)" by (simp add: gen)
  moreover have "hd ?m \<noteq> CHR ''_''" using hd by (auto simp: is_alias_start_def)
  then have "hd (generateAlias rnd name) \<noteq> CHR ''_''" by (simp add: gen base)
  ultimately have "generateAlias rnd name \<notin> set reservedAliases" by (auto simp: reservedAliases_def)
  moreover have "aliasRegex (generateAlias rnd name)" using hd base suf dc by (simp add: gen aliasRegex_def)
  ultimately show ?thesis by (simp add: validateAlias_def)
qed

lemma first_free_alias_Some:
  "first_free_alias rnds name d = Some a \<Longrightarrow> (\<exists>rnd \<in> set rnds. a = generateAlias rnd name) \<and> \<not> is_ok (GetPublishRuleByAlias a d)"
  by (induction rnds) (auto split: sum.splits)

section \<open>A publication\<close>









section \<open>Lookups and removals\<close>

text \<open>
  Requests in progress, each at the point between two of its actions on the shared database and cache: a lookup that missed the cache, has read the rule, has the route; an
  unpublication that has listed the rules (with its user, sandbox and port), has deleted the rule; a destruction that has deleted the rules of its sandbox.
\<close>

datatype proxy_pc =
    Missed string
  | RuleRead string PublishRule
  | Resolved string resolvedRoute
  | Listed string string int "PublishRule list"
  | Unlisted string
  | Cleared string

record proxy_state =
  px_db :: db
  px_cache :: routeCache
  px_req :: "nat \<Rightarrow> proxy_pc option"

text \<open>The table has a rule for the route of an alias.\<close>

definition current :: "db \<Rightarrow> string \<times> resolvedRoute \<Rightarrow> bool" where
  "current d = (\<lambda>(a, r). list_ex (\<lambda>rule. pr_Alias rule = a \<and> pr_SandboxID rule = rr_sandboxID r \<and> pr_Port rule = rr_port r) (publish_rules d))"

definition read_rule :: "string \<Rightarrow> db \<Rightarrow> proxy_pc option" where
  "read_rule a d = (case GetPublishRuleByAlias a d of Inl _ \<Rightarrow> None | Inr rule \<Rightarrow> Some (RuleRead a rule))"

definition read_route :: "string \<Rightarrow> PublishRule \<Rightarrow> db \<Rightarrow> proxy_pc option" where
  "read_route a rule d = map_option (Resolved a) (route_of_rule rule d)"

text \<open>The deletion takes a rule whose alias is not the one that was listed for the port.\<close>

definition relisted :: "string \<Rightarrow> string \<Rightarrow> int \<Rightarrow> PublishRule list \<Rightarrow> db \<Rightarrow> bool" where
  "relisted u sb port rules d \<longleftrightarrow>
     list_ex (\<lambda>r. pr_UserID r = u \<and> pr_SandboxID r = sb \<and> pr_Port r = port \<and> listed_alias port rules \<noteq> Some (pr_Alias r)) (publish_rules d)"

text \<open>
  One action of one request. The label says that the action is late: the store of a route whose rule is gone, or the deletion of a rule that was not the one listed. \<open>forget\<close> is the
  answer 502 of \<open>proxyToAlias\<close>; \<open>other\<close> is any write that leaves the rules alone.
\<close>

inductive proxy_step :: "bool \<Rightarrow> proxy_state \<Rightarrow> proxy_state \<Rightarrow> bool" where
  hit: "Get a (px_cache s) = (Some r, rc) \<Longrightarrow> proxy_step False s (s\<lparr>px_cache := rc\<rparr>)"
| miss: "Get a (px_cache s) = (None, rc) \<Longrightarrow> px_req s i = None \<Longrightarrow>
    proxy_step False s (s\<lparr>px_cache := rc, px_req := (px_req s)(i := Some (Missed a))\<rparr>)"
| lookup_rule: "px_req s i = Some (Missed a) \<Longrightarrow> proxy_step False s (s\<lparr>px_req := (px_req s)(i := read_rule a (px_db s))\<rparr>)"
| lookup_sandbox: "px_req s i = Some (RuleRead a rule) \<Longrightarrow>
    proxy_step False s (s\<lparr>px_req := (px_req s)(i := read_route a rule (px_db s))\<rparr>)"
| store_route: "px_req s i = Some (Resolved a r) \<Longrightarrow> late = (\<not> current (px_db s) (a, r)) \<Longrightarrow>
    proxy_step late s (s\<lparr>px_cache := Set a r (px_cache s), px_req := (px_req s)(i := None)\<rparr>)"
| forget: "proxy_step False s (s\<lparr>px_cache := Invalidate a (px_cache s)\<rparr>)"
| publish: "CreatePublishRule now rule (px_db s) = Inr d' \<Longrightarrow> proxy_step False s (s\<lparr>px_db := d'\<rparr>)"
| unpublish_list: "px_req s i = None \<Longrightarrow>
    proxy_step False s (s\<lparr>px_req := (px_req s)(i := Some (Listed u sb port (ListPublishRules sb (px_db s))))\<rparr>)"
| unpublish_none: "px_req s i = Some (Listed u sb port rules) \<Longrightarrow> DeletePublishRule u sb port (px_db s) = Inl e \<Longrightarrow>
    proxy_step False s (s\<lparr>px_req := (px_req s)(i := None)\<rparr>)"
| unpublish_delete: "px_req s i = Some (Listed u sb port rules) \<Longrightarrow> DeletePublishRule u sb port (px_db s) = Inr d' \<Longrightarrow>
    late = relisted u sb port rules (px_db s) \<Longrightarrow>
    proxy_step late s (s\<lparr>px_db := d', px_req := (px_req s)(i := map_option Unlisted (listed_alias port rules))\<rparr>)"
| unpublish_forget: "px_req s i = Some (Unlisted a) \<Longrightarrow>
    proxy_step False s (s\<lparr>px_cache := Invalidate a (px_cache s), px_req := (px_req s)(i := None)\<rparr>)"
| destroy_rules: "px_req s i = None \<Longrightarrow>
    proxy_step False s (s\<lparr>px_db := fst (DeletePublishRulesForSandbox sb (px_db s)), px_req := (px_req s)(i := Some (Cleared sb))\<rparr>)"
| destroy_forget: "px_req s i = Some (Cleared sb) \<Longrightarrow>
    proxy_step False s (s\<lparr>px_cache := InvalidateSandbox sb (px_cache s), px_req := (px_req s)(i := None)\<rparr>)"
| other: "publish_rules d' = publish_rules (px_db s) \<Longrightarrow> proxy_step False s (s\<lparr>px_db := d'\<rparr>)"

definition proxy_start :: "db \<Rightarrow> proxy_state" where
  "proxy_start d = \<lparr>px_db = d, px_cache = newRouteCache, px_req = \<lambda>_. None\<rparr>"



















section \<open>Examples\<close>

text \<open>A sandbox of each of two users, and the rule of the first for its port 80.\<close>

definition example_alice :: Sandbox where
  "example_alice = (example_api_sandbox [])\<lparr>sb_ID := ''s1'', sb_Name := ''web'', sb_EngineID := ''e1'', sb_CreatedBy := ''alice'', sb_Status := ''running''\<rparr>"

definition example_bob :: Sandbox where
  "example_bob = (example_api_sandbox [])\<lparr>sb_ID := ''s2'', sb_Name := ''app'', sb_EngineID := ''e2'', sb_CreatedBy := ''bob'', sb_Status := ''running''\<rparr>"

definition example_rule :: "string \<Rightarrow> string \<Rightarrow> string \<Rightarrow> PublishRule" where
  "example_rule i s u = \<lparr>pr_ID = i, pr_SandboxID = s, pr_UserID = u, pr_Port = 80, pr_Alias = ''shop'', pr_CreatedAt = 0\<rparr>"

definition example_pub_db :: "PublishRule list \<Rightarrow> db" where
  "example_pub_db rules = empty_db\<lparr>sandboxes := [example_alice, example_bob], publish_rules := rules\<rparr>"

definition example_pub_route :: resolvedRoute where
  "example_pub_route = \<lparr>rr_engineID = ''e1'', rr_sandboxID = ''s1'', rr_port = 80, rr_hasInit = sb_HasInit example_alice\<rparr>"

lemmas example_pub_defs = example_alice_def example_bob_def example_rule_def example_pub_db_def example_pub_route_def example_api_sandbox_def empty_db_def

definition looked_up :: proxy_state where
  "looked_up = \<lparr>px_db = example_pub_db [example_rule ''p1'' ''s1'' ''alice''], px_cache = newRouteCache,
     px_req = (\<lambda>_. None)(1 := Some (Resolved ''shop'' example_pub_route))\<rparr>"

lemma reach_looked_up: "(proxy_step False)\<^sup>*\<^sup>* (proxy_start (example_pub_db [example_rule ''p1'' ''s1'' ''alice''])) looked_up"
proof -
  let ?d = "example_pub_db [example_rule ''p1'' ''s1'' ''alice'']"
  let ?s1 = "(proxy_start ?d)\<lparr>px_req := (\<lambda>_. None)(1 := Some (Missed ''shop''))\<rparr>"
  let ?s2 = "?s1\<lparr>px_req := (\<lambda>_. None)(1 := Some (RuleRead ''shop'' (example_rule ''p1'' ''s1'' ''alice'')))\<rparr>"
  have "proxy_step False (proxy_start ?d) ?s1"
    using miss [of "''shop''" "proxy_start ?d" newRouteCache 1] by (simp add: proxy_start_def Get_def newRouteCache_def)
  moreover have "proxy_step False ?s1 ?s2"
    using lookup_rule [of ?s1 1 "''shop''"] by (simp add: proxy_start_def read_rule_def GetPublishRuleByAlias_def query_row_def example_pub_defs)
  moreover have "proxy_step False ?s2 looked_up"
    using lookup_sandbox [of ?s2 1 "''shop''" "example_rule ''p1'' ''s1'' ''alice''"]
    by (simp add: proxy_start_def looked_up_def read_route_def route_of_rule_def GetSandboxByID_def query_row_def example_pub_defs)
  ultimately show ?thesis by (meson rtranclp.rtrancl_into_rtrancl rtranclp.rtrancl_refl)
qed


lemma cached_stored: "fst (Get ''shop'' (Set ''shop'' example_pub_route newRouteCache)) = Some example_pub_route"
  by (simp add: Get_def Set_def newRouteCache_def evict_def element_value_def routeCacheMaxSize_def)




text \<open>A step of any kind, late or not.\<close>

definition proxy_any :: "proxy_state \<Rightarrow> proxy_state \<Rightarrow> bool" where
  "proxy_any s s' \<longleftrightarrow> proxy_step False s s' \<or> proxy_step True s s'"

lemma proxy_anyI: "proxy_step late s s' \<Longrightarrow> proxy_any s s'"
  by (cases late) (auto simp: proxy_any_def)

text \<open>
  C38: a lookup that overlaps an unpublication leaves a route for good. A lookup has read the route of an
  alias, the owner unpublishes the port and the alias is dropped from the cache, then the lookup stores the route. No request is in progress any more, and when
  another user publishes the alias, requests for it still go to the first user's sandbox.
\<close>

theorem stale_route:
  "\<exists>s. proxy_any\<^sup>*\<^sup>* (proxy_start (example_pub_db [example_rule ''p1'' ''s1'' ''alice''])) s \<and>
       px_req s = (\<lambda>_. None) \<and> publish_rules (px_db s) = [example_rule ''p2'' ''s2'' ''bob''] \<and>
       fst (resolve_alias ''shop'' (px_db s) (px_cache s)) = Some example_pub_route \<and> rr_sandboxID example_pub_route = ''s1''"
proof -
  let ?rules = "[example_rule ''p1'' ''s1'' ''alice'']" and ?look = "Some (Resolved ''shop'' example_pub_route)"
  let ?s1 = "looked_up\<lparr>px_req := (\<lambda>_. None)(1 := ?look, 2 := Some (Listed ''alice'' ''s1'' 80 ?rules))\<rparr>"
  let ?s2 = "?s1\<lparr>px_db := example_pub_db [], px_req := (\<lambda>_. None)(1 := ?look, 2 := Some (Unlisted ''shop''))\<rparr>"
  let ?s3 = "?s2\<lparr>px_req := (\<lambda>_. None)(1 := ?look)\<rparr>"
  let ?s4 = "?s3\<lparr>px_cache := Set ''shop'' example_pub_route newRouteCache, px_req := \<lambda>_. None\<rparr>"
  let ?s5 = "?s4\<lparr>px_db := example_pub_db [example_rule ''p2'' ''s2'' ''bob'']\<rparr>"
  have 1: "proxy_any looked_up ?s1"
    using proxy_anyI [OF unpublish_list [of looked_up 2 "''alice''" "''s1''" 80]]
    by (simp add: looked_up_def ListPublishRules_def query_all_def example_pub_defs)
  have 2: "proxy_any ?s1 ?s2"
    using proxy_anyI [OF unpublish_delete [of ?s1 2 "''alice''" "''s1''" 80 ?rules "example_pub_db []"]]
    by (simp add: looked_up_def DeletePublishRule_def sql_delete_def listed_alias_def fun_upd_twist example_pub_defs)
  have 3: "proxy_any ?s2 ?s3"
    using proxy_anyI [OF unpublish_forget [of ?s2 2 "''shop''"]] by (simp add: looked_up_def Invalidate_def newRouteCache_def fun_upd_twist)
  have 4: "proxy_any ?s3 ?s4"
    using proxy_anyI [OF store_route [of ?s3 1 "''shop''" example_pub_route]] by (simp add: looked_up_def)
  have 5: "proxy_any ?s4 ?s5"
    using proxy_anyI [OF publish [of 0 "example_rule ''p2'' ''s2'' ''bob''" ?s4 "example_pub_db [example_rule ''p2'' ''s2'' ''bob'']"]]
    by (simp add: CreatePublishRule_def sql_insert_def publish_rules_cs_def same_def example_pub_defs)
  have "proxy_any\<^sup>*\<^sup>* (proxy_start (example_pub_db ?rules)) looked_up"
    using reach_looked_up by (rule rtranclp_mono [THEN predicate2D, rotated]) (auto simp: proxy_any_def)
  then have "proxy_any\<^sup>*\<^sup>* (proxy_start (example_pub_db ?rules)) ?s1" using 1 by (rule rtranclp.rtrancl_into_rtrancl)
  then have "proxy_any\<^sup>*\<^sup>* (proxy_start (example_pub_db ?rules)) ?s2" using 2 by (rule rtranclp.rtrancl_into_rtrancl)
  then have "proxy_any\<^sup>*\<^sup>* (proxy_start (example_pub_db ?rules)) ?s3" using 3 by (rule rtranclp.rtrancl_into_rtrancl)
  then have "proxy_any\<^sup>*\<^sup>* (proxy_start (example_pub_db ?rules)) ?s4" using 4 by (rule rtranclp.rtrancl_into_rtrancl)
  then have "proxy_any\<^sup>*\<^sup>* (proxy_start (example_pub_db ?rules)) ?s5" using 5 by (rule rtranclp.rtrancl_into_rtrancl)
  moreover have "fst (resolve_alias ''shop'' (px_db ?s5) (px_cache ?s5)) = Some example_pub_route"
    using cached_stored by (auto simp: resolve_alias_def split: prod.splits option.splits)
  ultimately show ?thesis by (intro exI [of _ ?s5]) (simp add: example_pub_defs)
qed

end
