(* ===== verification/Web_Shell.thy ===== *)
theory Web_Shell
  imports Sandboxes
begin

text \<open>
  The shell in the browser, \<^verbatim>\<open>src/pkg/server/shell_handlers.go\<close>: pages and sockets under \<^verbatim>\<open>/_shell\<close>, the token of a sandbox, its issue and revocation, and the tracker
  of open sessions. Sessions and revocations are interleaved steps, since a session authenticates, is counted and registers for
  disconnection at three separate points. The properties: the cap on sessions; that a revocation cuts every session but those that had
  authenticated and not registered when the token was cleared; and that one of these stays.
\<close>

section \<open>Paths and tokens\<close>

datatype shell_page = ShellHTML | ShellWS string | ShellNotFound

definition handleWebShell :: "string \<Rightarrow> shell_page" where
  "handleWebShell cleanPath =
     (if cleanPath = ''/_shell'' \<or> cleanPath = ''/_shell/'' then ShellNotFound
      else
        (let trimmed = trim_prefix cleanPath ''/_shell/'';
             cut = index_of ''/'' trimmed;
             sandboxID = (case cut of None \<Rightarrow> trimmed | Some n \<Rightarrow> take n trimmed);
             rest = (case cut of None \<Rightarrow> [] | Some n \<Rightarrow> drop (n + 1) trimmed) in
         if sandboxID = [] then ShellNotFound
         else if rest = [] then ShellHTML
         else if rest = ''ws'' then ShellWS sandboxID
         else ShellNotFound))"

text \<open>
  The first message of a socket, type and token, or \<open>None\<close> when it does not decode; and the test of the token. \<open>hash\<close> is SHA-256 in hexadecimal.
\<close>

definition auth_token :: "(string \<times> string) option \<Rightarrow> string option" where
  "auth_token msg =
     (case msg of
        None \<Rightarrow> None
      | Some (ty, token) \<Rightarrow> if ty \<noteq> ''auth'' \<or> token = [] then None else Some token)"

definition shell_auth :: "(string \<Rightarrow> string) \<Rightarrow> string \<Rightarrow> string \<Rightarrow> db \<Rightarrow> bool" where
  "shell_auth hash sandboxID token d =
     (case GetSandboxByID sandboxID d of
        Inl _ \<Rightarrow> False
      | Inr sb \<Rightarrow> \<not> (sb_Status sb = ''destroyed'' \<or> sb_ShellTokenHash sb = [] \<or> hash token \<noteq> sb_ShellTokenHash sb))"

section \<open>The tracker of sessions\<close>

text \<open>A channel is a number, closed when it is in \<open>tr_closed\<close>; an absent entry of a Go map reads as zero or as no channels.\<close>

record shellSessionTracker =
  tr_counts :: "string \<Rightarrow> int option"
  tr_channels :: "string \<Rightarrow> nat list option"
  tr_limit :: int
  tr_fresh :: nat
  tr_closed :: "nat set"

definition newShellSessionTracker :: "int \<Rightarrow> shellSessionTracker" where
  "newShellSessionTracker limit = \<lparr>tr_counts = \<lambda>_. None, tr_channels = \<lambda>_. None, tr_limit = limit, tr_fresh = 0, tr_closed = {}\<rparr>"

definition session_count :: "string \<Rightarrow> shellSessionTracker \<Rightarrow> int" where
  "session_count sandboxID t = (case tr_counts t sandboxID of None \<Rightarrow> 0 | Some n \<Rightarrow> n)"

definition session_channels :: "string \<Rightarrow> shellSessionTracker \<Rightarrow> nat list" where
  "session_channels sandboxID t = (case tr_channels t sandboxID of None \<Rightarrow> [] | Some chs \<Rightarrow> chs)"

definition tracker_Add :: "string \<Rightarrow> shellSessionTracker \<Rightarrow> bool \<times> shellSessionTracker" where
  "tracker_Add sandboxID t =
     (if session_count sandboxID t \<ge> tr_limit t then (False, t)
      else (True, t\<lparr>tr_counts := (tr_counts t)(sandboxID \<mapsto> session_count sandboxID t + 1)\<rparr>))"

definition tracker_Remove :: "string \<Rightarrow> shellSessionTracker \<Rightarrow> shellSessionTracker" where
  "tracker_Remove sandboxID t =
     (let n = session_count sandboxID t - 1 in
      if n \<le> 0 then t\<lparr>tr_counts := (tr_counts t)(sandboxID := None)\<rparr> else t\<lparr>tr_counts := (tr_counts t)(sandboxID \<mapsto> n)\<rparr>)"

definition tracker_Done :: "string \<Rightarrow> shellSessionTracker \<Rightarrow> nat \<times> shellSessionTracker" where
  "tracker_Done sandboxID t =
     (tr_fresh t, t\<lparr>tr_channels := (tr_channels t)(sandboxID \<mapsto> session_channels sandboxID t @ [tr_fresh t]), tr_fresh := tr_fresh t + 1\<rparr>)"

text \<open>\<open>DisconnectAll\<close>: the part under the lock, and the closing of one channel; as a whole when nothing interferes.\<close>

definition take_channels :: "string \<Rightarrow> shellSessionTracker \<Rightarrow> nat list \<times> shellSessionTracker" where
  "take_channels sandboxID t = (session_channels sandboxID t, t\<lparr>tr_channels := (tr_channels t)(sandboxID := None)\<rparr>)"

definition close_channel :: "nat \<Rightarrow> shellSessionTracker \<Rightarrow> shellSessionTracker" where
  "close_channel ch t = t\<lparr>tr_closed := insert ch (tr_closed t)\<rparr>"

definition DisconnectAll :: "string \<Rightarrow> shellSessionTracker \<Rightarrow> shellSessionTracker" where
  "DisconnectAll sandboxID t = (case take_channels sandboxID t of (chs, t') \<Rightarrow> fold close_channel chs t')"

text \<open>The request that issues or revokes a token; \<open>draw\<close> is \<open>randomHex(32)\<close>. The reply shows token and URL.\<close>

definition handleShellToken ::
  "(string \<Rightarrow> string) \<Rightarrow> string \<Rightarrow> string \<Rightarrow> string \<Rightarrow> string \<Rightarrow> string \<Rightarrow> db \<Rightarrow> shellSessionTracker \<Rightarrow>
   nat \<times> (string \<times> string) option \<times> db \<times> shellSessionTracker" where
  "handleShellToken hash apiHost draw meth userID i d t =
     (case GetSandbox userID i d of
        Inl _ \<Rightarrow> (404, None, d, t)
      | Inr sb \<Rightarrow>
          if meth = ''POST'' then
            (case SetShellToken (sb_ID sb) (hash draw) d of
               Inl _ \<Rightarrow> (500, None, d, t)
             | Inr d' \<Rightarrow> (200, Some (draw, ''https://'' @ apiHost @ ''/_shell/'' @ sb_ID sb @ ''#token='' @ draw), d', t))
          else if meth = ''DELETE'' then
            (case ClearShellToken (sb_ID sb) d of
               Inl _ \<Rightarrow> (500, None, d, t)
             | Inr d' \<Rightarrow> (204, None, d', DisconnectAll (sb_ID sb) t))
          else (405, None, d, t))"

section \<open>Sessions and revocations\<close>

text \<open>
  Where a session stands in \<open>handleShellWS\<close>: token received, authenticated, counted, registered with its channel, relaying with its channel and
  whether its socket is open, on its way out, gone. A revocation has cleared the token, or has taken the channels and closes them.
\<close>

datatype shell_pc = Presented string | Authed | Counted | Waking nat | Relay nat bool | Parting | Ended

record shell_session =
  ss_sandbox :: string
  ss_pc :: shell_pc

datatype revoke_pc = TokenCleared string | Closing "nat list" | Revoked

record shell_state =
  sh_db :: db
  sh_tracker :: shellSessionTracker
  sh_sessions :: "nat \<Rightarrow> shell_session option"
  sh_revokes :: "nat \<Rightarrow> revoke_pc option"

definition move :: "nat \<Rightarrow> shell_session \<Rightarrow> shell_pc \<Rightarrow> shell_state \<Rightarrow> shell_state" where
  "move i t pc s = s\<lparr>sh_sessions := (sh_sessions s)(i \<mapsto> t\<lparr>ss_pc := pc\<rparr>)\<rparr>"

definition shell_hash :: "string \<Rightarrow> db \<Rightarrow> string" where
  "shell_hash i d = (case GetSandboxByID i d of Inl _ \<Rightarrow> [] | Inr sb \<Rightarrow> sb_ShellTokenHash sb)"

text \<open>
  One action of one request; the label names the sandbox a token is issued for. \<open>other\<close> is any write that issues no token.
\<close>

inductive shell_step :: "(string \<Rightarrow> string) \<Rightarrow> string option \<Rightarrow> shell_state \<Rightarrow> shell_state \<Rightarrow> bool" for hash where
  present: "sh_sessions s i = None \<Longrightarrow> auth_token msg = Some token \<Longrightarrow>
    shell_step hash None s (s\<lparr>sh_sessions := (sh_sessions s)(i \<mapsto> \<lparr>ss_sandbox = sandboxID, ss_pc = Presented token\<rparr>)\<rparr>)"
| auth: "sh_sessions s i = Some t \<Longrightarrow> ss_pc t = Presented token \<Longrightarrow>
    shell_step hash None s (move i t (if shell_auth hash (ss_sandbox t) token (sh_db s) then Authed else Ended) s)"
| count: "sh_sessions s i = Some t \<Longrightarrow> ss_pc t = Authed \<Longrightarrow> tracker_Add (ss_sandbox t) (sh_tracker s) = (ok, tr) \<Longrightarrow>
    shell_step hash None s (move i t (if ok then Counted else Ended) (s\<lparr>sh_tracker := tr\<rparr>))"
| register: "sh_sessions s i = Some t \<Longrightarrow> ss_pc t = Counted \<Longrightarrow> tracker_Done (ss_sandbox t) (sh_tracker s) = (ch, tr) \<Longrightarrow>
    shell_step hash None s (move i t (Waking ch) (s\<lparr>sh_tracker := tr\<rparr>))"
| woken: "sh_sessions s i = Some t \<Longrightarrow> ss_pc t = Waking ch \<Longrightarrow> shell_step hash None s (move i t (Relay ch True) s)"
| unavailable: "sh_sessions s i = Some t \<Longrightarrow> ss_pc t = Waking ch \<Longrightarrow> shell_step hash None s (move i t Parting s)"
| watcher: "sh_sessions s i = Some t \<Longrightarrow> ss_pc t = Relay ch opened \<Longrightarrow> ch \<in> tr_closed (sh_tracker s) \<Longrightarrow>
    shell_step hash None s (move i t (Relay ch False) s)"
| relayed: "sh_sessions s i = Some t \<Longrightarrow> ss_pc t = Relay ch opened \<Longrightarrow> shell_step hash None s (move i t Parting s)"
| part: "sh_sessions s i = Some t \<Longrightarrow> ss_pc t = Parting \<Longrightarrow>
    shell_step hash None s (move i t Ended (s\<lparr>sh_tracker := tracker_Remove (ss_sandbox t) (sh_tracker s)\<rparr>))"
| issue: "SetShellToken sandboxID (hash token) (sh_db s) = Inr d' \<Longrightarrow> shell_step hash (Some sandboxID) s (s\<lparr>sh_db := d'\<rparr>)"
| revoke: "sh_revokes s k = None \<Longrightarrow> ClearShellToken sandboxID (sh_db s) = Inr d' \<Longrightarrow>
    shell_step hash None s (s\<lparr>sh_db := d', sh_revokes := (sh_revokes s)(k \<mapsto> TokenCleared sandboxID)\<rparr>)"
| revoke_take: "sh_revokes s k = Some (TokenCleared sandboxID) \<Longrightarrow> take_channels sandboxID (sh_tracker s) = (chs, tr) \<Longrightarrow>
    shell_step hash None s (s\<lparr>sh_tracker := tr, sh_revokes := (sh_revokes s)(k \<mapsto> Closing chs)\<rparr>)"
| revoke_close: "sh_revokes s k = Some (Closing (ch # chs)) \<Longrightarrow>
    shell_step hash None s (s\<lparr>sh_tracker := close_channel ch (sh_tracker s), sh_revokes := (sh_revokes s)(k \<mapsto> Closing chs)\<rparr>)"
| revoked: "sh_revokes s k = Some (Closing []) \<Longrightarrow> shell_step hash None s (s\<lparr>sh_revokes := (sh_revokes s)(k \<mapsto> Revoked)\<rparr>)"
| other: "(\<And>i. shell_hash i d' = shell_hash i (sh_db s) \<or> shell_hash i d' = []) \<Longrightarrow> shell_step hash None s (s\<lparr>sh_db := d'\<rparr>)"

definition shell_start :: "int \<Rightarrow> db \<Rightarrow> shell_state" where
  "shell_start limit d = \<lparr>sh_db = d, sh_tracker = newShellSessionTracker limit, sh_sessions = \<lambda>_. None, sh_revokes = \<lambda>_. None\<rparr>"

definition shell_any :: "(string \<Rightarrow> string) \<Rightarrow> shell_state \<Rightarrow> shell_state \<Rightarrow> bool" where
  "shell_any hash s s' \<longleftrightarrow> (\<exists>l. shell_step hash l s s')"

inductive_cases shell_stepE: "shell_step hash l s s'"

section \<open>The cap on sessions\<close>

text \<open>The sessions of a sandbox that are counted and have not left.\<close>

fun occupies :: "shell_pc \<Rightarrow> bool" where
  "occupies Counted = True"
| "occupies (Waking _) = True"
| "occupies (Relay _ _) = True"
| "occupies Parting = True"
| "occupies _ = False"

definition holding :: "string \<Rightarrow> shell_state \<Rightarrow> nat set" where
  "holding sb s = {i. \<exists>t. sh_sessions s i = Some t \<and> ss_sandbox t = sb \<and> occupies (ss_pc t)}"

definition cap_at :: "string \<Rightarrow> shell_state \<Rightarrow> bool" where
  "cap_at sb s \<longleftrightarrow> finite (holding sb s) \<and> session_count sb (sh_tracker s) = int (card (holding sb s)) \<and>
     int (card (holding sb s)) \<le> tr_limit (sh_tracker s)"

definition cap_inv :: "shell_state \<Rightarrow> bool" where
  "cap_inv s \<longleftrightarrow> (\<forall>sb. cap_at sb s)"

lemma holding_move:
  assumes "sh_sessions s i = Some t"
  shows "holding sb (move i t pc s) =
    (if sb = ss_sandbox t then if occupies pc then insert i (holding sb s) else holding sb s - {i} else holding sb s)"
  using assms by (auto simp: holding_def move_def)

lemma holding_in: "sh_sessions s i = Some t \<Longrightarrow> i \<in> holding sb s \<longleftrightarrow> ss_sandbox t = sb \<and> occupies (ss_pc t)"
  by (simp add: holding_def)

lemma holding_same: "sh_sessions s' = sh_sessions s \<Longrightarrow> holding sb s' = holding sb s"
  by (simp add: holding_def)

lemma move_simps [simp]: "sh_tracker (move i t pc s) = sh_tracker s" "sh_db (move i t pc s) = sh_db s" "sh_revokes (move i t pc s) = sh_revokes s"
  "sh_sessions (move i t pc s) = (sh_sessions s)(i \<mapsto> t\<lparr>ss_pc := pc\<rparr>)"
  by (simp_all add: move_def)

lemma cap_same:
  assumes "cap_inv s" and "\<And>sb. holding sb s' = holding sb s" and "tr_counts (sh_tracker s') = tr_counts (sh_tracker s)"
    and "tr_limit (sh_tracker s') = tr_limit (sh_tracker s)"
  shows "cap_inv s'"
  using assms by (simp add: cap_inv_def cap_at_def session_count_def)

lemma cap_keep:
  assumes "cap_inv s" and "sh_sessions s i = Some t" and "occupies pc = occupies (ss_pc t)"
  shows "cap_inv (move i t pc s)"
  using assms(3) holding_in [OF assms(2)] by (intro cap_same [OF assms(1)]) (auto simp: holding_move [OF assms(2)])

lemma cap_count:
  assumes inv: "cap_inv s" and i: "sh_sessions s i = Some t" and "ss_pc t = Authed" and add: "tracker_Add (ss_sandbox t) (sh_tracker s) = (ok, tr)"
  shows "cap_inv (move i t (if ok then Counted else Ended) (s\<lparr>sh_tracker := tr\<rparr>))"
proof (cases ok)
  case False
  then have "tr = sh_tracker s" using add by (simp add: tracker_Add_def split: if_splits)
  then show ?thesis using cap_keep [OF inv i, of Ended] assms(3) False by simp
next
  case True
  then have tr: "session_count (ss_sandbox t) (sh_tracker s) < tr_limit (sh_tracker s)"
    "tr = (sh_tracker s)\<lparr>tr_counts := (tr_counts (sh_tracker s))(ss_sandbox t \<mapsto> session_count (ss_sandbox t) (sh_tracker s) + 1)\<rparr>"
    using add by (simp_all add: tracker_Add_def split: if_splits)
  have i': "sh_sessions (s\<lparr>sh_tracker := tr\<rparr>) i = Some t" using i by simp
  have "i \<notin> holding (ss_sandbox t) s" using holding_in [OF i] assms(3) by simp
  moreover have "session_count sb tr = (if sb = ss_sandbox t then session_count sb (sh_tracker s) + 1 else session_count sb (sh_tracker s))"
    "tr_limit tr = tr_limit (sh_tracker s)" for sb by (simp_all add: tr(2) session_count_def)
  moreover have "cap_at sb s" for sb using inv by (simp add: cap_inv_def)
  ultimately show ?thesis using tr(1) True
    unfolding cap_inv_def cap_at_def holding_move [OF i'] holding_same [of "s\<lparr>sh_tracker := tr\<rparr>" s, simplified] by simp
qed

lemma cap_part:
  assumes inv: "cap_inv s" and i: "sh_sessions s i = Some t" and "ss_pc t = Parting"
  shows "cap_inv (move i t Ended (s\<lparr>sh_tracker := tracker_Remove (ss_sandbox t) (sh_tracker s)\<rparr>))"
proof -
  let ?tr = "tracker_Remove (ss_sandbox t) (sh_tracker s)"
  have i': "sh_sessions (s\<lparr>sh_tracker := ?tr\<rparr>) i = Some t" using i by simp
  have mem: "i \<in> holding (ss_sandbox t) s" using holding_in [OF i] assms(3) by simp
  have fin: "finite (holding (ss_sandbox t) s)" and n: "session_count (ss_sandbox t) (sh_tracker s) = int (card (holding (ss_sandbox t) s))"
    using inv by (simp_all add: cap_inv_def cap_at_def)
  have pos: "card (holding (ss_sandbox t) s) > 0" using fin mem by (auto simp: card_gt_0_iff)
  have cnt: "session_count sb ?tr = (if sb = ss_sandbox t then session_count sb (sh_tracker s) - 1 else session_count sb (sh_tracker s))" for sb
    using n pos by (auto simp: tracker_Remove_def Let_def session_count_def)
  have lim: "tr_limit ?tr = tr_limit (sh_tracker s)" by (simp add: tracker_Remove_def Let_def)
  have "int (card (holding (ss_sandbox t) s - {i})) = int (card (holding (ss_sandbox t) s)) - 1"
    using fin mem pos by (simp add: card_Diff_singleton of_nat_diff)
  moreover have "int (card (holding (ss_sandbox t) s)) - 1 \<le> tr_limit (sh_tracker s)" using inv [unfolded cap_inv_def, rule_format, of "ss_sandbox t"] by (simp add: cap_at_def)
  moreover have "cap_at sb s" for sb using inv by (simp add: cap_inv_def)
  ultimately show ?thesis
    unfolding cap_inv_def cap_at_def holding_move [OF i'] holding_same [of "s\<lparr>sh_tracker := ?tr\<rparr>" s, simplified] by (simp add: cnt lim)
qed

lemma cap_step:
  assumes "shell_step hash l s s'" and inv: "cap_inv s"
  shows "cap_inv s'"
  using assms(1)
proof cases
  case (present i msg token sandboxID)
  then show ?thesis by (intro cap_same [OF inv]) (auto simp: holding_def)
next
  case (count i t ok tr)
  then show ?thesis using cap_count [OF inv] by simp
next
  case (part i t)
  then show ?thesis using cap_part [OF inv] by simp
next
  case (register i t ch tr)
  have "cap_inv (move i t (Waking ch) s)" using register by (intro cap_keep [OF inv]) auto
  then show ?thesis by (rule cap_same) (use register in \<open>auto simp: tracker_Done_def holding_def\<close>)
next
  case (revoke_take k sandboxID chs tr)
  then show ?thesis by (intro cap_same [OF inv]) (auto simp: holding_def take_channels_def)
next
  case (revoke_close k ch chs)
  then show ?thesis by (intro cap_same [OF inv]) (auto simp: holding_def close_channel_def)
next
  case (auth i t token)
  then show ?thesis using cap_keep [OF inv] by simp
next
  case (watcher i t ch opened)
  then show ?thesis using cap_keep [OF inv] by simp
next
  case (relayed i t ch opened)
  then show ?thesis using cap_keep [OF inv] by simp
next
  case (woken i t ch)
  then show ?thesis using cap_keep [OF inv] by simp
next
  case (unavailable i t ch)
  then show ?thesis using cap_keep [OF inv] by simp
qed (rule cap_same [OF inv]; simp add: holding_def)+

text \<open>
  C28: a sandbox has no more shell sessions than the limit. In every interleaving of
  sessions, revocations and writes, the sessions of a sandbox between their count and their end are at most the limit of the tracker, and the tracker counts exactly them, so none is lost or counted twice.
\<close>

theorem shell_session_cap:
  assumes "(shell_any hash)\<^sup>*\<^sup>* (shell_start limit d) s" and "limit \<ge> 0"
  shows "finite (holding sb s) \<and> session_count sb (sh_tracker s) = int (card (holding sb s)) \<and> int (card (holding sb s)) \<le> limit"
proof -
  have "cap_inv s \<and> tr_limit (sh_tracker s) = limit"
    using assms(1)
  proof (induction rule: rtranclp_induct)
    case base
    then show ?case using assms(2)
      by (simp add: cap_inv_def cap_at_def shell_start_def newShellSessionTracker_def session_count_def holding_def)
  next
    case (step s s')
    then obtain l where st: "shell_step hash l s s'" by (auto simp: shell_any_def)
    then have "tr_limit (sh_tracker s') = tr_limit (sh_tracker s)"
      by cases (auto simp: tracker_Add_def tracker_Done_def tracker_Remove_def take_channels_def close_channel_def Let_def split: if_splits)
    with cap_step [OF st] step.IH show ?case by simp
  qed
  then show ?thesis by (auto simp: cap_inv_def cap_at_def)
qed

section \<open>Revocation\<close>

text \<open>The channel of a session that has registered; a channel that is closed or on the list of a revocation.\<close>

fun chan :: "shell_pc \<Rightarrow> nat option" where
  "chan (Waking ch) = Some ch"
| "chan (Relay ch _) = Some ch"
| "chan _ = None"

definition on_way :: "nat \<Rightarrow> shell_state \<Rightarrow> bool" where
  "on_way ch s \<longleftrightarrow> ch \<in> tr_closed (sh_tracker s) \<or> (\<exists>k chs. sh_revokes s k = Some (Closing chs) \<and> ch \<in> set chs)"

lemma on_way_same: "tr_closed (sh_tracker s') = tr_closed (sh_tracker s) \<Longrightarrow> sh_revokes s' = sh_revokes s \<Longrightarrow> on_way ch s' \<longleftrightarrow> on_way ch s"
  by (simp add: on_way_def)

lemma on_way_revoke:
  assumes "on_way ch s" and "tr_closed (sh_tracker s) \<subseteq> tr_closed (sh_tracker s')" and "sh_revokes s' = (sh_revokes s)(k \<mapsto> pc)"
    and "\<And>chs. sh_revokes s k = Some (Closing chs) \<Longrightarrow> ch \<in> set chs \<Longrightarrow> on_way ch s'"
  shows "on_way ch s'"
proof (cases "ch \<in> tr_closed (sh_tracker s)")
  case False
  then obtain j chs where j: "sh_revokes s j = Some (Closing chs)" "ch \<in> set chs" using assms(1) by (auto simp: on_way_def)
  then show ?thesis using assms(3,4) by (cases "j = k") (auto simp: on_way_def)
qed (use assms(2) in \<open>auto simp: on_way_def\<close>)

lemma on_way_step:
  assumes "shell_step hash l s s'" and w: "on_way ch s"
  shows "on_way ch s'"
  using assms(1)
proof cases
  case (revoke k sandboxID d')
  show ?thesis by (rule on_way_revoke [OF w, of s' k]) (use revoke in auto)
next
  case (revoke_take k sandboxID chs tr)
  show ?thesis by (rule on_way_revoke [OF w, of s' k]) (use revoke_take in \<open>auto simp: take_channels_def\<close>)
next
  case (revoke_close k c chs)
  show ?thesis by (rule on_way_revoke [OF w, of s' k]) (use revoke_close in \<open>auto simp: close_channel_def on_way_def\<close>)
next
  case (revoked k)
  show ?thesis by (rule on_way_revoke [OF w, of s' k]) (use revoked in auto)
qed (use w in \<open>auto simp: on_way_def tracker_Add_def tracker_Done_def tracker_Remove_def Let_def split: if_splits\<close>)

text \<open>A registered session has its channel where the next revocation finds it, or the channel is on its way.\<close>

definition reg_inv :: "shell_state \<Rightarrow> bool" where
  "reg_inv s \<longleftrightarrow> (\<forall>i t ch. sh_sessions s i = Some t \<longrightarrow> chan (ss_pc t) = Some ch \<longrightarrow>
     ch \<in> set (session_channels (ss_sandbox t) (sh_tracker s)) \<or> on_way ch s)"

lemma channels_simps [simp]:
  "session_channels sb (t\<lparr>tr_counts := c\<rparr>) = session_channels sb t" "session_channels sb (close_channel ch t) = session_channels sb t"
  "session_channels sb (tracker_Remove sb' t) = session_channels sb t"
  by (simp_all add: session_channels_def close_channel_def tracker_Remove_def Let_def)

lemma channels_take: "take_channels sb t = (chs, t') \<Longrightarrow> chs = session_channels sb t \<and> session_channels sb' t' = (if sb' = sb then [] else session_channels sb' t)"
  by (auto simp: take_channels_def session_channels_def)

lemma channels_done: "tracker_Done sb t = (ch, t') \<Longrightarrow> session_channels sb' t' = session_channels sb' t @ (if sb' = sb then [ch] else [])"
  by (auto simp: tracker_Done_def session_channels_def)

lemma channels_add: "tracker_Add sb t = (ok, t') \<Longrightarrow> session_channels sb' t' = session_channels sb' t"
  by (auto simp: tracker_Add_def session_channels_def split: if_splits)

lemma reg_move:
  assumes "reg_inv s" and "sh_sessions s i = Some t" and "\<And>ch. chan pc = Some ch \<Longrightarrow> chan (ss_pc t) = Some ch"
  shows "reg_inv (move i t pc s)"
  using assms unfolding reg_inv_def on_way_def by (auto split: if_splits)

lemma reg_same:
  assumes "reg_inv s" and "sh_sessions s' = sh_sessions s" and "\<And>sb. set (session_channels sb (sh_tracker s)) \<subseteq> set (session_channels sb (sh_tracker s'))"
    and "\<And>ch. on_way ch s \<Longrightarrow> on_way ch s'"
  shows "reg_inv s'"
  unfolding reg_inv_def assms(2)
proof (intro allI impI)
  fix i t ch
  assume "sh_sessions s i = Some t" "chan (ss_pc t) = Some ch"
  with assms(1) have "ch \<in> set (session_channels (ss_sandbox t) (sh_tracker s)) \<or> on_way ch s" unfolding reg_inv_def by blast
  with assms(3) [of "ss_sandbox t"] assms(4) [of ch] show "ch \<in> set (session_channels (ss_sandbox t) (sh_tracker s')) \<or> on_way ch s'" by blast
qed

lemma reg_step:
  assumes "shell_step hash l s s'" and inv: "reg_inv s"
  shows "reg_inv s'"
  using assms(1)
proof cases
  case (present i msg token sandboxID)
  then show ?thesis using inv by (auto simp: reg_inv_def on_way_def)
next
  case (auth i t token)
  then show ?thesis by (auto intro!: reg_move [OF inv] split: if_splits)
next
  case (count i t ok tr)
  have "reg_inv (s\<lparr>sh_tracker := tr\<rparr>)"
    by (rule reg_same [OF inv]) (use channels_add [OF count(5)] count(5) in \<open>auto simp: on_way_def tracker_Add_def split: if_splits\<close>)
  then show ?thesis using count by (auto intro!: reg_move split: if_splits)
next
  case (register i t ch tr)
  have "tr_closed tr = tr_closed (sh_tracker s)" using register(5) by (auto simp: tracker_Done_def)
  then have "reg_inv (s\<lparr>sh_tracker := tr\<rparr>)"
    by (intro reg_same [OF inv]) (use channels_done [OF register(5)] in \<open>auto simp: on_way_def\<close>)
  moreover have "ch \<in> set (session_channels (ss_sandbox t) tr)" using channels_done [OF register(5)] by simp
  ultimately show ?thesis using register by (auto simp: reg_inv_def on_way_def)
next
  case (woken i t ch)
  then show ?thesis by (auto intro!: reg_move [OF inv] split: if_splits)
next
  case (unavailable i t ch)
  then show ?thesis by (auto intro!: reg_move [OF inv] split: if_splits)
next
  case (watcher i t ch opened)
  then show ?thesis by (auto intro!: reg_move [OF inv] split: if_splits)
next
  case (relayed i t ch opened)
  then show ?thesis by (auto intro!: reg_move [OF inv] split: if_splits)
next
  case (part i t)
  have "reg_inv (s\<lparr>sh_tracker := tracker_Remove (ss_sandbox t) (sh_tracker s)\<rparr>)"
    by (rule reg_same [OF inv]) (auto simp: on_way_def tracker_Remove_def Let_def)
  then show ?thesis using part by (auto intro!: reg_move)
next
  case (revoke_take k sandboxID chs tr)
  have w: "on_way ch s'" if "ch \<in> set (session_channels sandboxID (sh_tracker s))" for ch
    using that revoke_take channels_take [OF revoke_take(4)] by (auto simp: on_way_def)
  show ?thesis unfolding reg_inv_def
  proof (intro allI impI)
    fix i t ch
    assume "sh_sessions s' i = Some t" "chan (ss_pc t) = Some ch"
    then have "ch \<in> set (session_channels (ss_sandbox t) (sh_tracker s)) \<or> on_way ch s" using inv revoke_take unfolding reg_inv_def by auto
    then show "ch \<in> set (session_channels (ss_sandbox t) (sh_tracker s')) \<or> on_way ch s'"
      using w on_way_step [OF assms(1)] channels_take [OF revoke_take(4), of "ss_sandbox t"] revoke_take by auto
  qed
next
  case (revoke_close k ch chs)
  show ?thesis by (rule reg_same [OF inv _ _ on_way_step [OF assms(1)]]) (use revoke_close in auto)
next
  case (issue sandboxID token d')
  show ?thesis by (rule reg_same [OF inv _ _ on_way_step [OF assms(1)]]) (use issue in auto)
next
  case (revoke k sandboxID d')
  show ?thesis by (rule reg_same [OF inv _ _ on_way_step [OF assms(1)]]) (use revoke in auto)
next
  case (revoked k)
  show ?thesis by (rule reg_same [OF inv _ _ on_way_step [OF assms(1)]]) (use revoked in auto)
next
  case (other d')
  show ?thesis by (rule reg_same [OF inv _ _ on_way_step [OF assms(1)]]) (use other in auto)
qed

lemma reg_reach: "(shell_any hash)\<^sup>*\<^sup>* (shell_start limit d) s \<Longrightarrow> reg_inv s"
proof (induction rule: rtranclp_induct)
  case (step s s')
  then show ?case using reg_step by (auto simp: shell_any_def)
qed (simp add: reg_inv_def shell_start_def)

text \<open>The token of a sandbox after the writes of the two requests.\<close>

lemma shell_hash_update:
  assumes "\<And>sb. sb_ID (f sb) = sb_ID sb" and "update_sandbox (\<lambda>sb. sb_ID sb = j) f d = Inr (d', n)"
  shows "shell_hash i d' = (if i = j then (case GetSandboxByID i d of Inl _ \<Rightarrow> [] | Inr sb \<Rightarrow> sb_ShellTokenHash (f sb)) else shell_hash i d)"
proof -
  have find: "find (\<lambda>sb. sb_ID sb = i) (update_rows (\<lambda>sb. sb_ID sb = j) f t) =
      map_option (\<lambda>sb. if sb_ID sb = j then f sb else sb) (find (\<lambda>sb. sb_ID sb = i) t)" for t
    by (induction t) (auto simp: update_rows_def assms(1))
  have "sandboxes d' = update_rows (\<lambda>sb. sb_ID sb = j) f (sandboxes d)" using update_sandbox_Inr [OF assms(2)] by simp
  then show ?thesis
    by (auto simp: shell_hash_def GetSandboxByID_def query_row_def find split: option.splits dest: find_Some_D)
qed

lemma hash_cleared: "ClearShellToken j d = Inr d' \<Longrightarrow> shell_hash i d' = (if i = j then [] else shell_hash i d)"
  using shell_hash_update [of "\<lambda>sb. sb\<lparr>sb_ShellTokenHash := []\<rparr>" j d d' _ i]
  by (auto simp: ClearShellToken_def map_sum_fst_Inr split: sum.splits)

lemma hash_issued: "SetShellToken j h d = Inr d' \<Longrightarrow> i \<noteq> j \<Longrightarrow> shell_hash i d' = shell_hash i d"
  using shell_hash_update [of "\<lambda>sb. sb\<lparr>sb_ShellTokenHash := h\<rparr>" j d d' _ i]
  by (auto simp: SetShellToken_def map_sum_fst_Inr)

lemma no_token: "shell_hash sb d = [] \<Longrightarrow> \<not> shell_auth hash sb token d"
  by (auto simp: shell_auth_def shell_hash_def split: sum.splits)

text \<open>
  From the clearing of the token on, as long as no token is issued for the sandbox: a session not in \<open>late\<close> cannot come between authentication and registration, and the channel of
  one that has registered is on its way unless the revocation \<open>k\<close> has not taken the channels yet.
\<close>

definition cut_inv :: "nat set \<Rightarrow> nat \<Rightarrow> string \<Rightarrow> shell_state \<Rightarrow> bool" where
  "cut_inv late k sb s \<longleftrightarrow> shell_hash sb (sh_db s) = [] \<and>
     (\<forall>i t. sh_sessions s i = Some t \<longrightarrow> ss_sandbox t = sb \<longrightarrow> i \<notin> late \<longrightarrow>
        ss_pc t \<noteq> Authed \<and> ss_pc t \<noteq> Counted \<and> (\<forall>ch. chan (ss_pc t) = Some ch \<longrightarrow> on_way ch s \<or> sh_revokes s k = Some (TokenCleared sb)))"

lemma cut_move:
  assumes inv: "cut_inv late k sb s" and "sh_sessions s i = Some t" and "sh_sessions s' = (sh_sessions s)(i \<mapsto> t\<lparr>ss_pc := pc\<rparr>)"
    and "sh_db s' = sh_db s" and "sh_revokes s' = sh_revokes s" and "tr_closed (sh_tracker s') = tr_closed (sh_tracker s)"
    and "ss_sandbox t = sb \<Longrightarrow> i \<notin> late \<Longrightarrow> pc \<noteq> Authed \<and> pc \<noteq> Counted \<and> (\<forall>ch. chan pc = Some ch \<longrightarrow> chan (ss_pc t) = Some ch)"
  shows "cut_inv late k sb s'"
proof -
  have w: "on_way ch s' = on_way ch s" for ch by (rule on_way_same [OF assms(6,5)])
  show ?thesis using inv assms(2,7) unfolding cut_inv_def w assms(3-5) by (auto split: if_splits)
qed

lemma cut_same:
  assumes inv: "cut_inv late k sb s" and "sh_sessions s' = sh_sessions s" and "shell_hash sb (sh_db s') = []"
    and "\<And>ch. on_way ch s \<Longrightarrow> on_way ch s'" and "sh_revokes s k = Some (TokenCleared sb) \<Longrightarrow> sh_revokes s' k = Some (TokenCleared sb)"
  shows "cut_inv late k sb s'"
  unfolding cut_inv_def assms(2)
proof (intro conjI allI impI)
  fix i t ch
  assume t: "sh_sessions s i = Some t" "ss_sandbox t = sb" "i \<notin> late"
  with inv have c: "ss_pc t \<noteq> Authed" "ss_pc t \<noteq> Counted" "chan (ss_pc t) = Some ch \<longrightarrow> on_way ch s \<or> sh_revokes s k = Some (TokenCleared sb)"
    unfolding cut_inv_def by auto
  show "ss_pc t \<noteq> Authed" "ss_pc t \<noteq> Counted" using c by simp_all
  assume "chan (ss_pc t) = Some ch"
  with c(3) assms(4) [of ch] assms(5) show "on_way ch s' \<or> sh_revokes s' k = Some (TokenCleared sb)" by blast
qed (rule assms(3))

text \<open>The revocation takes the channels: from then on every registered session is on its way.\<close>

lemma cut_take:
  assumes inv: "cut_inv late k sb s" and reg: "reg_inv s" and rk: "sh_revokes s k = Some (TokenCleared sb)" and tk: "take_channels sb (sh_tracker s) = (chs, tr)"
    and way: "\<And>ch. on_way ch s \<Longrightarrow> on_way ch (s\<lparr>sh_tracker := tr, sh_revokes := (sh_revokes s)(k \<mapsto> Closing chs)\<rparr>)"
  shows "cut_inv late k sb (s\<lparr>sh_tracker := tr, sh_revokes := (sh_revokes s)(k \<mapsto> Closing chs)\<rparr>)" (is "cut_inv _ _ _ ?s")
  unfolding cut_inv_def
proof (intro conjI allI impI)
  show "shell_hash sb (sh_db ?s) = []" using inv by (simp add: cut_inv_def)
  fix i t ch
  assume "sh_sessions ?s i = Some t" and t: "ss_sandbox t = sb" "i \<notin> late"
  then have i: "sh_sessions s i = Some t" by simp
  show "ss_pc t \<noteq> Authed" "ss_pc t \<noteq> Counted" using inv i t unfolding cut_inv_def by auto
  assume "chan (ss_pc t) = Some ch"
  with reg i t have "ch \<in> set (session_channels sb (sh_tracker s)) \<or> on_way ch s" unfolding reg_inv_def by blast
  moreover have "on_way ch ?s" if "ch \<in> set (session_channels sb (sh_tracker s))" using that channels_take [OF tk, of sb] by (auto simp: on_way_def)
  ultimately have "on_way ch ?s" using way by blast
  then show "on_way ch ?s \<or> sh_revokes ?s k = Some (TokenCleared sb)" ..
qed

definition quiet_step :: "(string \<Rightarrow> string) \<Rightarrow> string \<Rightarrow> shell_state \<Rightarrow> shell_state \<Rightarrow> bool" where
  "quiet_step hash sb s s' \<longleftrightarrow> (\<exists>l. l \<noteq> Some sb \<and> shell_step hash l s s')"

lemma cut_step:
  assumes "shell_step hash l s s'" and "l \<noteq> Some sb" and inv: "cut_inv late k sb s" and reg: "reg_inv s"
  shows "cut_inv late k sb s'"
proof -
  have hash0: "shell_hash sb (sh_db s) = []" using inv by (simp add: cut_inv_def)
  have pcs: "ss_pc t \<noteq> Authed" "ss_pc t \<noteq> Counted" if "sh_sessions s i = Some t" "ss_sandbox t = sb" "i \<notin> late" for i t
    using inv that unfolding cut_inv_def by auto
  note way = on_way_step [OF assms(1)]
  from assms(1,2) show ?thesis
  proof cases
    case (present i msg token sandboxID)
    then show ?thesis using inv by (auto simp: cut_inv_def on_way_def)
  next
    case (auth i t token)
    show ?thesis by (rule cut_move [OF inv auth(3)]) (use auth no_token [OF hash0, of hash token] in auto)
  next
    case (count i t ok tr)
    show ?thesis by (rule cut_move [OF inv count(3)]) (use count pcs in \<open>auto simp: tracker_Add_def split: if_splits\<close>)
  next
    case (register i t ch tr)
    show ?thesis by (rule cut_move [OF inv register(3)]) (use register pcs in \<open>auto simp: tracker_Done_def\<close>)
  next
    case (woken i t ch)
    show ?thesis by (rule cut_move [OF inv woken(3)]) (use woken in auto)
  next
    case (unavailable i t ch)
    show ?thesis by (rule cut_move [OF inv unavailable(3)]) (use unavailable in auto)
  next
    case (watcher i t ch opened)
    show ?thesis by (rule cut_move [OF inv watcher(3)]) (use watcher in auto)
  next
    case (relayed i t ch opened)
    show ?thesis by (rule cut_move [OF inv relayed(3)]) (use relayed in auto)
  next
    case (part i t)
    show ?thesis by (rule cut_move [OF inv part(3)]) (use part in \<open>auto simp: tracker_Remove_def Let_def\<close>)
  next
    case (issue sandboxID token d')
    show ?thesis by (rule cut_same [OF inv _ _ way]) (use issue hash0 hash_issued [OF issue(3), of sb] assms(2) in auto)
  next
    case (revoke j sandboxID d')
    show ?thesis by (rule cut_same [OF inv _ _ way]) (use revoke hash0 hash_cleared [OF revoke(4), of sb] in auto)
  next
    case (revoke_take j sandboxID chs tr)
    show ?thesis
    proof (cases "j = k \<and> sandboxID = sb")
      case True
      with cut_take [OF inv reg, of chs tr] revoke_take way show ?thesis by simp
    next
      case False
      show ?thesis by (rule cut_same [OF inv _ _ way]) (use revoke_take hash0 False in auto)
    qed
  next
    case (revoke_close j ch chs)
    show ?thesis by (rule cut_same [OF inv _ _ way]) (use revoke_close hash0 in auto)
  next
    case (revoked j)
    show ?thesis by (rule cut_same [OF inv _ _ way]) (use revoked hash0 in auto)
  next
    case (other d')
    show ?thesis by (rule cut_same [OF inv _ _ way]) (use other(2,3) other(3) [of sb] hash0 in auto)
  qed
qed

text \<open>
  C27: revoking the token of a sandbox cuts its sessions. From the moment the request has cleared the token, whatever sessions and other
  requests do short of issuing a new token for the sandbox, once the request is done every session of the sandbox that has registered has its channel closed, or on the list of another
  revocation that is still closing, and the watcher of a closed channel closes the socket. The exception are sessions that had
  authenticated and not yet registered when the token was cleared.
\<close>

theorem revocation_cuts:
  assumes reach: "(shell_any hash)\<^sup>*\<^sup>* (shell_start limit d) s0"
    and "sh_revokes s0 k = Some (TokenCleared sb)" and "shell_hash sb (sh_db s0) = []"
    and run: "(quiet_step hash sb)\<^sup>*\<^sup>* s0 s" and "sh_revokes s k = Some Revoked"
    and "sh_sessions s i = Some t" and "ss_sandbox t = sb" and "ss_pc t = Waking ch \<or> ss_pc t = Relay ch opened"
    and "\<nexists>t0. sh_sessions s0 i = Some t0 \<and> ss_pc t0 \<in> {Authed, Counted}"
  shows "ch \<in> tr_closed (sh_tracker s) \<or> (\<exists>k' chs. sh_revokes s k' = Some (Closing chs) \<and> ch \<in> set chs)"
proof -
  let ?late = "{i. \<exists>t0. sh_sessions s0 i = Some t0 \<and> ss_pc t0 \<in> {Authed, Counted}}"
  from run have "reg_inv s \<and> cut_inv ?late k sb s"
  proof (induction rule: rtranclp_induct)
    case base
    then show ?case using reg_reach [OF reach] assms(2,3) by (auto simp: cut_inv_def)
  next
    case (step s s')
    then obtain l where l: "l \<noteq> Some sb" "shell_step hash l s s'" by (auto simp: quiet_step_def)
    with step.IH show ?case using reg_step [OF l(2)] cut_step [OF l(2,1)] by blast
  qed
  moreover have "chan (ss_pc t) = Some ch" using assms(8) by auto
  ultimately have "on_way ch s" using assms(5-7,9) by (fastforce simp: cut_inv_def)
  then show ?thesis by (simp add: on_way_def)
qed

section \<open>Runs\<close>

text \<open>One sandbox with a token, one session of it, and the tracker as the session goes on; \<open>chs\<close> are the registered channels.\<close>

definition example_hash :: "string \<Rightarrow> string" where "example_hash token = CHR ''h'' # token"

definition example_shell_db :: "string \<Rightarrow> db" where
  "example_shell_db h = empty_db\<lparr>sandboxes := [\<lparr>sb_ID = ''s1'', sb_Name = ''dev'', sb_TemplateID = [], sb_EngineID = ''e1'', sb_Status = ''running'',
     sb_IP = [], sb_EngineMeta = ''{}'', sb_NetPolicy = [], sb_CreatedBy = ''alice'', sb_CreatedAt = 1, sb_StoppedAt = None,
     sb_KeepHot = False, sb_HasInit = False, sb_ShellTokenHash = h, sb_CPUs = 0, sb_MemoryMB = 512, sb_DiskSizeMB = 0,
     sb_Image = [], sb_Labels = [], sb_restart_pending = False\<rparr>]\<rparr>"

definition example_tracker :: "int option \<Rightarrow> nat list option \<Rightarrow> nat \<Rightarrow> nat set \<Rightarrow> shellSessionTracker" where
  "example_tracker n chs fresh closed =
     \<lparr>tr_counts = (\<lambda>_. None)(''s1'' := n), tr_channels = (\<lambda>_. None)(''s1'' := chs), tr_limit = 5, tr_fresh = fresh, tr_closed = closed\<rparr>"

definition example_shell :: "string \<Rightarrow> shellSessionTracker \<Rightarrow> shell_pc \<Rightarrow> revoke_pc option \<Rightarrow> shell_state" where
  "example_shell h tr pc r = \<lparr>sh_db = example_shell_db h, sh_tracker = tr,
     sh_sessions = (\<lambda>_. None)(1 := Some \<lparr>ss_sandbox = ''s1'', ss_pc = pc\<rparr>), sh_revokes = (\<lambda>_. None)(1 := r)\<rparr>"

lemmas example_shell_defs = example_shell_def example_shell_db_def example_tracker_def example_hash_def empty_db_def

lemma example_clear: "ClearShellToken ''s1'' (example_shell_db h) = Inr (example_shell_db [])"
  by (simp add: ClearShellToken_def update_sandbox_def sql_update_def update_rows_def sandboxes_cs_def example_shell_db_def empty_db_def)

abbreviation shell_next :: "shell_state \<Rightarrow> shell_state \<Rightarrow> bool" where
  "shell_next \<equiv> shell_any example_hash"

lemma anyI: "shell_step hash l s s' \<Longrightarrow> shell_any hash s s'"
  by (auto simp: shell_any_def)

lemma example_authed:
  "shell_next\<^sup>*\<^sup>* (shell_start 5 (example_shell_db ''ht'')) (example_shell ''ht'' (example_tracker None None 0 {}) Authed None)"
proof -
  let ?s0 = "shell_start 5 (example_shell_db ''ht'')" and ?tr = "example_tracker None None 0 {}"
  have "shell_next ?s0 (example_shell ''ht'' ?tr (Presented ''t'') None)"
    using anyI [OF present [of ?s0 1 "Some (''auth'', ''t'')" "''t''" example_hash "''s1''"]]
    by (simp add: shell_start_def newShellSessionTracker_def auth_token_def example_shell_def example_tracker_def)
  moreover have "shell_next (example_shell ''ht'' ?tr (Presented ''t'') None) (example_shell ''ht'' ?tr Authed None)"
    using anyI [OF auth [of "example_shell ''ht'' ?tr (Presented ''t'') None" 1 _ "''t''" example_hash]]
    by (simp add: move_def shell_auth_def GetSandboxByID_def query_row_def example_shell_defs)
  ultimately show ?thesis by (meson rtranclp.rtrancl_into_rtrancl rtranclp.rtrancl_refl)
qed

text \<open>From authentication to the relay, and a revocation from clearing to its end, whatever the other does.\<close>

lemma example_relay:
  "shell_next\<^sup>*\<^sup>* (example_shell h (example_tracker None None 0 {}) Authed r) (example_shell h (example_tracker (Some 1) (Some [0]) 1 {}) (Relay 0 True) r)"
proof -
  let ?tr = "example_tracker None None 0 {}" and ?tr1 = "example_tracker (Some 1) None 0 {}" and ?tr2 = "example_tracker (Some 1) (Some [0]) 1 {}"
  have "shell_next (example_shell h ?tr Authed r) (example_shell h ?tr1 Counted r)"
    using anyI [OF count [of "example_shell h ?tr Authed r" 1 _ True ?tr1 example_hash]]
    by (simp add: move_def tracker_Add_def session_count_def example_shell_def example_tracker_def)
  moreover have "shell_next (example_shell h ?tr1 Counted r) (example_shell h ?tr2 (Waking 0) r)"
    using anyI [OF register [of "example_shell h ?tr1 Counted r" 1 _ 0 ?tr2 example_hash]]
    by (simp add: move_def tracker_Done_def session_channels_def example_shell_def example_tracker_def)
  moreover have "shell_next (example_shell h ?tr2 (Waking 0) r) (example_shell h ?tr2 (Relay 0 True) r)"
    using anyI [OF woken [of "example_shell h ?tr2 (Waking 0) r" 1 _ 0 example_hash]] by (simp add: move_def example_shell_def)
  ultimately show ?thesis by (meson rtranclp.rtrancl_into_rtrancl rtranclp.rtrancl_refl)
qed

lemma example_cleared: "shell_next (example_shell h tr pc None) (example_shell [] tr pc (Some (TokenCleared ''s1'')))"
  using anyI [OF revoke [of "example_shell h tr pc None" 1 "''s1''" "example_shell_db []" example_hash]] example_clear [of h]
  by (simp add: example_shell_def)

lemma quietI: "shell_step hash None s s' \<Longrightarrow> quiet_step hash sb s s'"
  by (auto simp: quiet_step_def)


lemma example_take:
  "quiet_step example_hash ''s1'' (example_shell h (example_tracker n chs f c) pc (Some (TokenCleared ''s1'')))
     (example_shell h (example_tracker n None f c) pc (Some (Closing (case chs of None \<Rightarrow> [] | Some l \<Rightarrow> l))))"
  using quietI [OF revoke_take [of "example_shell h (example_tracker n chs f c) pc (Some (TokenCleared ''s1''))" 1 "''s1''"
      "case chs of None \<Rightarrow> [] | Some l \<Rightarrow> l" "example_tracker n None f c" example_hash], of "''s1''"]
  by (simp add: take_channels_def session_channels_def example_shell_def example_tracker_def)

lemma example_close:
  "quiet_step example_hash ''s1'' (example_shell h (example_tracker n None f c) pc (Some (Closing [0])))
     (example_shell h (example_tracker n None f (insert 0 c)) pc (Some (Closing [])))"
  using quietI [OF revoke_close [of "example_shell h (example_tracker n None f c) pc (Some (Closing [0]))" 1 0 "[]" example_hash], of "''s1''"]
  by (simp add: close_channel_def example_shell_def example_tracker_def)

lemma example_finish:
  "quiet_step example_hash ''s1'' (example_shell h tr pc (Some (Closing []))) (example_shell h tr pc (Some Revoked))"
  using quietI [OF revoked [of "example_shell h tr pc (Some (Closing []))" 1 example_hash], of "''s1''"] by (simp add: example_shell_def)

theorem shell_session_cap_witness:
  "card (holding ''s1'' (example_shell ''ht'' (example_tracker (Some 1) (Some [0]) 1 {}) (Relay 0 True) None)) = 1 \<and>
   session_count ''s1'' (example_tracker (Some 1) (Some [0]) 1 {}) = 1"
proof -
  have "shell_next\<^sup>*\<^sup>* (shell_start 5 (example_shell_db ''ht'')) (example_shell ''ht'' (example_tracker (Some 1) (Some [0]) 1 {}) (Relay 0 True) None)"
    using example_authed example_relay by (rule rtranclp_trans)
  from shell_session_cap [OF this, of "''s1''"] show ?thesis by (simp add: example_shell_def example_tracker_def session_count_def)
qed

theorem revocation_cuts_witness:
  "0 \<in> tr_closed (example_tracker (Some 1) None 1 {0}) \<and>
   sh_sessions (example_shell [] (example_tracker (Some 1) None 1 {0}) (Relay 0 True) (Some Revoked)) 1 = Some \<lparr>ss_sandbox = ''s1'', ss_pc = Relay 0 True\<rparr>"
proof -
  let ?cleared = "example_shell [] (example_tracker (Some 1) (Some [0]) 1 {}) (Relay 0 True) (Some (TokenCleared ''s1''))"
  let ?fin = "example_shell [] (example_tracker (Some 1) None 1 {0}) (Relay 0 True) (Some Revoked)"
  have "shell_next\<^sup>*\<^sup>* (shell_start 5 (example_shell_db ''ht'')) (example_shell ''ht'' (example_tracker (Some 1) (Some [0]) 1 {}) (Relay 0 True) None)"
    using example_authed example_relay by (rule rtranclp_trans)
  then have reach: "shell_next\<^sup>*\<^sup>* (shell_start 5 (example_shell_db ''ht'')) ?cleared" using example_cleared by (rule rtranclp.rtrancl_into_rtrancl)
  have run: "(quiet_step example_hash ''s1'')\<^sup>*\<^sup>* ?cleared ?fin"
    using example_take [of "[]" "Some 1" "Some [0]" 1 "{}" "Relay 0 True"] example_close [of "[]" "Some 1" 1 "{}" "Relay 0 True"]
      example_finish [of "[]" "example_tracker (Some 1) None 1 {0}" "Relay 0 True"]
    by simp
  have "shell_hash ''s1'' (sh_db ?cleared) = []" by (simp add: shell_hash_def GetSandboxByID_def query_row_def example_shell_defs)
  from revocation_cuts [OF reach _ this run, of 1 1 "\<lparr>ss_sandbox = ''s1'', ss_pc = Relay 0 True\<rparr>" 0 True]
  show ?thesis by (auto simp: example_shell_def split: if_splits)
qed


text \<open>A session that ends leaves its channel in the tracker: the list grows by one with every session until a revocation.\<close>

lemma channels_grow:
  "session_channels sb (((\<lambda>t. tracker_Remove sb (snd (tracker_Done sb t))) ^^ n) t) = session_channels sb t @ [tr_fresh t..<tr_fresh t + n]"
proof -
  define f where "f = (\<lambda>t. tracker_Remove sb (snd (tracker_Done sb t)))"
  have once: "session_channels sb (f u) = session_channels sb u @ [tr_fresh u]" "tr_fresh (f u) = tr_fresh u + 1" for u
    using channels_done [of sb u "tr_fresh u" "snd (tracker_Done sb u)" sb] by (simp_all add: f_def, simp_all add: tracker_Done_def tracker_Remove_def Let_def)
  have "session_channels sb ((f ^^ n) t) = session_channels sb t @ [tr_fresh t..<tr_fresh t + n] \<and> tr_fresh ((f ^^ n) t) = tr_fresh t + n"
    by (induction n) (simp_all add: once)
  then show ?thesis by (simp add: f_def)
qed

end
