(* ===== verification/Spec2Isabelle.thy ===== *)
theory Spec2Isabelle
  imports Frame Netd Sandboxes Intercept Volumes Catalog Addressing Lifecycle Grant_Service Thermal Events Supervisor Unit_Graph
    Tunnels Publishing Web_Shell
begin

text \<open>
  \<^bold>\<open>Bhatti.\<close> Bhatti runs untrusted workloads of several owners in micro-VMs on one host. A daemon
  (\<^verbatim>\<open>src/pkg/server\<close>) serves the API and keeps its state in SQLite (\<^verbatim>\<open>src/pkg/store\<close>); an engine
  (\<^verbatim>\<open>src/pkg/engine/krucible\<close>) runs one VMM process per sandbox and one network gateway per owner, \<open>bhatti-netd\<close>
  (\<^verbatim>\<open>src/cmd/bhatti-netd\<close>), through which all traffic of the owner's guests passes. The daemon pushes policies to netd
  over a control channel; netd asks the daemon's credential broker (\<^verbatim>\<open>src/pkg/broker\<close>) for the value of a secret when a
  guest sends its placeholder to a host the secret was granted for. In the guest, \<open>lohar\<close> (\<^verbatim>\<open>src/cmd/lohar\<close>) is process 1:
  it answers the daemon over a framed protocol and starts the units of the guest image.

  \<^bold>\<open>Theories and sources.\<close>
  \<^item> \<open>Bhatti_Prelude\<close>: shared types, Go's string functions, errors as sums.
  \<^item> \<open>Frame\<close>: \<^verbatim>\<open>pkg/agent/proto/frame.go\<close> and the framing of \<^verbatim>\<open>pkg/gateway/link.go\<close>; the locale \<open>frame_codec\<close> is
    the contract of a framed stream and is interpreted on both protocols.
  \<^item> \<open>Netip\<close>: the part of Go's \<open>net/netip\<close> in use. \<open>Guard\<close>: \<^verbatim>\<open>pkg/gateway/guard.go\<close>, address classes, host patterns,
    policies, the vetting dialer. \<open>Control\<close>: \<^verbatim>\<open>pkg/gateway/control.go\<close>, policies on the wire and the server of the control channel, whose
    handler is the locale \<open>control_handler\<close>.
  \<^item> \<open>Netd\<close>: \<^verbatim>\<open>cmd/bhatti-netd/netstack.go\<close>, \<^verbatim>\<open>forward.go\<close>, \<^verbatim>\<open>dns.go\<close>: registration of guests, ingress filter, forwarders, DNS and its
    name cache; it interprets \<open>control_handler\<close>.
  \<^item> \<open>Placeholder\<close>: \<^verbatim>\<open>pkg/gateway/placeholder.go\<close>. \<open>Streams\<close>, \<open>Http_Codec\<close>, \<open>Intercept\<close>: \<^verbatim>\<open>cmd/bhatti-netd/intercept.go\<close>, the body
    guard, the codecs under it, and the substitution of placeholders on an intercepted connection, over the locale \<open>credential_source\<close>.
  \<^item> \<open>Sql\<close>, \<open>Store\<close>: SQL statements on tables as lists and the database of \<^verbatim>\<open>pkg/store\<close>; the locale \<open>sql_table\<close> is
    interpreted on every table. \<open>Sandboxes\<close>, \<open>Grants\<close>, \<open>Volumes\<close>, \<open>Catalog\<close>: the operations of \<^verbatim>\<open>sandbox.go\<close>; of \<^verbatim>\<open>secret.go\<close>,
    \<^verbatim>\<open>grant.go\<close>, \<^verbatim>\<open>sandbox_ca.go\<close>, \<^verbatim>\<open>snapshot.go\<close>; of \<^verbatim>\<open>volume.go\<close>; of \<^verbatim>\<open>user.go\<close>, \<^verbatim>\<open>image.go\<close>, \<^verbatim>\<open>publish.go\<close>, \<^verbatim>\<open>task.go\<close>, \<^verbatim>\<open>template.go\<close>.
  \<^item> \<open>Broker\<close>: \<^verbatim>\<open>pkg/broker/broker.go\<close> over the locale \<open>grant_store\<close>, which \<open>Grants\<close> interprets on the tables; \<open>Intercept\<close>
    interprets \<open>credential_source\<close> on the broker, which joins the two ends of a resolution.
  \<^item> \<open>Grant_Service\<close>: \<^verbatim>\<open>pkg/server/grant_handlers.go\<close>. \<open>Lifecycle\<close>: \<^verbatim>\<open>pkg/server/lifecycle.go\<close> and the stop request, as interleaved
    steps of the consumer, the restart workers and the handlers.
  \<^item> \<open>Mount_Policy\<close>: \<^verbatim>\<open>pkg/server/mount_policy.go\<close>, over the lexical part of \<open>path/filepath\<close>.
  \<^item> \<open>Requests\<close>: the tests of \<^verbatim>\<open>pkg/server/routes.go\<close> and \<^verbatim>\<open>labels.go\<close> on names, mount points and labels and the caps on the size of a sandbox, with Go's comparison of
    64-bit floats. \<open>Sandbox_Create\<close>: the request that creates a sandbox (\<^verbatim>\<open>pkg/server/sandbox_handlers.go\<close>), from its checks over templates, secrets, files, volumes, certificate and grants to boot or fork,
    the row and the rollback of each failure. \<open>Sandbox_Api\<close>: list, get, destroy, patch, stop and start. \<open>Tunnels\<close>: \<^verbatim>\<open>pkg/server/tunnel_handlers.go\<close>, sessions against destructions as interleaved steps.
  \<^item> \<open>Route_Cache\<close>: the cache of \<^verbatim>\<open>pkg/server/public_proxy.go\<close>, a map and a linked list that refine a list ordered by use; it interprets the locale \<open>route_store\<close>. \<open>Publishing\<close>: aliases and the
    requests of \<^verbatim>\<open>pkg/server/publish_handlers.go\<close>, routing by host and path, and lookups against removals over \<open>route_store\<close>. \<open>Web_Shell\<close>: \<^verbatim>\<open>pkg/server/shell_handlers.go\<close>, tokens, sessions and revocations
    as interleaved steps.
  \<^item> \<open>Vm_Thermal\<close>, \<open>Thermal\<close>: the power states of a VM in the engine (\<^verbatim>\<open>krucible/thermal.go\<close>, \<^verbatim>\<open>engine.go\<close>), and the thermal manager, the waking requests and
    the pins of \<^verbatim>\<open>pkg/server/server.go\<close> over the locale \<open>thermal_engine\<close>, which \<open>Vm_Thermal\<close> interprets on the engine.
  \<^item> \<open>Events\<close>: the events table (\<^verbatim>\<open>pkg/store/event.go\<close>) and the recorder in front of it (\<^verbatim>\<open>pkg/server/event_recorder.go\<close>).
  \<^item> \<open>Addressing\<close>: the address plan and guest slots of \<^verbatim>\<open>pkg/engine/krucible/engine.go\<close>.
  \<^item> \<open>Unit_File\<close>, \<open>Unit_Graph\<close>: the unit files, conditions and boot order of \<open>lohar\<close>. \<open>Reaper\<close>: \<^verbatim>\<open>cmd/lohar/reaper.go\<close>. \<open>Supervisor\<close>: starting, stopping and
    restarting one service (\<^verbatim>\<open>cmd/lohar/systemctl.go\<close>). \<open>Rate_Window\<close>: the locale \<open>sliding_window\<close> of limiters, interpreted on the restart limits of daemon and guest.

  \<^bold>\<open>What the theorems show.\<close> Credentials: a value reaches a request only through a live grant of the same owner, sandbox and host,
  no placeholder leaves in a header or a body, revocation is final, a grant stays within the egress policy, a clone can use what its source can.
  Network: tenants are isolated, a guest cannot spoof another, reserved ranges are never opened, addresses of the engine's plan are
  accepted by netd and never shared. State: attachments of a volume are a reader/writer lock, users have subnets and keys of their own,
  the sandboxes table keeps its invariants under every sequence of writes. Lifecycle: exits are not lost, restarts are bounded, an
  aborted restart does not boot, a pinned VM stays hot, a cycle treats every sandbox for itself, accepted events reach the table and subscribers see no gap; a mount never reaches the server's own files. Requests: a failed creation
  leaves no row, attachment, grant or machine behind, except for the early returns that one theorem exhibits; a created sandbox has the grants asked for, within its policy; a destruction removes the rows of its
  sandbox and no others and ends its tunnels; stored labels are well-formed; a cached public route is a rule of the table unless a lookup overlapped a removal; a revoked token ends the web shells of a sandbox, but for one that was just authenticating. Guest: units boot in the order of their files, every exit status reaches who waits for it, a running service that is stopped stays stopped.

  \<^bold>\<open>Conventions.\<close> A Go function that returns an error returns a sum, \<open>Inl\<close> the error. State is passed explicitly: the database is the record
  \<open>db\<close>, a gateway the record \<open>gateway\<close>, the daemon's lifecycle the record \<open>server\<close>. Critical sections under one mutex are single steps. Random
  draws, clocks, certificates, encryption, JSON, sockets and the results of system calls are arguments. No definition uses fuel: loops are
  structural or have a termination proof.

  \<^bold>\<open>Not modelled.\<close> The gVisor stack, TLS and \<open>net/http\<close>, X.509 (\<^verbatim>\<open>pkg/broker/pki.go\<close>), image registries, ext4, S3 and age
  (\<^verbatim>\<open>pkg/oci\<close>, \<^verbatim>\<open>pkg/backup\<close>, \<^verbatim>\<open>pkg/secrets\<close>) are third-party or standard packages behind arguments. Process, namespace, seccomp and file management of
  the engine, the VMM and \<open>lohar\<close>, flag parsing and terminal output of the command line are system calls with little state of their own.
  The handlers for exec, files, volumes and their backups, snapshots and administration relay streams or run host tools around operations of the store that are modelled.
  Driver errors of SQLite and the rate limits in floating point (\<^verbatim>\<open>pkg/server/ratelimit.go\<close>) are left out.
\<close>

end
